(* ===== verification/Protocol.thy ===== *)
theory Protocol
  imports Prelude
begin

text \<open>
  What the service uses of code outside the repository. The crate
  \<^verbatim>\<open>mbx_cache_protocol\<close> defines the wire types (\<^verbatim>\<open>Digest\<close>, \<^verbatim>\<open>Directory\<close>,
  \<^verbatim>\<open>ActionResult\<close>, \<^verbatim>\<open>TaskActionManifest\<close>), which are records here with the fields
  the service reads, and functions on them, which are fields of the record
  \<open>protocol\<close>, an argument of every definition that calls one; the \<^verbatim>\<open>hex\<close> crate is
  treated the same way. The predicates \<open>digests_documented\<close>, \<open>hex_documented\<close> and
  \<open>magic_documented\<close> state the documented behaviour the theorems rely on. The instance
  \<open>reference_protocol\<close> satisfies all of them; it serves the witnesses only.
\<close>

section \<open>Wire types\<close>

datatype algorithm = Blake3 | Sha256

record digest =
  dg_algorithm :: string
  dg_hash :: string
  dg_size :: u64

record directory_node =
  dn_name :: string
  dn_mode :: u32
  dn_digest :: digest

record file_node =
  fn_name :: string
  fn_mode :: u32
  fn_digest :: digest
  fn_executable :: bool

record symlink_node =
  sn_name :: string
  sn_mode :: u32
  sn_target :: string

record directory =
  dir_version :: u8
  dir_directories :: "directory_node list"
  dir_files :: "file_node list"
  dir_symlinks :: "symlink_node list"

record action_result =
  ar_version :: u8
  ar_action :: digest
  ar_metadata :: "digest option"
  ar_output_root :: "digest option"

record action_prediction =
  ap_action :: digest
  ap_adapter :: string
  ap_invocation :: digest
  ap_payload :: string

record task_action_manifest =
  tm_version :: u8
  tm_task :: string
  tm_predictions :: "action_prediction list"

section \<open>Functions outside the repository\<close>

record protocol =
  algorithm_str :: "algorithm \<Rightarrow> string"
  algorithm_kind :: "digest \<Rightarrow> string + algorithm"
  digest_validate :: "digest \<Rightarrow> bool"
  digest_key :: "digest \<Rightarrow> string"
  pack_magic :: bytes
  max_batch_items :: nat
  hex_encode :: "bytes \<Rightarrow> string"
  hex_decode :: "string \<Rightarrow> string + bytes"

definition lower_hex_string :: "string \<Rightarrow> bool" where
  "lower_hex_string s \<longleftrightarrow> list_all is_lower_hex s"

text \<open>
  A digest is valid when its algorithm is \<^verbatim>\<open>blake3\<close> or \<^verbatim>\<open>sha256\<close> and its hash is 64
  lower-case hexadecimal digits; its kind is the algorithm of that name.
\<close>

definition digests_documented :: "protocol \<Rightarrow> bool" where
  "digests_documented P \<longleftrightarrow>
     algorithm_str P Blake3 = ''blake3'' \<and>
     algorithm_str P Sha256 = ''sha256'' \<and>
     (\<forall>d. digest_validate P d \<longleftrightarrow>
        (dg_algorithm d = ''blake3'' \<or> dg_algorithm d = ''sha256'') \<and>
        length (dg_hash d) = 64 \<and> lower_hex_string (dg_hash d)) \<and>
     (\<forall>d a. algorithm_kind P d = Inr a \<longleftrightarrow> dg_algorithm d = algorithm_str P a)"

text \<open>Hexadecimal text: two lower-case digits per byte, and decoding inverts encoding.\<close>

definition hex_documented :: "protocol \<Rightarrow> bool" where
  "hex_documented P \<longleftrightarrow>
     (\<forall>bs. length (hex_encode P bs) = 2 * length bs \<and> lower_hex_string (hex_encode P bs) \<and>
        hex_decode P (hex_encode P bs) = Inr bs) \<and>
     (\<forall>s. even (length s) \<and> lower_hex_string s \<longrightarrow>
        (\<exists>bs. hex_decode P s = Inr bs \<and> hex_encode P bs = s))"

definition magic_documented :: "protocol \<Rightarrow> bool" where
  "magic_documented P \<longleftrightarrow> pack_magic P = as_bytes ''MBXPACK1''"

lemma magic_documented_length: "magic_documented P \<Longrightarrow> length (pack_magic P) = 8"
  by (simp add: magic_documented_def)

lemma algorithm_kind_valid:
  assumes "digests_documented P" and "digest_validate P d"
  obtains a where "algorithm_kind P d = Inr a" and "dg_algorithm d = algorithm_str P a"
  using assms unfolding digests_documented_def by (metis (full_types))

lemma hex_decode_valid:
  assumes "digests_documented P" and "hex_documented P" and "digest_validate P d"
  obtains bs where "hex_decode P (dg_hash d) = Inr bs" and "hex_encode P bs = dg_hash d"
    and "length bs = 32"
proof -
  from assms(1,3) have h: "length (dg_hash d) = 64" "lower_hex_string (dg_hash d)"
    by (auto simp: digests_documented_def)
  with assms(2) obtain bs where bs: "hex_decode P (dg_hash d) = Inr bs" "hex_encode P bs = dg_hash d"
    unfolding hex_documented_def by (metis even_numeral)
  with assms(2) h(1) have "2 * length bs = 64" unfolding hex_documented_def by metis
  with bs that show ?thesis by simp
qed

section \<open>An instance for the witnesses\<close>

definition hex_digit :: "nat \<Rightarrow> char" where
  "hex_digit n = char_of (if n < 10 then 48 + n else 87 + n)"

definition hex_value :: "char \<Rightarrow> nat option" where
  "hex_value c = (let n = of_char c in
     if 48 \<le> n \<and> n \<le> 57 then Some (n - 48)
     else if 97 \<le> n \<and> n \<le> 102 then Some (n - 87) else None)"

fun reference_hex_encode :: "bytes \<Rightarrow> string" where
  "reference_hex_encode [] = []"
| "reference_hex_encode (b # bs) =
     hex_digit (unat b div 16) # hex_digit (unat b mod 16) # reference_hex_encode bs"

fun reference_hex_decode :: "string \<Rightarrow> string + bytes" where
  "reference_hex_decode [] = Inr []"
| "reference_hex_decode [c] = Inl ''odd number of digits''"
| "reference_hex_decode (c # d # s) =
     (case (hex_value c, hex_value d) of
        (Some m, Some n) \<Rightarrow> bind_result (reference_hex_decode s) (\<lambda>bs. Inr (of_nat (16 * m + n) # bs))
      | _ \<Rightarrow> Inl ''invalid character'')"

definition reference_protocol :: protocol where
  "reference_protocol =
     \<lparr>algorithm_str = (\<lambda>a. case a of Blake3 \<Rightarrow> ''blake3'' | Sha256 \<Rightarrow> ''sha256''),
      algorithm_kind = (\<lambda>d. if dg_algorithm d = ''blake3'' then Inr Blake3
                            else if dg_algorithm d = ''sha256'' then Inr Sha256
                            else Inl ''unsupported digest algorithm''),
      digest_validate = (\<lambda>d. (dg_algorithm d = ''blake3'' \<or> dg_algorithm d = ''sha256'') \<and>
                             length (dg_hash d) = 64 \<and> lower_hex_string (dg_hash d)),
      digest_key = (\<lambda>d. dg_algorithm d @ ''/'' @ dg_hash d @ ''/'' @ show_u64 (dg_size d)),
      pack_magic = as_bytes ''MBXPACK1'',
      max_batch_items = 10000,
      hex_encode = reference_hex_encode,
      hex_decode = reference_hex_decode\<rparr>"

lemma hex_value_digit: "n < 16 \<Longrightarrow> hex_value (hex_digit n) = Some n"
  by (simp add: hex_value_def hex_digit_def)

lemma is_lower_hex_iff: "is_lower_hex c \<longleftrightarrow> (\<exists>n. hex_value c = Some n)"
  by (auto simp: is_lower_hex_def is_ascii_digit_def hex_value_def Let_def)

lemma hex_digit_value: "hex_value c = Some n \<Longrightarrow> n < 16 \<and> hex_digit n = c"
proof -
  assume "hex_value c = Some n"
  then have "(48 \<le> (of_char c :: nat) \<and> of_char c \<le> (57 :: nat) \<and> n = of_char c - 48) \<or>
      (97 \<le> (of_char c :: nat) \<and> of_char c \<le> (102 :: nat) \<and> n = of_char c - 87)"
    by (auto simp: hex_value_def Let_def split: if_splits)
  then show ?thesis by (auto simp: hex_digit_def)
qed

lemma unat_byte_less: "unat (b :: u8) < 256"
proof -
  have "unat b < 2 ^ LENGTH(8)" by (rule unsigned_less)
  then show ?thesis by simp
qed

lemma reference_hex_roundtrip:
  "reference_hex_decode (reference_hex_encode bs) = Inr bs"
proof (induction bs)
  case (Cons b bs)
  have "unat b div 16 < 16" using unat_byte_less [of b] by (simp add: less_mult_imp_div_less)
  with Cons show ?case by (simp add: hex_value_digit)
qed simp

lemma reference_hex_shape:
  "length (reference_hex_encode bs) = 2 * length bs \<and> lower_hex_string (reference_hex_encode bs)"
proof (induction bs)
  case (Cons b bs)
  have "unat b div 16 < 16" using unat_byte_less [of b] by (simp add: less_mult_imp_div_less)
  with Cons show ?case by (auto simp: lower_hex_string_def is_lower_hex_iff hex_value_digit)
qed (simp add: lower_hex_string_def)

lemma reference_hex_total:
  "even (length s) \<Longrightarrow> lower_hex_string s \<Longrightarrow>
     \<exists>bs. reference_hex_decode s = Inr bs \<and> reference_hex_encode bs = s"
proof (induction s rule: reference_hex_decode.induct)
  case (3 c d s)
  from "3.prems" have "is_lower_hex c" "is_lower_hex d" and s: "even (length s)" "lower_hex_string s"
    by (auto simp: lower_hex_string_def)
  then obtain m n where mn: "hex_value c = Some m" "hex_value d = Some n"
    by (auto simp: is_lower_hex_iff)
  with "3.IH" s obtain bs where bs: "reference_hex_decode s = Inr bs" "reference_hex_encode bs = s"
    by blast
  from hex_digit_value [OF mn(1)] hex_digit_value [OF mn(2)]
  have lt: "m < 16" "n < 16" and dig: "hex_digit m = c" "hex_digit n = d" by auto
  have "unat (of_nat (16 * m + n) :: u8) = 16 * m + n"
    using lt by (simp only: unat_of_nat) simp
  with mn bs lt dig show ?case by (simp del: of_nat_add of_nat_mult)
qed (auto simp: lower_hex_string_def)

lemma reference_protocol_documented:
  "digests_documented reference_protocol"
  "hex_documented reference_protocol"
  "magic_documented reference_protocol"
  by (auto simp: digests_documented_def hex_documented_def magic_documented_def reference_protocol_def
      reference_hex_roundtrip reference_hex_shape reference_hex_total split: algorithm.splits if_splits)

end
