(* ===== verification/Storage.thy ===== *)
theory Storage
  imports Protocol
begin

text \<open>
  \<^verbatim>\<open>src/storage/mod.rs\<close>: the blob-store interface. The trait object is the record
  \<open>blob_store\<close> of its two operations over a store state; the locale \<open>blob_store_laws\<close> says
  what the service may rely on, and each back end proves it for its own operations.

  A stream of bytes that may fail is the list of what it yields. \<open>put\<close> takes the bytes of
  the file its source path names.
\<close>

section \<open>Data\<close>

type_synonym stream = "(string + bytes) list"

record blob =
  bl_size :: u64
  bl_stream :: stream

datatype put_outcome = PutCreated | PutAlreadyExists

record 'b blob_store =
  bs_get :: "digest \<Rightarrow> ('b, string, blob option) prog"
  bs_put :: "digest \<Rightarrow> bytes \<Rightarrow> ('b, string, put_outcome) prog"

text \<open>Reading a stream to its end, or to its first error.\<close>

fun collect :: "stream \<Rightarrow> string + bytes" where
  "collect [] = Inr []"
| "collect (Inl e # xs) = Inl e"
| "collect (Inr c # xs) = bind_result (collect xs) (\<lambda>cs. Inr (c @ cs))"

text \<open>A stream delivers given bytes, possibly failing before the end.\<close>

fun delivers :: "stream \<Rightarrow> bytes \<Rightarrow> bool" where
  "delivers [] bs \<longleftrightarrow> bs = []"
| "delivers (Inl e # xs) bs \<longleftrightarrow> True"
| "delivers (Inr c # xs) bs \<longleftrightarrow> take (length c) bs = c \<and> delivers xs (drop (length c) bs)"

lemma delivers_collect: "delivers xs bs \<Longrightarrow> collect xs = Inr cs \<Longrightarrow> cs = bs"
proof (induction xs bs arbitrary: cs rule: delivers.induct)
  case (3 c xs bs)
  from "3.prems"(2) obtain ds where ds: "collect xs = Inr ds" "cs = c @ ds"
    by (auto simp: result_simps)
  with "3.IH" "3.prems"(1) have "ds = drop (length c) bs" by simp
  with ds "3.prems"(1) show ?case by (metis append_take_drop_id delivers.simps(3))
qed auto

section \<open>What a back end promises\<close>

text \<open>
  \<open>content\<close> is what the store holds under a digest, \<open>foreign\<close> what may still appear there:
  what other processes that share the store may write, and what the store has accepted but
  not yet completed. A call never changes or loses a stored object; whatever is new, or is
  now to come, is in \<open>written\<close> or was already to come.
\<close>

definition extends ::
  "('b \<Rightarrow> digest \<Rightarrow> bytes option) \<Rightarrow> ('b \<Rightarrow> digest \<Rightarrow> bytes \<Rightarrow> bool) \<Rightarrow> (digest \<times> bytes) set
     \<Rightarrow> 'b \<Rightarrow> 'b \<Rightarrow> bool" where
  "extends content foreign written s t \<longleftrightarrow>
     (\<forall>d bs. content s d = Some bs \<longrightarrow> content t d = Some bs) \<and>
     (\<forall>d bs. content t d = Some bs \<longrightarrow> content s d = Some bs \<or> foreign s d bs \<or> (d, bs) \<in> written) \<and>
     (\<forall>d bs. foreign t d bs \<longrightarrow> foreign s d bs \<or> (d, bs) \<in> written)"

lemma extends_refl [intro, simp]: "extends content foreign w s s"
  by (simp add: extends_def)

lemma extends_trans:
  "extends content foreign v s t \<Longrightarrow> extends content foreign w t u \<Longrightarrow>
     extends content foreign (v \<union> w) s u"
  unfolding extends_def by blast

lemma extends_mono: "extends content foreign v s t \<Longrightarrow> v \<subseteq> w \<Longrightarrow> extends content foreign w s t"
  unfolding extends_def by blast

lemma extends_content: "extends content foreign w s t \<Longrightarrow> content s d = Some bs \<Longrightarrow> content t d = Some bs"
  by (simp add: extends_def)

definition all_content ::
  "('b \<Rightarrow> digest \<Rightarrow> bytes option) \<Rightarrow> ('b \<Rightarrow> digest \<Rightarrow> bytes \<Rightarrow> bool) \<Rightarrow> (digest \<Rightarrow> bytes \<Rightarrow> bool)
     \<Rightarrow> 'b \<Rightarrow> bool" where
  "all_content content foreign Q s \<longleftrightarrow>
     (\<forall>d bs. content s d = Some bs \<or> foreign s d bs \<longrightarrow> Q d bs)"

text \<open>
  Any history of calls on a store, failed ones included, in which the bytes put under a digest
  fit it.
\<close>

inductive store_step :: "'b blob_store \<Rightarrow> (digest \<Rightarrow> bytes \<Rightarrow> bool) \<Rightarrow> 'b \<Rightarrow> 'b \<Rightarrow> bool" for store fits where
  get: "bs_get store d s = (r, t) \<Longrightarrow> store_step store fits s t"
| put: "fits d src \<Longrightarrow> bs_put store d src s = (out, t) \<Longrightarrow> store_step store fits s t"

inductive_cases store_stepE: "store_step store fits s t"

text \<open>
  A back end keeps its promises towards clients that only put what \<open>fits\<close>: the server compares
  size and hash of every upload with its digest, and the object stores rely on it. That a put
  answered by \<open>PutAlreadyExists\<close> has left something to read is promised where the other clients
  do the same.
\<close>

locale blob_store_laws =
  fixes store :: "'b blob_store"
    and content :: "'b \<Rightarrow> digest \<Rightarrow> bytes option"
    and foreign :: "'b \<Rightarrow> digest \<Rightarrow> bytes \<Rightarrow> bool"
    and fits :: "digest \<Rightarrow> bytes \<Rightarrow> bool"
  assumes get_extends: "bs_get store d s = (r, t) \<Longrightarrow> extends content foreign {} s t"
    and get_present: "content s d = Some bs \<Longrightarrow> bs_get store d s = (Inr b, t) \<Longrightarrow>
      \<exists>blob. b = Some blob \<and> bl_size blob = of_nat (length bs) \<and> delivers (bl_stream blob) bs"
    and put_extends: "fits d src \<Longrightarrow> bs_put store d src s = (out, t) \<Longrightarrow> extends content foreign {(d, src)} s t"
    and put_created: "fits d src \<Longrightarrow> bs_put store d src s = (Inr PutCreated, t) \<Longrightarrow> content t d = Some src"
    and put_exists: "fits d src \<Longrightarrow> (\<And>bs. foreign s d bs \<Longrightarrow> fits d bs) \<Longrightarrow>
      bs_put store d src s = (Inr PutAlreadyExists, t) \<Longrightarrow> content t d \<noteq> None"
begin

text \<open>After a successful put there is an object.\<close>

lemma put_stored:
  assumes "fits d src" and "\<And>bs. foreign s d bs \<Longrightarrow> fits d bs" and "bs_put store d src s = (Inr out, t)"
  shows "content t d \<noteq> None"
  using put_created [OF assms(1)] put_exists [OF assms(1,2)] assms(3) by (cases out) fastforce+

text \<open>
  The rely-guarantee reading: a property of digest and content that holds of everything
  stored or still to be written elsewhere is kept by every get, and by a put of bytes that
  have it.
\<close>

lemma all_content_get: "all_content content foreign Q s \<Longrightarrow> bs_get store d s = (r, t) \<Longrightarrow> all_content content foreign Q t"
  using get_extends [of d s r t] unfolding all_content_def extends_def by blast

lemma all_content_put:
  "all_content content foreign Q s \<Longrightarrow> Q d src \<Longrightarrow> fits d src \<Longrightarrow> bs_put store d src s = (r, t) \<Longrightarrow> all_content content foreign Q t"
  using put_extends [of d src s r t] unfolding all_content_def extends_def by blast

text \<open>
  Round trip: what was stored under a digest is what a later get delivers, whatever
  happened in between.
\<close>

lemma steps_content:
  assumes "(store_step store fits)\<^sup>*\<^sup>* s t" and "content s d = Some bs"
  shows "content t d = Some bs"
  using assms
  by (induction rule: rtranclp_induct)
    (auto elim!: store_stepE dest: get_extends put_extends intro: extends_content)

lemma get_after_put:
  assumes "fits d src" and "bs_put store d src s = (Inr PutCreated, t)"
    and "(store_step store fits)\<^sup>*\<^sup>* t u"
    and "bs_get store d u = (Inr b, v)"
  shows "\<exists>blob. b = Some blob \<and> bl_size blob = of_nat (length src) \<and> delivers (bl_stream blob) src"
  using get_present [of u d src b v] put_created [OF assms(1,2)] steps_content [OF assms(3)] assms(4)
  by blast

end

lemma blob_store_laws_mono:
  assumes "blob_store_laws store content foreign fits" and "\<forall>d bs. fits' d bs \<longrightarrow> fits d bs"
  shows "blob_store_laws store content foreign fits'"
proof (unfold_locales, goal_cases)
  case 1
  then show ?case by (rule blob_store_laws.get_extends [OF assms(1)])
next
  case 2
  then show ?case by (rule blob_store_laws.get_present [OF assms(1)])
next
  case 3
  show ?case by (rule blob_store_laws.put_extends [OF assms(1) assms(2) [rule_format, OF 3(1)] 3(2)])
next
  case 4
  show ?case by (rule blob_store_laws.put_created [OF assms(1) assms(2) [rule_format, OF 4(1)] 4(2)])
next
  case 5
  show ?case
    by (rule blob_store_laws.put_exists [OF assms(1) assms(2) [rule_format, OF 5(1)] _ 5(3)])
      (use 5(2) assms(2) in blast)
qed

end
