(* ===== verification/Filesystem.thy ===== *)
theory Filesystem
  imports Storage
begin

text \<open>
  \<^verbatim>\<open>src/storage/filesystem.rs\<close>. The file system is a map from paths (lists of components)
  to the bytes of the files there, together with what the environment decides: the fault of
  each call, if any, the files other processes publish before each call, and how a file is
  cut into chunks when it is read. A staging file is private to its \<open>put\<close> until
  \<^verbatim>\<open>persist_noclobber\<close> publishes it under the destination unless a file is there already.
\<close>

section \<open>The file system\<close>

type_synonym fpath = "string list"

datatype io_error = NotFound | FileExists | OtherError string

record fs =
  fs_files :: "fpath \<Rightarrow> bytes option"
  fs_schedule :: "(fpath \<times> bytes) list list"
  fs_faults :: "string option list"
  fs_streams :: "(string + nat) list list"

definition publish :: "fpath \<times> bytes \<Rightarrow> (fpath \<Rightarrow> bytes option) \<Rightarrow> fpath \<Rightarrow> bytes option" where
  "publish pb files = (if files (fst pb) = None then files(fst pb \<mapsto> snd pb) else files)"

text \<open>Every call first lets the other processes run, then fails or does its work.\<close>

definition interfere :: "fs \<Rightarrow> fs" where
  "interfere s = (case fs_schedule s of [] \<Rightarrow> s
     | ws # rest \<Rightarrow> s\<lparr>fs_files := fold publish ws (fs_files s), fs_schedule := rest\<rparr>)"

definition syscall :: "(fs, io_error, 'a) prog \<Rightarrow> (fs, io_error, 'a) prog" where
  "syscall m s =
     (let t = interfere s in
      case fs_faults t of
        [] \<Rightarrow> m t
      | None # fs \<Rightarrow> m (t\<lparr>fs_faults := fs\<rparr>)
      | Some e # fs \<Rightarrow> (Inl (OtherError e), t\<lparr>fs_faults := fs\<rparr>))"

definition fs_open :: "fpath \<Rightarrow> (fs, io_error, bytes) prog" where
  "fs_open p = syscall (\<lambda>s. (case fs_files s p of None \<Rightarrow> Inl NotFound | Some bs \<Rightarrow> Inr bs, s))"

definition fs_try_exists :: "fpath \<Rightarrow> (fs, io_error, bool) prog" where
  "fs_try_exists p = syscall (\<lambda>s. (Inr (fs_files s p \<noteq> None), s))"

text \<open>Creating directories, reading a file's length, opening and filling a private staging file.\<close>

definition fs_call :: "(fs, io_error, unit) prog" where
  "fs_call = syscall (ok ())"

definition persist_noclobber :: "bytes \<Rightarrow> fpath \<Rightarrow> (fs, io_error, unit) prog" where
  "persist_noclobber staged p =
     syscall (\<lambda>s. if fs_files s p = None then (Inr (), s\<lparr>fs_files := (fs_files s)(p \<mapsto> staged)\<rparr>)
                  else (Inl FileExists, s))"

text \<open>The chunks of an open file: at each step the reader delivers some bytes or fails.\<close>

fun chunked :: "(string + nat) list \<Rightarrow> bytes \<Rightarrow> stream" where
  "chunked (Inl e # os) bs = [Inl e]"
| "chunked (Inr n # os) bs =
     (if bs = [] then [] else Inr (take (Suc n) bs) # chunked os (drop (Suc n) bs))"
| "chunked [] bs = (if bs = [] then [] else [Inr bs])"

definition reader_stream :: "bytes \<Rightarrow> (fs, string, stream) prog" where
  "reader_stream bs s = (case fs_streams s of [] \<Rightarrow> (Inr (chunked [] bs), s)
     | os # rest \<Rightarrow> (Inr (chunked os bs), s\<lparr>fs_streams := rest\<rparr>))"

section \<open>The store\<close>

record filesystem_store =
  fss_root :: fpath

definition io_message :: "io_error \<Rightarrow> string" where
  "io_message e = (case e of NotFound \<Rightarrow> ''not found'' | FileExists \<Rightarrow> ''file exists'' | OtherError m \<Rightarrow> m)"

definition FilesystemStore_new :: "fpath \<Rightarrow> (fs, string, filesystem_store) prog" where
  "FilesystemStore_new root =
     bindp (map_errp io_message fs_call) (\<lambda>_. ok \<lparr>fss_root = root\<rparr>)"

definition FilesystemStore_path :: "protocol \<Rightarrow> filesystem_store \<Rightarrow> digest \<Rightarrow> string + fpath" where
  "FilesystemStore_path P self d =
     bind_result (ensure (digest_validate P d) ''invalid digest'') (\<lambda>_.
     bind_result (algorithm_kind P d) (\<lambda>algorithm.
     Inr (fss_root self @ [''blobs'', algorithm_str P algorithm, take 2 (dg_hash d), dg_hash d,
                           show_u64 (dg_size d)])))"

definition FilesystemStore_get ::
  "protocol \<Rightarrow> filesystem_store \<Rightarrow> digest \<Rightarrow> (fs, string, blob option) prog" where
  "FilesystemStore_get P self d =
     bindp (liftr (FilesystemStore_path P self d)) (\<lambda>p. \<lambda>s.
       case fs_open p s of
         (Inl NotFound, t) \<Rightarrow> (Inr None, t)
       | (Inl e, t) \<Rightarrow> (Inl (io_message e), t)
       | (Inr bs, t) \<Rightarrow>
           bindp (map_errp io_message fs_call) (\<lambda>_.
           bindp (reader_stream bs) (\<lambda>stream.
             ok (Some \<lparr>bl_size = of_nat (length bs), bl_stream = stream\<rparr>))) t)"

definition FilesystemStore_put ::
  "protocol \<Rightarrow> filesystem_store \<Rightarrow> digest \<Rightarrow> bytes \<Rightarrow> (fs, string, put_outcome) prog" where
  "FilesystemStore_put P self d source =
     bindp (liftr (FilesystemStore_path P self d)) (\<lambda>destination.
     bindp (map_errp io_message (fs_try_exists destination)) (\<lambda>exists.
       if exists then ok PutAlreadyExists
       else
         bindp (map_errp io_message fs_call) (\<lambda>_.
         bindp (map_errp io_message fs_call) (\<lambda>_.
         bindp (map_errp io_message fs_call) (\<lambda>_. \<lambda>s.
           case persist_noclobber source destination s of
             (Inr _, t) \<Rightarrow> (Inr PutCreated, t)
           | (Inl FileExists, t) \<Rightarrow> (Inr PutAlreadyExists, t)
           | (Inl e, t) \<Rightarrow> (Inl (io_message e), t))))))"

definition filesystem_blob_store :: "protocol \<Rightarrow> filesystem_store \<Rightarrow> fs blob_store" where
  "filesystem_blob_store P self =
     \<lparr>bs_get = FilesystemStore_get P self, bs_put = FilesystemStore_put P self\<rparr>"

definition fs_content :: "protocol \<Rightarrow> filesystem_store \<Rightarrow> fs \<Rightarrow> digest \<Rightarrow> bytes option" where
  "fs_content P self s d =
     (case FilesystemStore_path P self d of Inl _ \<Rightarrow> None | Inr p \<Rightarrow> fs_files s p)"

definition fs_foreign :: "protocol \<Rightarrow> filesystem_store \<Rightarrow> fs \<Rightarrow> digest \<Rightarrow> bytes \<Rightarrow> bool" where
  "fs_foreign P self s d bs \<longleftrightarrow>
     (\<exists>p. FilesystemStore_path P self d = Inr p \<and> (p, bs) \<in> set (concat (fs_schedule s)))"

section \<open>Paths\<close>

text \<open>Digests that have a path have different ones: no two objects share a file.\<close>

lemma FilesystemStore_path_inj:
  assumes "digests_documented P"
    and "FilesystemStore_path P self d = Inr p" and "FilesystemStore_path P self e = Inr p"
  shows "d = e"
proof -
  from assms(2,3) obtain a b where ab: "algorithm_kind P d = Inr a" "algorithm_kind P e = Inr b"
    and eq: "algorithm_str P a = algorithm_str P b" "dg_hash d = dg_hash e" "dg_size d = dg_size e"
    by (auto simp: FilesystemStore_path_def result_simps)
  from assms(1) ab eq(1) have "dg_algorithm d = dg_algorithm e"
    by (auto simp: digests_documented_def)
  with eq show ?thesis by (cases d, cases e) auto
qed

lemma FilesystemStore_path_total:
  assumes "digests_documented P" and "digest_validate P d"
  shows "\<exists>p. FilesystemStore_path P self d = Inr p"
proof -
  obtain a where "algorithm_kind P d = Inr a" using algorithm_kind_valid [OF assms] by blast
  with assms(2) show ?thesis by (simp add: FilesystemStore_path_def ensure_def)
qed

section \<open>Files are only ever added\<close>

definition files_extend :: "(fpath \<times> bytes) set \<Rightarrow> fs \<Rightarrow> fs \<Rightarrow> bool" where
  "files_extend w s t \<longleftrightarrow>
     (\<forall>p bs. fs_files s p = Some bs \<longrightarrow> fs_files t p = Some bs) \<and>
     (\<forall>p bs. fs_files t p = Some bs \<longrightarrow>
        fs_files s p = Some bs \<or> (p, bs) \<in> set (concat (fs_schedule s)) \<or> (p, bs) \<in> w) \<and>
     set (concat (fs_schedule t)) \<subseteq> set (concat (fs_schedule s))"

lemma files_extend_refl [simp]: "files_extend w s s"
  by (simp add: files_extend_def)

lemma files_extend_trans:
  "files_extend v s t \<Longrightarrow> files_extend w t u \<Longrightarrow> files_extend (v \<union> w) s u"
  unfolding files_extend_def by blast

lemma files_extend_trans_same:
  "files_extend w s t \<Longrightarrow> files_extend w t u \<Longrightarrow> files_extend w s u"
  using files_extend_trans by fastforce

lemma files_extend_mono: "files_extend v s t \<Longrightarrow> v \<subseteq> w \<Longrightarrow> files_extend w s t"
  unfolding files_extend_def by blast

lemma fold_publish_Some:
  "files p = Some bs \<Longrightarrow> fold publish ws files p = Some bs"
proof (induction ws arbitrary: files)
  case (Cons w ws)
  from Cons.prems have "publish w files p = Some bs" by (auto simp: publish_def)
  with Cons.IH show ?case by simp
qed simp

lemma fold_publish_origin:
  "fold publish ws files p = Some bs \<Longrightarrow> files p = Some bs \<or> (p, bs) \<in> set ws"
proof (induction ws arbitrary: files)
  case (Cons w ws)
  from Cons.IH [of "publish w files"] Cons.prems
  have "publish w files p = Some bs \<or> (p, bs) \<in> set ws" by simp
  then show ?case by (cases w) (auto simp: publish_def split: if_splits)
qed simp

lemma files_extend_interfere: "files_extend w s (interfere s)"
  by (auto simp: files_extend_def interfere_def fold_publish_Some split: list.splits
      dest: fold_publish_origin)

lemma files_extend_syscall:
  assumes "\<And>u r v. m u = (r, v) \<Longrightarrow> files_extend w u v" and "syscall m s = (r, t)"
  shows "files_extend w s t"
proof -
  let ?i = "interfere s"
  obtain f where f: "m (?i\<lparr>fs_faults := f\<rparr>) = (r, t) \<or> t = ?i\<lparr>fs_faults := f\<rparr>"
    using assms(2) unfolding syscall_def Let_def
    by (auto split: list.splits option.splits) (metis fs.surjective fs.update_convs(3))+
  have "files_extend w ?i (?i\<lparr>fs_faults := f\<rparr>)" by (simp add: files_extend_def)
  with f assms(1) have "files_extend w ?i t" by (metis files_extend_trans_same)
  then show ?thesis by (rule files_extend_trans_same [OF files_extend_interfere])
qed

lemma files_extend_open: "fs_open p s = (r, t) \<Longrightarrow> files_extend w s t"
  unfolding fs_open_def by (erule files_extend_syscall [rotated]) auto

lemma files_extend_try_exists: "fs_try_exists p s = (r, t) \<Longrightarrow> files_extend w s t"
  unfolding fs_try_exists_def by (erule files_extend_syscall [rotated]) auto

lemma files_extend_call: "fs_call s = (r, t) \<Longrightarrow> files_extend w s t"
  unfolding fs_call_def by (erule files_extend_syscall [rotated]) (auto simp: ok_def)

lemma files_extend_persist:
  "persist_noclobber bs p s = (r, t) \<Longrightarrow> files_extend {(p, bs)} s t"
  unfolding persist_noclobber_def
  by (erule files_extend_syscall [rotated]) (auto simp: files_extend_def split: if_splits)

lemma files_extend_stream: "reader_stream bs s = (r, t) \<Longrightarrow> files_extend w s t"
  by (auto simp: reader_stream_def files_extend_def split: list.splits)

lemmas files_extend_calls =
  files_extend_open files_extend_try_exists files_extend_call files_extend_stream

section \<open>The store keeps its promise\<close>

lemma delivers_chunked: "delivers (chunked os bs) bs"
proof (induction os bs rule: chunked.induct)
  case (2 n os bs)
  have "take (min (length bs) (Suc n)) bs = take (Suc n) bs"
    and "drop (min (length bs) (Suc n)) bs = drop (Suc n) bs"
    by (simp_all add: min_def)
  with 2 show ?case by simp
qed auto

lemma files_extend_content:
  assumes "digests_documented P" and "files_extend w s t"
    and "\<And>p bs. (p, bs) \<in> w \<Longrightarrow> \<exists>d. FilesystemStore_path P self d = Inr p \<and> (d, bs) \<in> v"
  shows "extends (fs_content P self) (fs_foreign P self) v s t"
  unfolding extends_def
proof (intro conjI allI impI)
  fix d bs
  show "fs_content P self t d = Some bs" if "fs_content P self s d = Some bs"
    using that assms(2) by (auto simp: fs_content_def files_extend_def split: sum.splits)
  show "fs_foreign P self s d bs \<or> (d, bs) \<in> v" if "fs_foreign P self t d bs"
    using that assms(2) unfolding fs_foreign_def files_extend_def by blast
  assume "fs_content P self t d = Some bs"
  then obtain p where p: "FilesystemStore_path P self d = Inr p" "fs_files t p = Some bs"
    by (auto simp: fs_content_def split: sum.splits)
  with assms(2) consider "fs_files s p = Some bs" | "(p, bs) \<in> set (concat (fs_schedule s))" | "(p, bs) \<in> w"
    unfolding files_extend_def by blast
  then show "fs_content P self s d = Some bs \<or> fs_foreign P self s d bs \<or> (d, bs) \<in> v"
  proof cases
    case 1
    with p show ?thesis by (simp add: fs_content_def)
  next
    case 2
    with p show ?thesis unfolding fs_foreign_def by blast
  next
    case 3
    with assms(3) obtain d' where "FilesystemStore_path P self d' = Inr p" "(d', bs) \<in> v" by blast
    with FilesystemStore_path_inj [OF assms(1) p(1)] show ?thesis by blast
  qed
qed

lemma syscall_Inr_present:
  assumes "files_extend {} s t" and "fs_files s p = Some bs"
  shows "fs_files t p = Some bs"
  using assms by (simp add: files_extend_def)

lemma fs_open_present:
  assumes "fs_files s p = Some bs" and "fs_open p s = (r, t)"
  shows "r = Inr bs \<or> (\<exists>e. r = Inl (OtherError e))"
proof -
  have "fs_files (interfere s) p = Some bs"
    using files_extend_interfere [of "{}" s] assms(1) by (rule syscall_Inr_present)
  with assms(2) show ?thesis
    by (auto simp: fs_open_def syscall_def Let_def split: list.splits option.splits)
qed

lemma put_tail_extend:
  assumes "(case persist_noclobber src p s of
             (Inr _, t) \<Rightarrow> (Inr PutCreated, t)
           | (Inl FileExists, t) \<Rightarrow> (Inr PutAlreadyExists, t)
           | (Inl e, t) \<Rightarrow> (Inl (io_message e), t)) = (r, t)"
  shows "files_extend {(p, src)} s t \<and> (r = Inr PutCreated \<longrightarrow> fs_files t p = Some src) \<and>
    (r = Inr PutAlreadyExists \<longrightarrow> fs_files t p \<noteq> None)"
proof -
  obtain q u where pu: "persist_noclobber src p s = (q, u)" by force
  with assms have t: "t = u" by (auto split: sum.splits io_error.splits)
  have "fs_files u p = Some src" if "q = Inr ()"
    using pu that by (auto simp: persist_noclobber_def syscall_def Let_def split: list.splits option.splits if_splits)
  moreover have "fs_files u p \<noteq> None" if "q = Inl FileExists"
    using pu that by (auto simp: persist_noclobber_def syscall_def Let_def split: list.splits option.splits if_splits)
  ultimately show ?thesis
    using files_extend_persist [OF pu] assms pu t by (auto split: sum.splits io_error.splits)
qed

lemma fs_try_exists_True:
  "fs_try_exists p s = (Inr True, t) \<Longrightarrow> fs_files t p \<noteq> None"
  by (auto simp: fs_try_exists_def syscall_def Let_def split: list.splits option.splits)

text \<open>A program adds at most the given files to what other processes publish.\<close>

definition adds :: "(fpath \<times> bytes) set \<Rightarrow> (fs, 'e, 'a) prog \<Rightarrow> bool" where
  "adds w m \<longleftrightarrow> (\<forall>s r t. m s = (r, t) \<longrightarrow> files_extend w s t)"

named_theorems adds_intros \<open>programs that only add the given files\<close>

lemma adds_basic [adds_intros]:
  "adds w (ok x)" "adds w (throw e)" "adds w (liftr r)" "adds w (fs_try_exists p)" "adds w fs_call"
  "adds w (reader_stream bs)" "adds w (fs_open p)"
  by (auto simp: adds_def prog_simps dest: files_extend_calls)

lemma adds_bindp [adds_intros]: "adds w m \<Longrightarrow> (\<And>x. adds w (f x)) \<Longrightarrow> adds w (bindp m f)"
  unfolding adds_def bindp_def
  by (auto split: prod.splits sum.splits) (meson files_extend_trans_same)

lemma adds_map_errp [adds_intros]: "adds w m \<Longrightarrow> adds w (map_errp f m)"
  by (auto simp: adds_def map_errp_def split: prod.splits)

lemma adds_if [adds_intros]: "adds w m \<Longrightarrow> adds w n \<Longrightarrow> adds w (if b then m else n)"
  by simp

lemma adds_persist [adds_intros]:
  "adds {(p, src)} (\<lambda>s. case persist_noclobber src p s of
             (Inr _, t) \<Rightarrow> (Inr PutCreated, t)
           | (Inl FileExists, t) \<Rightarrow> (Inr PutAlreadyExists, t)
           | (Inl e, t) \<Rightarrow> (Inl (io_message e), t))"
  unfolding adds_def using put_tail_extend by blast

lemma adds_open [adds_intros]:
  assumes "\<And>bs. adds w (f bs)"
  shows "adds w (\<lambda>s. case fs_open p s of
             (Inl NotFound, t) \<Rightarrow> (Inr None, t)
           | (Inl e, t) \<Rightarrow> (Inl (io_message e), t)
           | (Inr bs, t) \<Rightarrow> f bs t)"
  unfolding adds_def
proof (intro allI impI)
  fix s r t
  assume run: "(case fs_open p s of
             (Inl NotFound, t) \<Rightarrow> (Inr None, t)
           | (Inl e, t) \<Rightarrow> (Inl (io_message e), t)
           | (Inr bs, t) \<Rightarrow> f bs t) = (r, t)"
  obtain q u where op: "fs_open p s = (q, u)" by force
  note ext = files_extend_open [OF op, of w]
  from run op assms have "t = u \<or> files_extend w u t"
    by (auto simp: adds_def split: sum.splits io_error.splits)
  with ext show "files_extend w s t" by (auto intro: files_extend_trans_same)
qed

lemma get_adds: "FilesystemStore_path P self d = Inr p \<Longrightarrow> adds {} (FilesystemStore_get P self d)"
  unfolding FilesystemStore_get_def by (intro adds_intros)

lemma put_adds:
  assumes "FilesystemStore_path P self d = Inr p"
  shows "adds {(p, src)} (FilesystemStore_put P self d src)"
proof -
  have "bindp (liftr (Inr p)) f = f p" for f :: "fpath \<Rightarrow> (fs, string, put_outcome) prog"
    by (simp add: bindp_def liftr_def fun_eq_iff)
  with assms show ?thesis
    unfolding FilesystemStore_put_def by (simp only:) (intro adds_intros)
qed

lemma no_path_fails:
  assumes "FilesystemStore_path P self d = Inl e"
  shows "FilesystemStore_get P self d s = (Inl e, s)" "FilesystemStore_put P self d src s = (Inl e, s)"
  using assms by (simp_all add: FilesystemStore_get_def FilesystemStore_put_def liftr_def bindp_def)

lemma put_result:
  assumes "FilesystemStore_path P self d = Inr p" and "FilesystemStore_put P self d src s = (Inr out, t)"
  shows "(out = PutCreated \<longrightarrow> fs_files t p = Some src) \<and> fs_files t p \<noteq> None"
proof -
  from assms consider u where "fs_try_exists p s = (Inr True, u)" "out = PutAlreadyExists" "t = u"
    | u where "(case persist_noclobber src p u of
             (Inr _, t) \<Rightarrow> (Inr PutCreated, t)
           | (Inl FileExists, t) \<Rightarrow> (Inr PutAlreadyExists, t)
           | (Inl e, t) \<Rightarrow> (Inl (io_message e), t)) = (Inr out, t)"
    by (auto simp: FilesystemStore_put_def prog_simps split: if_splits)
  then show ?thesis
  proof cases
    case 1
    then show ?thesis using fs_try_exists_True by simp
  next
    case 2
    from put_tail_extend [OF 2] show ?thesis by (cases out) auto
  qed
qed

lemma get_result:
  assumes "FilesystemStore_path P self d = Inr p" and "fs_files s p = Some bs"
    and "FilesystemStore_get P self d s = (Inr b, t)"
  shows "\<exists>blob. b = Some blob \<and> bl_size blob = of_nat (length bs) \<and> delivers (bl_stream blob) bs"
proof -
  obtain q u where op: "fs_open p s = (q, u)" by force
  with fs_open_present [OF assms(2)] assms(1,3) have "q = Inr bs"
    by (auto simp: FilesystemStore_get_def prog_simps)
  with op assms(1,3) obtain v st w where "reader_stream bs v = (Inr st, w)"
    and "b = Some \<lparr>bl_size = of_nat (length bs), bl_stream = st\<rparr>"
    by (auto simp: FilesystemStore_get_def prog_simps)
  then show ?thesis by (auto simp: reader_stream_def delivers_chunked split: list.splits)
qed

text \<open>The laws of the interface, for every protocol whose digests are as documented.\<close>

lemma filesystem_laws:
  assumes "digests_documented P"
  shows "blob_store_laws (filesystem_blob_store P self) (fs_content P self) (fs_foreign P self) (\<lambda>_ _. True)"
proof
  fix d :: digest and s t :: fs and src bs :: bytes and r :: "string + blob option"
    and q :: "string + put_outcome" and b :: "blob option"
  show "extends (fs_content P self) (fs_foreign P self) {} s t"
    if "bs_get (filesystem_blob_store P self) d s = (r, t)"
  proof (cases "FilesystemStore_path P self d")
    case (Inr p)
    with get_adds that have "files_extend {} s t" by (auto simp: adds_def filesystem_blob_store_def)
    then show ?thesis by (rule files_extend_content [OF assms]) simp
  qed (use that in \<open>simp add: filesystem_blob_store_def no_path_fails\<close>)
  show "extends (fs_content P self) (fs_foreign P self) {(d, src)} s t"
    if "bs_put (filesystem_blob_store P self) d src s = (q, t)"
  proof (cases "FilesystemStore_path P self d")
    case (Inr p)
    with put_adds [of P self d p src] that have "files_extend {(p, src)} s t"
      by (auto simp: adds_def filesystem_blob_store_def)
    then show ?thesis by (rule files_extend_content [OF assms]) (use Inr in auto)
  qed (use that in \<open>simp add: filesystem_blob_store_def no_path_fails\<close>)
  show "\<exists>blob. b = Some blob \<and> bl_size blob = of_nat (length bs) \<and> delivers (bl_stream blob) bs"
    if "fs_content P self s d = Some bs" "bs_get (filesystem_blob_store P self) d s = (Inr b, t)"
    using that get_result
    by (auto simp: fs_content_def filesystem_blob_store_def split: sum.splits)
  show "fs_content P self t d = Some src"
    if "bs_put (filesystem_blob_store P self) d src s = (Inr PutCreated, t)"
    using that put_result [of P self d _ src s PutCreated t] no_path_fails(2) [of P self d _ src s]
    by (cases "FilesystemStore_path P self d") (auto simp: fs_content_def filesystem_blob_store_def)
  show "fs_content P self t d \<noteq> None"
    if "bs_put (filesystem_blob_store P self) d src s = (Inr PutAlreadyExists, t)"
    using that put_result [of P self d _ src s PutAlreadyExists t] no_path_fails(2) [of P self d _ src s]
    by (cases "FilesystemStore_path P self d") (auto simp: fs_content_def filesystem_blob_store_def)
qed

interpretation fss: blob_store_laws
  "filesystem_blob_store reference_protocol self" "fs_content reference_protocol self"
  "fs_foreign reference_protocol self" "\<lambda>_ _. True"
  by (rule filesystem_laws [OF reference_protocol_documented(1)])

text \<open>Without faults every call succeeds.\<close>

lemma fs_faults_interfere [simp]: "fs_faults (interfere s) = fs_faults s"
  by (simp add: interfere_def split: list.splits)

lemma syscall_no_fault: "fs_faults s = [] \<Longrightarrow> syscall m s = m (interfere s)"
  by (simp add: syscall_def)

lemma fs_call_no_fault: "fs_faults s = [] \<Longrightarrow> \<exists>t. fs_call s = (Inr (), t) \<and> fs_faults t = []"
  by (simp add: fs_call_def syscall_no_fault ok_def)

lemma put_total:
  assumes "FilesystemStore_path P self d = Inr p" and "fs_faults s = []"
  shows "\<exists>out t. FilesystemStore_put P self d src s = (Inr out, t)"
proof -
  have te: "\<exists>b t. fs_try_exists p s = (Inr b, t) \<and> fs_faults t = []"
    using assms(2) by (simp add: fs_try_exists_def syscall_no_fault)
  then obtain b t where t: "fs_try_exists p s = (Inr b, t)" "fs_faults t = []" by blast
  obtain u v w where "fs_call t = (Inr (), u)" "fs_call u = (Inr (), v)" "fs_call v = (Inr (), w)"
    and w: "fs_faults w = []"
    using t fs_call_no_fault by blast
  moreover have "\<exists>r x. persist_noclobber src p w = (r, x) \<and> (r = Inr () \<or> r = Inl FileExists)"
    using w by (simp add: persist_noclobber_def syscall_no_fault)
  ultimately show ?thesis
    using assms(1) t by (fastforce simp: FilesystemStore_put_def bindp_def liftr_def map_errp_def ok_def)
qed

lemma get_total:
  assumes "FilesystemStore_path P self d = Inr p" and "fs_faults s = []"
  shows "\<exists>b t. FilesystemStore_get P self d s = (Inr b, t)"
proof -
  obtain r t where t: "fs_open p s = (r, t)" "fs_faults t = []"
    and r: "r = Inl NotFound \<or> (\<exists>bs. r = Inr bs)"
    using assms(2) by (auto simp: fs_open_def syscall_no_fault split: option.splits)
  obtain u where u: "fs_call t = (Inr (), u)"
    using fs_call_no_fault [OF t(2)] by blast
  from r show ?thesis
  proof
    assume "r = Inl NotFound"
    with t assms(1) show ?thesis by (simp add: FilesystemStore_get_def liftr_def)
  next
    assume "\<exists>bs. r = Inr bs"
    then obtain bs where bs: "r = Inr bs" by blast
    obtain st v where "reader_stream bs u = (Inr st, v)"
      by (cases "fs_streams u") (simp_all add: reader_stream_def)
    with bs t u assms(1) show ?thesis
      by (simp add: FilesystemStore_get_def liftr_def map_errp_def ok_def)
  qed
qed

section \<open>What a put does among other writers\<close>

text \<open>
  From \<open>s\<close> to \<open>t\<close> only the other processes have acted: they have published \<open>ws\<close>, the part of their
  schedule that was due at the calls in between.
\<close>

definition others_ran :: "(fpath \<times> bytes) list list \<Rightarrow> fs \<Rightarrow> fs \<Rightarrow> bool" where
  "others_ran ws s t \<longleftrightarrow>
     fs_schedule s = ws @ fs_schedule t \<and> fs_files t = fold publish (concat ws) (fs_files s)"

lemma others_ran_trans: "others_ran vs s t \<Longrightarrow> others_ran ws t u \<Longrightarrow> others_ran (vs @ ws) s u"
  by (simp add: others_ran_def)

lemma others_ran_interfere: "\<exists>ws. others_ran ws s (interfere s)"
proof (cases "fs_schedule s")
  case Nil
  then have "others_ran [] s (interfere s)" by (simp add: others_ran_def interfere_def)
  then show ?thesis ..
next
  case (Cons ws rest)
  then have "others_ran [ws] s (interfere s)" by (simp add: others_ran_def interfere_def)
  then show ?thesis ..
qed

text \<open>A call does its work, if it does, right after the other processes.\<close>

lemma syscall_cases:
  assumes "syscall m s = (r, t)"
  obtains (fault) ws e where "others_ran ws s t" "r = Inl (OtherError e)"
    | (work) ws u where "others_ran ws s u" "m u = (r, t)"
proof -
  obtain ws where ws: "others_ran ws s (interfere s)" using others_ran_interfere by blast
  then have past: "others_ran ws s ((interfere s)\<lparr>fs_faults := f\<rparr>)" for f by (simp add: others_ran_def)
  from assms consider "m (interfere s) = (r, t)" | f where "m ((interfere s)\<lparr>fs_faults := f\<rparr>) = (r, t)"
    | e f where "r = Inl (OtherError e)" "t = (interfere s)\<lparr>fs_faults := f\<rparr>"
    by (auto simp: syscall_def Let_def split: list.splits option.splits)
  then show thesis by cases (use ws past fault work in blast)+
qed

lemma others_ran_call: "fs_call s = (r, t) \<Longrightarrow> \<exists>ws. others_ran ws s t"
  unfolding fs_call_def by (erule syscall_cases) (auto simp: ok_def)

lemma others_ran_try_exists:
  assumes "fs_try_exists p s = (r, t)"
  shows "\<exists>ws. others_ran ws s t \<and> (\<forall>b. r = Inr b \<longrightarrow> b = (fs_files t p \<noteq> None))"
  using assms unfolding fs_try_exists_def by (rule syscall_cases) auto

lemma others_ran_persist:
  assumes "persist_noclobber src p s = (r, t)"
  shows "\<exists>ws u. others_ran ws s u \<and> fs_schedule t = fs_schedule u \<and>
    fs_files t = (if r = Inr () then (fs_files u)(p \<mapsto> src) else fs_files u) \<and>
    (r = Inr () \<longrightarrow> fs_files u p = None) \<and> (r = Inl FileExists \<longrightarrow> fs_files u p \<noteq> None)"
  using assms unfolding persist_noclobber_def
proof (rule syscall_cases, goal_cases)
  case (1 ws e)
  then show ?case by auto
next
  case (2 ws u)
  then show ?case by (intro exI [of _ ws] exI [of _ u]) (auto split: if_splits)
qed

lemma put_exact:
  assumes "FilesystemStore_path P self d = Inr p" and "FilesystemStore_put P self d src s = (Inr out, t)"
  shows "\<exists>ws. fs_schedule s = ws @ fs_schedule t \<and>
    (let others = fold publish (concat ws) (fs_files s) in
       fs_files t = (if out = PutCreated then others(p \<mapsto> src) else others) \<and> (out = PutCreated \<longleftrightarrow> others p = None))"
proof -
  from assms obtain b u where u: "fs_try_exists p s = (Inr b, u)"
    by (auto simp: FilesystemStore_put_def prog_simps split: if_splits)
  obtain vs where vs: "others_ran vs s u" "b = (fs_files u p \<noteq> None)" using others_ran_try_exists [OF u] by blast
  show ?thesis
  proof (cases b)
    case True
    with assms u have "out = PutAlreadyExists" "t = u"
      by (auto simp: FilesystemStore_put_def prog_simps split: if_splits)
    with vs True show ?thesis unfolding others_ran_def Let_def by (intro exI [of _ vs]) auto
  next
    case False
    with assms u obtain x y z where calls: "fs_call u = (Inr (), x)" "fs_call x = (Inr (), y)" "fs_call y = (Inr (), z)"
      and tail: "(case persist_noclobber src p z of
             (Inr _, t) \<Rightarrow> (Inr PutCreated, t)
           | (Inl FileExists, t) \<Rightarrow> (Inr PutAlreadyExists, t)
           | (Inl e, t) \<Rightarrow> (Inl (io_message e), t)) = (Inr out, t)"
      by (auto simp: FilesystemStore_put_def prog_simps)
    obtain q t' where "persist_noclobber src p z = (q, t')" by (rule prod.exhaust)
    with tail have q: "persist_noclobber src p z = (q, t)" "q = (if out = PutCreated then Inr () else Inl FileExists)"
      by (auto split: sum.splits io_error.splits)
    obtain ws where "others_ran ws s z"
      using vs(1) calls [THEN others_ran_call] others_ran_trans by metis
    moreover obtain xs v where "others_ran xs z v" and v: "fs_schedule t = fs_schedule v"
      "fs_files t = (if q = Inr () then (fs_files v)(p \<mapsto> src) else fs_files v)"
      "q = Inr () \<longrightarrow> fs_files v p = None" "q = Inl FileExists \<longrightarrow> fs_files v p \<noteq> None"
      using others_ran_persist [OF q(1)] by blast
    ultimately have "others_ran (ws @ xs) s v" by (blast intro: others_ran_trans)
    with v q(2) show ?thesis
      unfolding others_ran_def Let_def by (intro exI [of _ "ws @ xs"]) (cases out; auto)
  qed
qed

section \<open>Properties\<close>

text \<open>
  C28. What the filesystem store has created under a digest is exactly what a later get of that
  digest delivers, whatever calls for any digests come in between, whichever of them fail, and
  whatever other processes publish meanwhile; without a fault the get does return it.
\<close>

theorem filesystem_round_trip:
  assumes "digests_documented P"
    and "FilesystemStore_put P self d src s = (Inr PutCreated, t)"
    and "(store_step (filesystem_blob_store P self) (\<lambda>_ _. True))\<^sup>*\<^sup>* t u"
  shows "(\<forall>b v. FilesystemStore_get P self d u = (Inr b, v) \<longrightarrow>
      (\<exists>blob. b = Some blob \<and> bl_size blob = of_nat (length src) \<and> delivers (bl_stream blob) src)) \<and>
    (fs_faults u = [] \<longrightarrow> (\<exists>b v. FilesystemStore_get P self d u = (Inr b, v)))"
proof -
  obtain p where p: "FilesystemStore_path P self d = Inr p"
    using assms(2) no_path_fails(2) by (cases "FilesystemStore_path P self d") fastforce+
  have put: "bs_put (filesystem_blob_store P self) d src s = (Inr PutCreated, t)"
    using assms(2) by (simp add: filesystem_blob_store_def)
  show ?thesis
    using blob_store_laws.get_after_put [OF filesystem_laws [OF assms(1)] TrueI put assms(3)]
      get_total [OF p, of u]
    by (auto simp: filesystem_blob_store_def)
qed

definition example_store :: filesystem_store where
  "example_store = \<lparr>fss_root = [''data'']\<rparr>"

definition example_digest :: digest where
  "example_digest = \<lparr>dg_algorithm = ''blake3'', dg_hash = replicate 64 (CHR ''a''), dg_size = 2\<rparr>"

definition example_fs :: fs where
  "example_fs = \<lparr>fs_files = Map.empty, fs_schedule = [[([''data'', ''other''], [7])]], fs_faults = [],
                 fs_streams = [[Inr 0]]\<rparr>"

lemma example_path:
  "FilesystemStore_path reference_protocol example_store example_digest =
     Inr [''data'', ''blobs'', ''blake3'', ''aa'', replicate 64 (CHR ''a''), ''2'']"
  by code_simp

lemma example_put:
  "\<exists>t. FilesystemStore_put reference_protocol example_store example_digest [1, 2] example_fs =
     (Inr PutCreated, t) \<and> fs_faults t = []"
  by (simp add: FilesystemStore_put_def example_path liftr_def bindp_def map_errp_def ok_def
      fs_try_exists_def fs_call_def persist_noclobber_def syscall_def interfere_def publish_def example_fs_def)

theorem filesystem_round_trip_witness:
  "\<exists>t v blob. FilesystemStore_put reference_protocol example_store example_digest [1, 2] example_fs
      = (Inr PutCreated, t) \<and>
    FilesystemStore_get reference_protocol example_store example_digest t = (Inr (Some blob), v) \<and>
    delivers (bl_stream blob) [1, 2]"
  using example_put
    filesystem_round_trip [OF reference_protocol_documented(1) _ rtranclp.rtrancl_refl,
      of example_store example_digest "[1, 2]" example_fs]
  by fastforce

text \<open>
  C29. Storing a valid digest without a fault returns an outcome, and the outcome is honest under
  concurrent writers. Compare the files afterwards with those the other processes, as far as they
  ran during the call, would have left on their own: the call reports that it created the object
  exactly when they left none, and then it has added its bytes there and nothing else; otherwise it
  has changed nothing, and what another process published, before the call or during it, is kept.
\<close>

theorem filesystem_put_outcome:
  assumes "digests_documented P" and "digest_validate P d" and "fs_faults s = []"
  shows "\<exists>p out t ws. FilesystemStore_path P self d = Inr p \<and> FilesystemStore_put P self d src s = (Inr out, t) \<and>
    fs_schedule s = ws @ fs_schedule t \<and>
    (let others = fold publish (concat ws) (fs_files s) in
       fs_files t = (if out = PutCreated then others(p \<mapsto> src) else others) \<and> (out = PutCreated \<longleftrightarrow> others p = None))"
proof -
  obtain p where p: "FilesystemStore_path P self d = Inr p"
    using FilesystemStore_path_total [OF assms(1,2)] by blast
  then obtain out t where put: "FilesystemStore_put P self d src s = (Inr out, t)"
    using put_total [OF p assms(3)] by blast
  from put_exact [OF p put] p put show ?thesis by blast
qed

text \<open>Another process publishes the object after the store has seen that there is none.\<close>

definition race_fs :: fs where
  "race_fs = \<lparr>fs_files = Map.empty,
     fs_schedule = [[], [], [([''data'', ''blobs'', ''blake3'', ''aa'', replicate 64 (CHR ''a''), ''2''], [7])]],
     fs_faults = [], fs_streams = []\<rparr>"

theorem filesystem_put_outcome_witness:
  "\<exists>t. FilesystemStore_put reference_protocol example_store example_digest [1, 2] race_fs = (Inr PutAlreadyExists, t) \<and>
     fs_content reference_protocol example_store t example_digest = Some [7]"
proof -
  let ?put = "FilesystemStore_put reference_protocol example_store example_digest [1, 2] race_fs"
  have "digest_validate reference_protocol example_digest" by code_simp
  moreover have "fs_faults race_fs = []" by (simp add: race_fs_def)
  ultimately obtain p out t ws where run: "?put = (Inr out, t)" and p: "FilesystemStore_path reference_protocol example_store example_digest = Inr p"
    and ws: "fs_schedule race_fs = ws @ fs_schedule t" and others: "let others = fold publish (concat ws) (fs_files race_fs) in
       fs_files t = (if out = PutCreated then others(p \<mapsto> [1, 2]) else others) \<and> (out = PutCreated \<longleftrightarrow> others p = None)"
    using filesystem_put_outcome [OF reference_protocol_documented(1), of example_digest race_fs example_store "[1, 2]"]
    by blast
  have "fs_schedule (snd ?put) = []" by code_simp
  with run ws have ws: "ws = fs_schedule race_fs" by simp
  have "fold publish (concat ws) (fs_files race_fs) p = Some [7]"
    using p unfolding ws example_path by (auto simp: race_fs_def publish_def)
  with others have "out \<noteq> PutCreated" "fs_files t p = Some [7]" by (auto simp: Let_def split: if_splits)
  with run p show ?thesis by (cases out) (auto simp: fs_content_def)
qed

end
