(* ===== verification/Metadata.thy ===== *)
theory Metadata
  imports Storage
begin

text \<open>
  \<^verbatim>\<open>src/metadata/mod.rs\<close>: the metadata interface. The trait object is the record
  \<open>metadata_store\<close> of its operations over a store state; its provided methods are the
  \<open>default_\<close> definitions. The locale \<open>metadata_store_laws\<close> states the contract through an
  abstract view of a store: which blobs a namespace holds, its immutable action results and
  its versioned manifests.
\<close>

section \<open>Data\<close>

datatype commit_outcome = CommitCreated | CommitAlreadyExists | CommitConflict

record manifest_record =
  mr_etag :: string
  mr_manifest :: task_action_manifest

record sweep_outcome =
  so_blobs :: u64
  so_action_results :: u64
  so_manifests :: u64

definition SweepOutcome_default :: sweep_outcome where
  "SweepOutcome_default = \<lparr>so_blobs = 0, so_action_results = 0, so_manifests = 0\<rparr>"

datatype manifest_commit_outcome = ManifestCreated | ManifestUpdated | ManifestPreconditionFailed

record 'm metadata_store =
  ms_visible_blobs :: "string \<Rightarrow> digest list \<Rightarrow> ('m, string, digest list) prog"
  ms_blob_visible :: "string \<Rightarrow> digest \<Rightarrow> ('m, string, bool) prog"
  ms_register_blob :: "string \<Rightarrow> digest \<Rightarrow> put_outcome \<Rightarrow> ('m, string, unit) prog"
  ms_touch_blobs :: "string \<Rightarrow> digest list \<Rightarrow> ('m, string, unit) prog"
  ms_get :: "string \<Rightarrow> digest \<Rightarrow> ('m, string, action_result option) prog"
  ms_get_batch :: "string \<Rightarrow> digest list \<Rightarrow> ('m, string, action_result list) prog"
  ms_commit :: "string \<Rightarrow> digest \<Rightarrow> action_result \<Rightarrow> ('m, string, commit_outcome) prog"
  ms_get_manifest :: "string \<Rightarrow> digest \<Rightarrow> ('m, string, manifest_record option) prog"
  ms_commit_manifest :: "string \<Rightarrow> digest \<Rightarrow> string option \<Rightarrow> string \<Rightarrow> task_action_manifest
     \<Rightarrow> ('m, string, manifest_commit_outcome) prog"
  ms_sweep :: "u32 \<Rightarrow> ('m, string, sweep_outcome) prog"

section \<open>Provided methods\<close>

definition default_blob_visible ::
  "(string \<Rightarrow> digest list \<Rightarrow> ('m, string, digest list) prog) \<Rightarrow> string \<Rightarrow> digest \<Rightarrow> ('m, string, bool) prog" where
  "default_blob_visible visible_blobs ns d = bindp (visible_blobs ns [d]) (\<lambda>v. ok (v \<noteq> []))"

definition default_touch_blobs :: "string \<Rightarrow> digest list \<Rightarrow> ('m, string, unit) prog" where
  "default_touch_blobs ns ds = ok ()"

fun default_get_batch ::
  "(string \<Rightarrow> digest \<Rightarrow> ('m, string, action_result option) prog) \<Rightarrow> string \<Rightarrow> digest list
     \<Rightarrow> ('m, string, action_result list) prog" where
  "default_get_batch get ns [] = ok []"
| "default_get_batch get ns (a # as) =
     bindp (get ns a) (\<lambda>found.
     bindp (default_get_batch get ns as) (\<lambda>results.
       ok (case found of None \<Rightarrow> results | Some r \<Rightarrow> r # results)))"

definition default_sweep :: "u32 \<Rightarrow> ('m, string, sweep_outcome) prog" where
  "default_sweep older_than_days = ok SweepOutcome_default"

section \<open>The contract\<close>

record meta_view =
  v_blobs :: "(string \<times> digest) set"
  v_results :: "string \<times> digest \<Rightarrow> action_result option"
  v_manifests :: "string \<times> digest \<Rightarrow> (string \<times> task_action_manifest) option"

definition empty_view :: meta_view where
  "empty_view = \<lparr>v_blobs = {}, v_results = Map.empty, v_manifests = Map.empty\<rparr>"

definition spec_register :: "string \<Rightarrow> digest \<Rightarrow> meta_view \<Rightarrow> meta_view" where
  "spec_register ns d v = v\<lparr>v_blobs := insert (ns, d) (v_blobs v)\<rparr>"

text \<open>An action result is written once and never replaced.\<close>

definition spec_commit ::
  "string \<Rightarrow> digest \<Rightarrow> action_result \<Rightarrow> meta_view \<Rightarrow> commit_outcome \<times> meta_view" where
  "spec_commit ns a r v =
     (case v_results v (ns, a) of
        None \<Rightarrow> (CommitCreated, v\<lparr>v_results := (v_results v)((ns, a) \<mapsto> r)\<rparr>)
      | Some r' \<Rightarrow> (if r' = r then CommitAlreadyExists else CommitConflict, v))"

text \<open>A manifest is replaced only by a writer that names the version it replaces.\<close>

definition spec_commit_manifest ::
  "string \<Rightarrow> digest \<Rightarrow> string option \<Rightarrow> string \<Rightarrow> task_action_manifest \<Rightarrow> meta_view
     \<Rightarrow> manifest_commit_outcome \<times> meta_view" where
  "spec_commit_manifest ns k expected etag m v =
     (if map_option fst (v_manifests v (ns, k)) = expected
      then (if expected = None then ManifestCreated else ManifestUpdated,
            v\<lparr>v_manifests := (v_manifests v)((ns, k) \<mapsto> (etag, m))\<rparr>)
      else (ManifestPreconditionFailed, v))"

definition view_shrinks :: "meta_view \<Rightarrow> meta_view \<Rightarrow> bool" where
  "view_shrinks v w \<longleftrightarrow>
     v_blobs w \<subseteq> v_blobs v \<and> v_results w \<subseteq>\<^sub>m v_results v \<and> v_manifests w \<subseteq>\<^sub>m v_manifests v"

text \<open>
  A successful call has exactly the effect and the result the view gives; a failed call has
  had that effect or none. \<open>inv\<close> is the back end's own invariant.
\<close>

locale metadata_store_laws =
  fixes store :: "'m metadata_store"
    and view :: "'m \<Rightarrow> meta_view"
    and inv :: "'m \<Rightarrow> bool"
  assumes visible_blobs: "inv s \<Longrightarrow> ms_visible_blobs store ns ds s = (r1, t) \<Longrightarrow>
      inv t \<and> view t = view s \<and>
      (\<forall>vs. r1 = Inr vs \<longrightarrow> vs = filter (\<lambda>d. (ns, d) \<in> v_blobs (view s)) ds)"
    and blob_visible: "inv s \<Longrightarrow> ms_blob_visible store ns d s = (r2, t) \<Longrightarrow>
      inv t \<and> view t = view s \<and> (\<forall>b. r2 = Inr b \<longrightarrow> b = ((ns, d) \<in> v_blobs (view s)))"
    and register_blob: "inv s \<Longrightarrow> ms_register_blob store ns d stored s = (r3, t) \<Longrightarrow>
      inv t \<and> (r3 = Inr () \<longrightarrow> view t = spec_register ns d (view s)) \<and>
      (view t = view s \<or> view t = spec_register ns d (view s))"
    and touch_blobs: "inv s \<Longrightarrow> ms_touch_blobs store ns ds s = (r3, t) \<Longrightarrow> inv t \<and> view t = view s"
    and get: "inv s \<Longrightarrow> ms_get store ns a s = (r4, t) \<Longrightarrow>
      inv t \<and> view t = view s \<and> (\<forall>x. r4 = Inr x \<longrightarrow> x = v_results (view s) (ns, a))"
    and get_batch: "inv s \<Longrightarrow> ms_get_batch store ns ds s = (r5, t) \<Longrightarrow>
      inv t \<and> view t = view s \<and>
      (\<forall>rs. r5 = Inr rs \<longrightarrow> rs = List.map_filter (\<lambda>a. v_results (view s) (ns, a)) ds)"
    and commit: "inv s \<Longrightarrow> ms_commit store ns a res s = (r6, t) \<Longrightarrow>
      inv t \<and> (\<forall>out. r6 = Inr out \<longrightarrow> spec_commit ns a res (view s) = (out, view t)) \<and>
      (view t = view s \<or> view t = snd (spec_commit ns a res (view s)))"
    and get_manifest: "inv s \<Longrightarrow> ms_get_manifest store ns k s = (r7, t) \<Longrightarrow>
      inv t \<and> view t = view s \<and>
      (\<forall>x. r7 = Inr x \<longrightarrow>
         map_option (\<lambda>r. (mr_etag r, mr_manifest r)) x = v_manifests (view s) (ns, k))"
    and commit_manifest: "inv s \<Longrightarrow> ms_commit_manifest store ns k expected etag m s = (r8, t) \<Longrightarrow>
      inv t \<and> (\<forall>out. r8 = Inr out \<longrightarrow> spec_commit_manifest ns k expected etag m (view s) = (out, view t)) \<and>
      (view t = view s \<or> view t = snd (spec_commit_manifest ns k expected etag m (view s)))"
    and sweep: "inv s \<Longrightarrow> ms_sweep store days s = (r9, t) \<Longrightarrow> inv t \<and> view_shrinks (view s) (view t)"

section \<open>Histories of calls\<close>

text \<open>
  One call of any client of the store; a history is a sequence of calls in the order the
  store serves them, so it covers every interleaving of concurrent requests. Sweeping is
  a separate step: only it removes anything.
\<close>

inductive plain_step :: "'m metadata_store \<Rightarrow> 'm \<Rightarrow> 'm \<Rightarrow> bool" for store where
  visible_call: "ms_visible_blobs store ns ds s = (r1, t) \<Longrightarrow> plain_step store s t"
| blob_visible_call: "ms_blob_visible store ns d s = (r2, t) \<Longrightarrow> plain_step store s t"
| register_call: "ms_register_blob store ns d stored s = (r3, t) \<Longrightarrow> plain_step store s t"
| touch_call: "ms_touch_blobs store ns ds s = (r3, t) \<Longrightarrow> plain_step store s t"
| get_call: "ms_get store ns a s = (r4, t) \<Longrightarrow> plain_step store s t"
| get_batch_call: "ms_get_batch store ns ds s = (r5, t) \<Longrightarrow> plain_step store s t"
| commit_call: "ms_commit store ns a res s = (r6, t) \<Longrightarrow> plain_step store s t"
| get_manifest_call: "ms_get_manifest store ns k s = (r7, t) \<Longrightarrow> plain_step store s t"

inductive meta_step :: "'m metadata_store \<Rightarrow> 'm \<Rightarrow> 'm \<Rightarrow> bool" for store where
  plain: "plain_step store s t \<Longrightarrow> meta_step store s t"
| commit_manifest_call: "ms_commit_manifest store ns k expected etag m s = (r8, t) \<Longrightarrow> meta_step store s t"

text \<open>
  The commits of one manifest in a history of calls, oldest first: the tag each successful
  writer expected and the tag it stored. Between them come refused commits of the same
  manifest and any other calls. A commit whose answer was an error is not part of such a
  history: it may or may not have taken effect.
\<close>

inductive manifest_history ::
  "'m metadata_store \<Rightarrow> string \<Rightarrow> digest \<Rightarrow> 'm \<Rightarrow> (string option \<times> string) list \<Rightarrow> 'm \<Rightarrow> bool"
  for store ns k where
  none: "manifest_history store ns k s [] s"
| won: "ms_commit_manifest store ns k e etag m s = (Inr out, t) \<Longrightarrow> out \<noteq> ManifestPreconditionFailed \<Longrightarrow>
    manifest_history store ns k t log u \<Longrightarrow> manifest_history store ns k s ((e, etag) # log) u"
| lost: "ms_commit_manifest store ns k e etag m s = (Inr ManifestPreconditionFailed, t) \<Longrightarrow>
    manifest_history store ns k t log u \<Longrightarrow> manifest_history store ns k s log u"
| elsewhere: "ms_commit_manifest store ns' k' e etag m s = (r, t) \<Longrightarrow> (ns', k') \<noteq> (ns, k) \<Longrightarrow>
    manifest_history store ns k t log u \<Longrightarrow> manifest_history store ns k s log u"
| other: "plain_step store s t \<Longrightarrow>
    manifest_history store ns k t log u \<Longrightarrow> manifest_history store ns k s log u"

text \<open>Each writer replaces exactly what the writer before it stored.\<close>

fun chained :: "string option \<Rightarrow> (string option \<times> string) list \<Rightarrow> bool" where
  "chained current [] \<longleftrightarrow> True"
| "chained current ((expected, etag) # log) \<longleftrightarrow> expected = current \<and> chained (Some etag) log"

text \<open>What one call may do to the view.\<close>

definition view_grows :: "meta_view \<Rightarrow> meta_view \<Rightarrow> bool" where
  "view_grows v w \<longleftrightarrow>
     v_blobs v \<subseteq> v_blobs w \<and> v_results v \<subseteq>\<^sub>m v_results w \<and> dom (v_manifests v) \<subseteq> dom (v_manifests w)"

lemma view_grows_refl [simp]: "view_grows v v"
  by (simp add: view_grows_def)

lemma view_grows_trans: "view_grows u v \<Longrightarrow> view_grows v w \<Longrightarrow> view_grows u w"
  unfolding view_grows_def by (blast intro: map_le_trans)

lemma spec_grows:
  "view_grows v (spec_register ns d v)"
  "view_grows v (snd (spec_commit ns a r v))"
  "view_grows v (snd (spec_commit_manifest ns k expected etag m v))"
  by (auto simp: view_grows_def spec_register_def spec_commit_def spec_commit_manifest_def map_le_def
      split: option.splits)

lemma spec_manifests:
  "v_manifests (spec_register ns d v) = v_manifests v"
  "v_manifests (snd (spec_commit ns a r v)) = v_manifests v"
  "(ns', k') \<noteq> (ns, k) \<Longrightarrow>
     v_manifests (snd (spec_commit_manifest ns' k' expected etag m v)) (ns, k) = v_manifests v (ns, k)"
  by (auto simp: spec_register_def spec_commit_def spec_commit_manifest_def split: option.splits)

lemma spec_commit_manifest_won:
  "spec_commit_manifest ns k e etag m v = (out, w) \<Longrightarrow> out \<noteq> ManifestPreconditionFailed \<Longrightarrow>
     map_option fst (v_manifests v (ns, k)) = e \<and> v_manifests w (ns, k) = Some (etag, m)"
  by (auto simp: spec_commit_manifest_def split: if_splits)

lemma spec_commit_manifest_lost:
  "spec_commit_manifest ns k e etag m v = (ManifestPreconditionFailed, w) \<Longrightarrow> w = v"
  by (auto simp: spec_commit_manifest_def split: if_splits)

lemma spec_commit_result:
  "spec_commit ns a r v = (out, w) \<Longrightarrow> out \<noteq> CommitConflict \<Longrightarrow> v_results w (ns, a) = Some r"
  by (auto simp: spec_commit_def split: option.splits if_splits)

context metadata_store_laws
begin

lemma plain_step_grows:
  assumes "plain_step store s t" and "inv s"
  shows "inv t \<and> view_grows (view s) (view t) \<and> v_manifests (view t) = v_manifests (view s)"
  using assms(1)
proof cases
  case (visible_call ns ds r1)
  with visible_blobs [OF assms(2)] show ?thesis by simp
next
  case (blob_visible_call ns d r2)
  with blob_visible [OF assms(2)] show ?thesis by simp
next
  case (register_call ns d stored r3)
  with register_blob [OF assms(2)] show ?thesis by (metis spec_grows(1) view_grows_refl spec_manifests(1))
next
  case (touch_call ns ds r3)
  with touch_blobs [OF assms(2)] show ?thesis by simp
next
  case (get_call ns a r4)
  with get [OF assms(2)] show ?thesis by simp
next
  case (get_batch_call ns ds r5)
  with get_batch [OF assms(2)] show ?thesis by simp
next
  case (commit_call ns a res r6)
  with commit [OF assms(2)] show ?thesis by (metis spec_grows(2) view_grows_refl spec_manifests(2))
next
  case (get_manifest_call ns k r7)
  with get_manifest [OF assms(2)] show ?thesis by simp
qed

lemma meta_step_grows:
  assumes "meta_step store s t" and "inv s"
  shows "inv t \<and> view_grows (view s) (view t)"
  using assms(1)
proof cases
  case plain
  with plain_step_grows assms(2) show ?thesis by blast
next
  case (commit_manifest_call ns k expected etag m r8)
  with commit_manifest [OF assms(2)] show ?thesis by (metis spec_grows(3) view_grows_refl)
qed

lemma meta_steps_grow:
  "(meta_step store)\<^sup>*\<^sup>* s t \<Longrightarrow> inv s \<Longrightarrow> inv t \<and> view_grows (view s) (view t)"
  by (induction rule: rtranclp_induct) (auto dest: meta_step_grows intro: view_grows_trans)

text \<open>
  Immutability: once a result has been committed, or seen, every later lookup returns that
  result, and every later commit of a different one is a conflict.
\<close>

lemma committed_result_stays:
  assumes "inv s" and "ms_commit store ns a res s = (Inr out, t)" and "out \<noteq> CommitConflict"
    and "(meta_step store)\<^sup>*\<^sup>* t u"
  shows "ms_get store ns a u = (Inr x, w) \<Longrightarrow> x = Some res"
    and "ms_commit store ns a res' u = (Inr out', w') \<Longrightarrow>
      out' = (if res' = res then CommitAlreadyExists else CommitConflict)"
proof -
  have "inv t" and c: "spec_commit ns a res (view s) = (out, view t)"
    using commit [OF assms(1,2)] by auto
  from spec_commit_result [OF c assms(3)] have "v_results (view t) (ns, a) = Some res" .
  moreover from meta_steps_grow [OF assms(4) \<open>inv t\<close>]
  have "inv u" and "v_results (view t) \<subseteq>\<^sub>m v_results (view u)" by (auto simp: view_grows_def)
  ultimately have u: "v_results (view u) (ns, a) = Some res"
    by (metis domI map_le_def)
  show "x = Some res" if "ms_get store ns a u = (Inr x, w)"
    using get [OF \<open>inv u\<close> that] u by simp
  have "fst (spec_commit ns a res' (view u)) = (if res' = res then CommitAlreadyExists else CommitConflict)"
    using u by (simp add: spec_commit_def)
  then show "out' = (if res' = res then CommitAlreadyExists else CommitConflict)"
    if "ms_commit store ns a res' u = (Inr out', w')"
    using commit [OF \<open>inv u\<close> that] by (metis fst_conv)
qed

text \<open>
  Optimistic concurrency: in any history the successful writers of a manifest form a
  chain, each replacing the version it named; none overwrites a version it did not see.
\<close>

lemma manifest_history_chained:
  "manifest_history store ns k s log t \<Longrightarrow> inv s \<Longrightarrow>
     chained (map_option fst (v_manifests (view s) (ns, k))) log \<and>
     map_option fst (v_manifests (view t) (ns, k)) =
       (if log = [] then map_option fst (v_manifests (view s) (ns, k)) else Some (snd (last log)))"
proof (induction rule: manifest_history.induct)
  case (won e etag m s out t log u)
  with commit_manifest [OF won.prems won.hyps(1)] have "inv t"
    and c: "spec_commit_manifest ns k e etag m (view s) = (out, view t)" by auto
  from spec_commit_manifest_won [OF c won.hyps(2)] won.IH [OF \<open>inv t\<close>] show ?case by auto
next
  case (lost e etag m s t log u)
  with commit_manifest [OF lost.prems lost.hyps(1)] have "inv t"
    and c: "spec_commit_manifest ns k e etag m (view s) = (ManifestPreconditionFailed, view t)" by auto
  from spec_commit_manifest_lost [OF c] lost.IH [OF \<open>inv t\<close>] show ?case by simp
next
  case (elsewhere ns' k' e etag m s r t log u)
  from commit_manifest [OF elsewhere.prems elsewhere.hyps(1)] have "inv t"
    and "view t = view s \<or> view t = snd (spec_commit_manifest ns' k' e etag m (view s))" by auto
  then have "v_manifests (view t) (ns, k) = v_manifests (view s) (ns, k)"
    using spec_manifests(3) [OF elsewhere.hyps(2)] by auto
  with elsewhere.IH [OF \<open>inv t\<close>] show ?case by simp
next
  case (other s t log u)
  from plain_step_grows [OF other.hyps(1) other.prems] other.IH show ?case by auto
qed simp

end

end
