(* ===== verification/Memory.thy ===== *)
theory Memory
  imports Metadata
begin

text \<open>
  \<^verbatim>\<open>src/metadata/memory.rs\<close>: metadata in process memory, and the proof that it keeps the
  metadata contract. Each operation holds one lock for its whole body, so it is one atomic
  step. A lock is poisoned only by a panic of a thread that holds it, and no body can panic,
  so the \<^verbatim>\<open>expect\<close> calls on the locks never fire. Action results are stored in the encoding
  of the serialisation library, a parameter.
\<close>

section \<open>The encoding\<close>

record result_codec =
  result_to_vec :: "action_result \<Rightarrow> string + bytes"
  result_from_slice :: "bytes \<Rightarrow> string + action_result"

text \<open>Decoding gives back what was encoded.\<close>

definition codec_documented :: "result_codec \<Rightarrow> bool" where
  "codec_documented C \<longleftrightarrow> (\<forall>r b. result_to_vec C r = Inr b \<longrightarrow> result_from_slice C b = Inr r)"

lemma codec_inj:
  "codec_documented C \<Longrightarrow> result_to_vec C r = Inr b \<Longrightarrow> result_to_vec C r' = Inr b \<Longrightarrow> r' = r"
  unfolding codec_documented_def by (metis sum.inject(2))

section \<open>State and operations\<close>

record memory_metadata =
  mm_entries :: "string \<times> digest \<Rightarrow> bytes option"
  mm_blobs :: "(string \<times> digest) set"
  mm_manifests :: "string \<times> digest \<Rightarrow> (string \<times> task_action_manifest) option"

definition MemoryMetadata_default :: memory_metadata where
  "MemoryMetadata_default = \<lparr>mm_entries = Map.empty, mm_blobs = {}, mm_manifests = Map.empty\<rparr>"

definition memory_visible_blobs ::
  "string \<Rightarrow> digest list \<Rightarrow> (memory_metadata, string, digest list) prog" where
  "memory_visible_blobs ns ds s = (Inr (filter (\<lambda>d. (ns, d) \<in> mm_blobs s) ds), s)"

definition memory_register_blob ::
  "string \<Rightarrow> digest \<Rightarrow> put_outcome \<Rightarrow> (memory_metadata, string, unit) prog" where
  "memory_register_blob ns d stored s = (Inr (), s\<lparr>mm_blobs := insert (ns, d) (mm_blobs s)\<rparr>)"

definition memory_get ::
  "result_codec \<Rightarrow> string \<Rightarrow> digest \<Rightarrow> (memory_metadata, string, action_result option) prog" where
  "memory_get C ns a s =
     (case mm_entries s (ns, a) of
        None \<Rightarrow> (Inr None, s)
      | Some b \<Rightarrow> (bind_result (result_from_slice C b) (\<lambda>r. Inr (Some r)), s))"

definition memory_commit ::
  "result_codec \<Rightarrow> string \<Rightarrow> digest \<Rightarrow> action_result \<Rightarrow> (memory_metadata, string, commit_outcome) prog" where
  "memory_commit C ns a res =
     bindp (liftr (result_to_vec C res)) (\<lambda>encoded. \<lambda>s.
       case mm_entries s (ns, a) of
         None \<Rightarrow> (Inr CommitCreated, s\<lparr>mm_entries := (mm_entries s)((ns, a) \<mapsto> encoded)\<rparr>)
       | Some existing \<Rightarrow>
           (Inr (if existing = encoded then CommitAlreadyExists else CommitConflict), s))"

definition memory_get_manifest ::
  "string \<Rightarrow> digest \<Rightarrow> (memory_metadata, string, manifest_record option) prog" where
  "memory_get_manifest ns k s =
     (Inr (map_option (\<lambda>(etag, m). \<lparr>mr_etag = etag, mr_manifest = m\<rparr>) (mm_manifests s (ns, k))), s)"

definition memory_commit_manifest ::
  "string \<Rightarrow> digest \<Rightarrow> string option \<Rightarrow> string \<Rightarrow> task_action_manifest
     \<Rightarrow> (memory_metadata, string, manifest_commit_outcome) prog" where
  "memory_commit_manifest ns k expected_etag etag m s =
     (let entry = mm_manifests s (ns, k);
          matches = (case (entry, expected_etag) of
                       (None, None) \<Rightarrow> True
                     | (Some (current, _), Some expected) \<Rightarrow> current = expected
                     | _ \<Rightarrow> False)
      in if \<not> matches then (Inr ManifestPreconditionFailed, s)
         else (Inr (if entry \<noteq> None then ManifestUpdated else ManifestCreated),
               s\<lparr>mm_manifests := (mm_manifests s)((ns, k) \<mapsto> (etag, m))\<rparr>))"

text \<open>The implementation of the trait, with the provided methods it does not override.\<close>

definition memory_metadata_store :: "result_codec \<Rightarrow> memory_metadata metadata_store" where
  "memory_metadata_store C =
     \<lparr>ms_visible_blobs = memory_visible_blobs,
      ms_blob_visible = default_blob_visible memory_visible_blobs,
      ms_register_blob = memory_register_blob,
      ms_touch_blobs = default_touch_blobs,
      ms_get = memory_get C,
      ms_get_batch = default_get_batch (memory_get C),
      ms_commit = memory_commit C,
      ms_get_manifest = memory_get_manifest,
      ms_commit_manifest = memory_commit_manifest,
      ms_sweep = default_sweep\<rparr>"

section \<open>The contract holds\<close>

definition memory_view :: "result_codec \<Rightarrow> memory_metadata \<Rightarrow> meta_view" where
  "memory_view C s =
     \<lparr>v_blobs = mm_blobs s,
      v_results = (\<lambda>k. case mm_entries s k of None \<Rightarrow> None
                       | Some b \<Rightarrow> (case result_from_slice C b of Inl _ \<Rightarrow> None | Inr r \<Rightarrow> Some r)),
      v_manifests = mm_manifests s\<rparr>"

definition memory_inv :: "result_codec \<Rightarrow> memory_metadata \<Rightarrow> bool" where
  "memory_inv C s \<longleftrightarrow> (\<forall>k b. mm_entries s k = Some b \<longrightarrow> (\<exists>r. result_to_vec C r = Inr b))"

lemma memory_inv_entry:
  assumes "codec_documented C" and "memory_inv C s" and "mm_entries s k = Some b"
  obtains r where "result_to_vec C r = Inr b" "result_from_slice C b = Inr r"
    "v_results (memory_view C s) k = Some r"
proof -
  from assms(2,3) obtain r where r: "result_to_vec C r = Inr b" unfolding memory_inv_def by blast
  with assms(1) have "result_from_slice C b = Inr r" by (simp add: codec_documented_def)
  with r assms(3) that show ?thesis by (simp add: memory_view_def)
qed

lemma memory_get_correct:
  assumes "codec_documented C" and "memory_inv C s"
  shows "memory_get C ns a s = (Inr (v_results (memory_view C s) (ns, a)), s)"
proof (cases "mm_entries s (ns, a)")
  case (Some b)
  then obtain r where "result_from_slice C b = Inr r" "v_results (memory_view C s) (ns, a) = Some r"
    using memory_inv_entry [OF assms] by blast
  with Some show ?thesis by (simp add: memory_get_def)
qed (simp add: memory_get_def memory_view_def)

lemma memory_get_batch_correct:
  assumes "codec_documented C" and "memory_inv C s"
  shows "default_get_batch (memory_get C) ns as s =
    (Inr (List.map_filter (\<lambda>a. v_results (memory_view C s) (ns, a)) as), s)"
  by (induction as)
    (simp_all add: memory_get_correct [OF assms] bindp_def ok_def map_filter_simps split: option.splits)

lemma memory_commit_correct:
  assumes "codec_documented C" and "memory_inv C s" and "memory_commit C ns a res s = (r, t)"
  shows "memory_inv C t \<and> (\<forall>out. r = Inr out \<longrightarrow> spec_commit ns a res (memory_view C s) = (out, memory_view C t)) \<and>
    (memory_view C t = memory_view C s \<or> memory_view C t = snd (spec_commit ns a res (memory_view C s)))"
proof (cases "result_to_vec C res")
  case (Inl e)
  with assms(2,3) show ?thesis by (auto simp: memory_commit_def liftr_def)
next
  case (Inr encoded)
  note dec = Inr [THEN assms(1) [unfolded codec_documented_def, rule_format]]
  show ?thesis
  proof (cases "mm_entries s (ns, a)")
    case None
    with Inr assms(3) have rt: "r = Inr CommitCreated"
      "t = s\<lparr>mm_entries := (mm_entries s)((ns, a) \<mapsto> encoded)\<rparr>"
      by (auto simp: memory_commit_def liftr_def)
    have "memory_inv C t" using assms(2) Inr rt by (auto simp: memory_inv_def)
    moreover have "spec_commit ns a res (memory_view C s) = (CommitCreated, memory_view C t)"
      using None rt dec by (auto simp: spec_commit_def memory_view_def fun_eq_iff)
    ultimately show ?thesis using rt by simp
  next
    case (Some existing)
    obtain r0 where r0: "result_to_vec C r0 = Inr existing" "v_results (memory_view C s) (ns, a) = Some r0"
      using memory_inv_entry [OF assms(1,2) Some] by blast
    have "existing = encoded \<longleftrightarrow> r0 = res"
      using r0(1) Inr codec_inj [OF assms(1)] by auto
    with Some Inr assms(2,3) r0 show ?thesis
      by (auto simp: memory_commit_def liftr_def spec_commit_def)
  qed
qed

lemma memory_commit_manifest_correct:
  assumes "memory_commit_manifest ns k expected etag m s = (r, t)"
  shows "mm_entries t = mm_entries s \<and>
    (\<forall>out. r = Inr out \<longrightarrow> spec_commit_manifest ns k expected etag m (memory_view C s) = (out, memory_view C t)) \<and>
    (memory_view C t = memory_view C s \<or>
     memory_view C t = snd (spec_commit_manifest ns k expected etag m (memory_view C s)))"
proof -
  have "(case (mm_manifests s (ns, k), expected) of
          (None, None) \<Rightarrow> True | (Some (current, _), Some e) \<Rightarrow> current = e | _ \<Rightarrow> False) \<longleftrightarrow>
      map_option fst (mm_manifests s (ns, k)) = expected"
    by (auto split: option.splits)
  then have step: "memory_commit_manifest ns k expected etag m s =
      (if map_option fst (mm_manifests s (ns, k)) = expected
       then (Inr (if expected = None then ManifestCreated else ManifestUpdated),
             s\<lparr>mm_manifests := (mm_manifests s)((ns, k) \<mapsto> (etag, m))\<rparr>)
       else (Inr ManifestPreconditionFailed, s))"
    by (auto simp: memory_commit_manifest_def Let_def)
  have fst_view: "v_manifests (memory_view C s) = mm_manifests s" by (simp add: memory_view_def)
  show ?thesis
  proof (cases "map_option fst (mm_manifests s (ns, k)) = expected")
    case True
    with step assms have rt: "r = Inr (if expected = None then ManifestCreated else ManifestUpdated)"
      "t = s\<lparr>mm_manifests := (mm_manifests s)((ns, k) \<mapsto> (etag, m))\<rparr>" by auto
    then have "memory_view C t = (memory_view C s)\<lparr>v_manifests := (mm_manifests s)((ns, k) \<mapsto> (etag, m))\<rparr>"
      by (simp add: memory_view_def)
    with rt True show ?thesis by (simp add: spec_commit_manifest_def fst_view)
  next
    case False
    with step assms show ?thesis by (auto simp: spec_commit_manifest_def fst_view)
  qed
qed

lemma memory_laws:
  assumes "codec_documented C"
  shows "metadata_store_laws (memory_metadata_store C) (memory_view C) (memory_inv C)"
proof (unfold_locales, goal_cases)
  case (1 s ns ds r1 t)
  then show ?case by (auto simp: memory_metadata_store_def memory_visible_blobs_def memory_view_def)
next
  case (2 s ns d r2 t)
  then show ?case
    by (auto simp: memory_metadata_store_def default_blob_visible_def memory_visible_blobs_def bindp_def
        ok_def memory_view_def split: if_splits)
next
  case (3 s ns d stored r3 t)
  then show ?case
    by (auto simp: memory_metadata_store_def memory_register_blob_def memory_view_def spec_register_def
        memory_inv_def)
next
  case (4 s ns ds r3 t)
  then show ?case by (auto simp: memory_metadata_store_def default_touch_blobs_def ok_def)
next
  case (5 s ns a r4 t)
  then show ?case using memory_get_correct [OF assms] by (auto simp: memory_metadata_store_def)
next
  case (6 s ns ds r5 t)
  then show ?case using memory_get_batch_correct [OF assms] by (auto simp: memory_metadata_store_def)
next
  case (7 s ns a res r6 t)
  then show ?case using memory_commit_correct [OF assms] by (simp add: memory_metadata_store_def)
next
  case (8 s ns k r7 t)
  then show ?case
    by (cases "mm_manifests s (ns, k)")
      (auto simp: memory_metadata_store_def memory_get_manifest_def memory_view_def)
next
  case (9 s ns k expected etag m r8 t)
  then show ?case
    using memory_commit_manifest_correct [of ns k expected etag m s r8 t C]
    by (simp add: memory_metadata_store_def memory_inv_def)
next
  case (10 s days r9 t)
  then show ?case by (auto simp: memory_metadata_store_def default_sweep_def ok_def view_shrinks_def)
qed

section \<open>An encoding for the witnesses\<close>

text \<open>Fields as netstrings, one after the other; it serves the witnesses only.\<close>

definition print_field :: "string \<Rightarrow> string" where
  "print_field s = show_nat (length s) @ '':'' @ s"

definition take_field :: "string \<Rightarrow> (string \<times> string) option" where
  "take_field s =
     Option.bind (split_once (CHR '':'') s) (\<lambda>(n, rest).
     Option.bind (digits_value 0 n) (\<lambda>k. if k \<le> length rest then Some (take k rest, drop k rest) else None))"

lemma take_put_field [simp]: "take_field (print_field s @ rest) = Some (s, rest)"
proof -
  have "CHR '':'' \<notin> set (show_nat (length s))"
    using show_nat_digits [of "CHR '':''" "length s"] by (auto simp: is_ascii_digit_def)
  then have "split_once (CHR '':'') (print_field s @ rest) = Some (show_nat (length s), s @ rest)"
    by (simp add: split_once_Some_iff print_field_def)
  then show ?thesis by (simp add: take_field_def digits_value_show_nat)
qed

definition print_digest :: "digest \<Rightarrow> string" where
  "print_digest d = print_field (dg_algorithm d) @ print_field (dg_hash d) @ print_field (show_u64 (dg_size d))"

definition take_digest :: "string \<Rightarrow> (digest \<times> string) option" where
  "take_digest s =
     Option.bind (take_field s) (\<lambda>(a, s). Option.bind (take_field s) (\<lambda>(h, s).
     Option.bind (take_field s) (\<lambda>(n, s). Option.bind (parse_u64 n) (\<lambda>w.
       Some (\<lparr>dg_algorithm = a, dg_hash = h, dg_size = w\<rparr>, s)))))"

lemma take_put_digest [simp]: "take_digest (print_digest d @ rest) = Some (d, rest)"
  by (simp add: take_digest_def print_digest_def parse_show_u64)

fun print_digest_option :: "digest option \<Rightarrow> string" where
  "print_digest_option None = print_field ''n''"
| "print_digest_option (Some d) = print_field ''s'' @ print_digest d"

definition take_digest_option :: "string \<Rightarrow> (digest option \<times> string) option" where
  "take_digest_option s =
     Option.bind (take_field s) (\<lambda>(tag, s).
       if tag = ''n'' then Some (None, s)
       else map_option (\<lambda>(d, s). (Some d, s)) (take_digest s))"

lemma take_print_digest_option [simp]:
  "take_digest_option (print_digest_option d @ rest) = Some (d, rest)"
  by (cases d) (simp_all add: take_digest_option_def)

definition print_action_result :: "action_result \<Rightarrow> string" where
  "print_action_result r =
     print_field (show_nat (unat (ar_version r))) @ print_digest (ar_action r) @
     print_digest_option (ar_metadata r) @ print_digest_option (ar_output_root r)"

definition take_action_result :: "string \<Rightarrow> (action_result \<times> string) option" where
  "take_action_result s =
     Option.bind (take_field s) (\<lambda>(v, s). Option.bind (digits_value 0 v) (\<lambda>n.
     Option.bind (take_digest s) (\<lambda>(a, s). Option.bind (take_digest_option s) (\<lambda>(m, s).
     Option.bind (take_digest_option s) (\<lambda>(out, s).
       Some (\<lparr>ar_version = of_nat n, ar_action = a, ar_metadata = m, ar_output_root = out\<rparr>, s))))))"

lemma take_put_action_result [simp]:
  "take_action_result (print_action_result r @ rest) = Some (r, rest)"
  by (simp add: take_action_result_def print_action_result_def digits_value_show_nat)

definition as_string :: "bytes \<Rightarrow> string" where
  "as_string bs = map (\<lambda>b. char_of (unat b)) bs"

lemma as_string_as_bytes [simp]: "as_string (as_bytes s) = s"
  by (simp add: as_string_def as_bytes_def unat_of_char_u8 comp_def)

definition reference_codec :: result_codec where
  "reference_codec =
     \<lparr>result_to_vec = (\<lambda>r. Inr (as_bytes (print_action_result r))),
      result_from_slice = (\<lambda>bs. case take_action_result (as_string bs) of
         Some (r, []) \<Rightarrow> Inr r | _ \<Rightarrow> Inl ''invalid'')\<rparr>"

lemma reference_codec_documented: "codec_documented reference_codec"
  using take_put_action_result [where rest = "[]"]
  by (auto simp: codec_documented_def reference_codec_def)

interpretation mm: metadata_store_laws
  "memory_metadata_store reference_codec" "memory_view reference_codec" "memory_inv reference_codec"
  by (rule memory_laws [OF reference_codec_documented])

section \<open>Properties\<close>

text \<open>
  Action results are immutable: after a commit that was not refused, whatever calls other
  clients make in between, every lookup returns the committed result, a commit of the same
  result reports that it exists, and a commit of a different one is a conflict.
\<close>

theorem action_results_immutable:
  assumes "codec_documented C" and "memory_inv C s"
    and "memory_commit C ns a res s = (Inr out, t)" and "out \<noteq> CommitConflict"
    and "(meta_step (memory_metadata_store C))\<^sup>*\<^sup>* t u"
  shows "memory_get C ns a u = (Inr (Some res), u) \<and>
    fst (memory_commit C ns a res u) = Inr CommitAlreadyExists \<and>
    (\<forall>res' out' w. memory_commit C ns a res' u = (Inr out', w) \<longrightarrow> res' \<noteq> res \<longrightarrow> out' = CommitConflict)"
proof -
  note laws = memory_laws [OF assms(1)]
  have c: "ms_commit (memory_metadata_store C) ns a res s = (Inr out, t)"
    using assms(3) by (simp add: memory_metadata_store_def)
  note stays = metadata_store_laws.committed_result_stays [OF laws assms(2) c assms(4,5)]
  have "memory_inv C t" using metadata_store_laws.commit [OF laws assms(2) c] by blast
  then have inv: "memory_inv C u" using metadata_store_laws.meta_steps_grow [OF laws assms(5)] by blast
  note get = memory_get_correct [OF assms(1) inv, of ns a]
  obtain enc where "result_to_vec C res = Inr enc"
    using assms(3) by (cases "result_to_vec C res") (auto simp: memory_commit_def liftr_def)
  then obtain out' w where again: "memory_commit C ns a res u = (Inr out', w)"
    by (cases "mm_entries u (ns, a)") (auto simp: memory_commit_def liftr_def)
  show ?thesis
    using stays(1) [of _ u] stays(2) get again
    by (auto simp: memory_metadata_store_def) (metis (full_types))+
qed

definition example_result :: action_result where
  "example_result =
     \<lparr>ar_version = 1, ar_action = \<lparr>dg_algorithm = ''blake3'', dg_hash = ''00'', dg_size = 3\<rparr>,
      ar_metadata = None, ar_output_root = None\<rparr>"

theorem action_results_immutable_witness:
  "\<exists>t. memory_commit reference_codec ''team'' (ar_action example_result) example_result MemoryMetadata_default
        = (Inr CommitCreated, t) \<and>
      memory_get reference_codec ''team'' (ar_action example_result) t = (Inr (Some example_result), t)"
proof -
  have inv: "memory_inv reference_codec MemoryMetadata_default"
    by (simp add: memory_inv_def MemoryMetadata_default_def)
  obtain t where t: "memory_commit reference_codec ''team'' (ar_action example_result) example_result
      MemoryMetadata_default = (Inr CommitCreated, t)"
    by (auto simp: memory_commit_def reference_codec_def liftr_def bindp_def MemoryMetadata_default_def)
  from action_results_immutable [OF reference_codec_documented inv t _ rtranclp.rtrancl_refl] t
  show ?thesis by blast
qed

text \<open>
  C30. No lost updates: in any history of concurrent calls the successful writers of a manifest
  form a chain in which each replaces exactly the version stored by the one before it (the
  first one the version that was there), and the final tag is the last writer's.
\<close>

theorem manifest_updates_chained:
  assumes "codec_documented C" and "memory_inv C s"
    and "manifest_history (memory_metadata_store C) ns k s log t"
  shows "chained (map_option fst (mm_manifests s (ns, k))) log \<and>
    map_option fst (mm_manifests t (ns, k)) =
      (if log = [] then map_option fst (mm_manifests s (ns, k)) else Some (snd (last log)))"
  using metadata_store_laws.manifest_history_chained [OF memory_laws [OF assms(1)] assms(3,2)]
  by (simp add: memory_view_def)

definition example_manifest :: task_action_manifest where
  "example_manifest = \<lparr>tm_version = 1, tm_task = ''build'', tm_predictions = []\<rparr>"

theorem manifest_updates_chained_witness:
  "\<exists>t. manifest_history (memory_metadata_store reference_codec) ''team'' (ar_action example_result)
        MemoryMetadata_default [(None, ''e1''), (Some ''e1'', ''e2'')] t \<and>
      map_option fst (mm_manifests t (''team'', ar_action example_result)) = Some ''e2''"
proof -
  let ?k = "ar_action example_result" and ?c = "memory_commit_manifest ''team''"
  let ?M = "memory_metadata_store reference_codec"
  define s1 where "s1 = snd (?c ?k None ''e1'' example_manifest MemoryMetadata_default)"
  define s2 where "s2 = snd (?c ?k (Some ''e1'') ''e2'' example_manifest s1)"
  have c1: "ms_commit_manifest ?M ''team'' ?k None ''e1'' example_manifest MemoryMetadata_default
      = (Inr ManifestCreated, s1)"
    and lost: "ms_commit_manifest ?M ''team'' ?k None ''e3'' example_manifest s1
      = (Inr ManifestPreconditionFailed, s1)"
    and c2: "ms_commit_manifest ?M ''team'' ?k (Some ''e1'') ''e2'' example_manifest s1
      = (Inr ManifestUpdated, s2)"
    by (simp_all add: s1_def s2_def memory_metadata_store_def memory_commit_manifest_def
        MemoryMetadata_default_def)
  have "manifest_history ?M ''team'' ?k MemoryMetadata_default [(None, ''e1''), (Some ''e1'', ''e2'')] s2"
    by (rule manifest_history.won [OF c1], simp, rule manifest_history.lost [OF lost],
        rule manifest_history.won [OF c2], simp, rule manifest_history.none)
  moreover have "memory_inv reference_codec MemoryMetadata_default"
    by (simp add: memory_inv_def MemoryMetadata_default_def)
  ultimately show ?thesis
    using manifest_updates_chained [OF reference_codec_documented] by fastforce
qed

end
