(* ===== verification/Metrics.thy ===== *)
theory Metrics
  imports Prelude
begin

text \<open>
  \<^verbatim>\<open>src/metrics.rs\<close>: what the service reports to its metrics registry, and the guard that
  follows one blob-pack response stream. The registry belongs to another crate; the model
  keeps the calls made on its handles, in order, and the totals below are sums over those
  calls. A duration is a number of milliseconds, the unit of the clock of theory \<^verbatim>\<open>Oidc\<close>; the caller reads the clock.
\<close>

section \<open>Handles and calls\<close>

text \<open>The handles of the struct \<^verbatim>\<open>Metrics\<close>.\<close>

datatype handle =
    blob_hits | blob_uploads | blob_pack_uploads
  | action_hits | action_batches | action_misses | action_commits
  | pack_requests | pack_in_flight | pack_blobs_family | pack_bytes
  | pack_duration | pack_time_to_first_byte | pack_metadata_query_duration
  | pack_storage_gets | pack_storage_get_duration

type_synonym label = string
type_synonym duration = nat

text \<open>A handle without labels is called with the empty label.\<close>

datatype metric_call =
    IncBy handle label u64
  | GaugeInc handle
  | GaugeDec handle
  | Observe handle label duration

type_synonym metrics = "metric_call list"

definition Metrics_new :: metrics where
  "Metrics_new = []"

section \<open>Operations\<close>

definition inc_blob_hit :: "metrics \<Rightarrow> metrics" where
  "inc_blob_hit ms = ms @ [IncBy blob_hits [] 1]"

definition inc_blob_upload :: "metrics \<Rightarrow> metrics" where
  "inc_blob_upload ms = ms @ [IncBy blob_uploads [] 1]"

definition inc_action_batch :: "u64 \<Rightarrow> u64 \<Rightarrow> metrics \<Rightarrow> metrics" where
  "inc_action_batch hits misses ms =
     ms @ [IncBy action_batches [] 1, IncBy action_hits [] hits, IncBy action_misses [] misses]"

definition inc_blob_pack_upload :: "u64 \<Rightarrow> metrics \<Rightarrow> metrics" where
  "inc_blob_pack_upload blobs ms =
     ms @ [IncBy blob_pack_uploads [] 1, IncBy pack_blobs_family ''uploaded'' blobs]"

definition inc_action_hit :: "metrics \<Rightarrow> metrics" where
  "inc_action_hit ms = ms @ [IncBy action_hits [] 1]"

definition inc_action_miss :: "metrics \<Rightarrow> metrics" where
  "inc_action_miss ms = ms @ [IncBy action_misses [] 1]"

definition inc_action_commit :: "metrics \<Rightarrow> metrics" where
  "inc_action_commit ms = ms @ [IncBy action_commits [] 1]"

definition observe_pack_metadata_query :: "string \<Rightarrow> duration \<Rightarrow> metrics \<Rightarrow> metrics" where
  "observe_pack_metadata_query outcome d ms = ms @ [Observe pack_metadata_query_duration outcome d]"

definition observe_pack_storage_get :: "string \<Rightarrow> duration \<Rightarrow> metrics \<Rightarrow> metrics" where
  "observe_pack_storage_get outcome d ms =
     ms @ [IncBy pack_storage_gets outcome 1, Observe pack_storage_get_duration outcome d]"

text \<open>
  \<^verbatim>\<open>PackGuard\<close>. Its methods share the registry with every other request, so they take the
  calls made so far and return them extended; \<open>clock\<close> is the time the method reads.
\<close>

record pack_guard =
  pg_started :: duration
  pg_finished :: bool
  pg_first_byte_recorded :: bool

definition start_pack :: "duration \<Rightarrow> u64 \<Rightarrow> u64 \<Rightarrow> u64 \<Rightarrow> metrics \<Rightarrow> pack_guard \<times> metrics" where
  "start_pack started requested_blobs requested_bytes missing_blobs ms =
     (\<lparr>pg_started = started, pg_finished = False, pg_first_byte_recorded = False\<rparr>,
      ms @ [GaugeInc pack_in_flight,
            IncBy pack_blobs_family ''requested'' requested_blobs,
            IncBy pack_blobs_family ''missing'' missing_blobs,
            IncBy pack_bytes ''requested'' requested_bytes])"

definition record_first_byte :: "duration \<Rightarrow> pack_guard \<Rightarrow> metrics \<Rightarrow> pack_guard \<times> metrics" where
  "record_first_byte clock g ms =
     (if \<not> pg_first_byte_recorded g
      then (g\<lparr>pg_first_byte_recorded := True\<rparr>,
            ms @ [Observe pack_time_to_first_byte [] (clock - pg_started g)])
      else (g, ms))"

definition add_served_bytes :: "u64 \<Rightarrow> metrics \<Rightarrow> metrics" where
  "add_served_bytes n ms = ms @ [IncBy pack_bytes ''served'' n]"

definition blob_served :: "metrics \<Rightarrow> metrics" where
  "blob_served ms = ms @ [IncBy pack_blobs_family ''served'' 1]"

definition guard_finish :: "string \<Rightarrow> duration \<Rightarrow> pack_guard \<Rightarrow> metrics \<Rightarrow> pack_guard \<times> metrics" where
  "guard_finish outcome clock g ms =
     (if pg_finished g then (g, ms)
      else (g\<lparr>pg_finished := True\<rparr>,
            ms @ [IncBy pack_requests outcome 1,
                  Observe pack_duration outcome (clock - pg_started g),
                  GaugeDec pack_in_flight]))"

definition guard_complete :: "duration \<Rightarrow> pack_guard \<Rightarrow> metrics \<Rightarrow> pack_guard \<times> metrics" where
  "guard_complete clock g ms = guard_finish ''completed'' clock g ms"

definition guard_error :: "duration \<Rightarrow> pack_guard \<Rightarrow> metrics \<Rightarrow> pack_guard \<times> metrics" where
  "guard_error clock g ms = guard_finish ''error'' clock g ms"

definition guard_drop :: "duration \<Rightarrow> pack_guard \<Rightarrow> metrics \<Rightarrow> metrics" where
  "guard_drop clock g ms =
     (if \<not> pg_finished g then snd (guard_finish ''cancelled'' clock g ms) else ms)"

lemmas metrics_defs =
  inc_blob_hit_def inc_blob_upload_def inc_action_batch_def inc_blob_pack_upload_def
  inc_action_hit_def inc_action_miss_def inc_action_commit_def observe_pack_metadata_query_def
  observe_pack_storage_get_def start_pack_def record_first_byte_def add_served_bytes_def
  blob_served_def guard_finish_def guard_complete_def guard_error_def guard_drop_def

section \<open>Totals\<close>

fun counter_total :: "handle \<Rightarrow> label \<Rightarrow> metrics \<Rightarrow> nat" where
  "counter_total h l [] = 0"
| "counter_total h l (IncBy h' l' n # ms) =
     (if h' = h \<and> l' = l then unat n else 0) + counter_total h l ms"
| "counter_total h l (_ # ms) = counter_total h l ms"

fun gauge_value :: "handle \<Rightarrow> metrics \<Rightarrow> int" where
  "gauge_value h [] = 0"
| "gauge_value h (GaugeInc h' # ms) = (if h' = h then 1 else 0) + gauge_value h ms"
| "gauge_value h (GaugeDec h' # ms) = (if h' = h then - 1 else 0) + gauge_value h ms"
| "gauge_value h (_ # ms) = gauge_value h ms"

fun observations :: "handle \<Rightarrow> label \<Rightarrow> metrics \<Rightarrow> duration list" where
  "observations h l [] = []"
| "observations h l (Observe h' l' d # ms) =
     (if h' = h \<and> l' = l then [d] else []) @ observations h l ms"
| "observations h l (_ # ms) = observations h l ms"

lemma counter_total_append [simp]:
  "counter_total h l (ms @ ns) = counter_total h l ms + counter_total h l ns"
  by (induction h l ms rule: counter_total.induct) auto

lemma gauge_value_append [simp]: "gauge_value h (ms @ ns) = gauge_value h ms + gauge_value h ns"
  by (induction h ms rule: gauge_value.induct) auto

lemma observations_append [simp]:
  "observations h l (ms @ ns) = observations h l ms @ observations h l ns"
  by (induction h l ms rule: observations.induct) auto

section \<open>The life of pack streams\<close>

text \<open>
  Any number of pack streams run at once. \<open>pack_system\<close> holds the calls made so far, the
  guards that are alive, how many streams have been started and how many guards have been
  dropped. A guard is started once, used any number of times in any order, and dropped
  once, which ends its life; the steps of different guards interleave freely.
\<close>

record pack_system =
  ps_metrics :: metrics
  ps_guards :: "pack_guard list"
  ps_started :: nat
  ps_dropped :: nat

definition pack_system_init :: pack_system where
  "pack_system_init = \<lparr>ps_metrics = Metrics_new, ps_guards = [], ps_started = 0, ps_dropped = 0\<rparr>"

inductive pack_step :: "pack_system \<Rightarrow> pack_system \<Rightarrow> bool" where
  start: "start_pack started rb rby mb (ps_metrics s) = (g, ms) \<Longrightarrow>
    pack_step s (s\<lparr>ps_metrics := ms, ps_guards := ps_guards s @ [g], ps_started := ps_started s + 1\<rparr>)"
| first_byte: "i < length (ps_guards s) \<Longrightarrow>
    record_first_byte clock (ps_guards s ! i) (ps_metrics s) = (g, ms) \<Longrightarrow>
    pack_step s (s\<lparr>ps_metrics := ms, ps_guards := (ps_guards s)[i := g]\<rparr>)"
| served_bytes: "pack_step s (s\<lparr>ps_metrics := add_served_bytes n (ps_metrics s)\<rparr>)"
| served: "pack_step s (s\<lparr>ps_metrics := blob_served (ps_metrics s)\<rparr>)"
| complete: "i < length (ps_guards s) \<Longrightarrow>
    guard_complete clock (ps_guards s ! i) (ps_metrics s) = (g, ms) \<Longrightarrow>
    pack_step s (s\<lparr>ps_metrics := ms, ps_guards := (ps_guards s)[i := g]\<rparr>)"
| error: "i < length (ps_guards s) \<Longrightarrow>
    guard_error clock (ps_guards s ! i) (ps_metrics s) = (g, ms) \<Longrightarrow>
    pack_step s (s\<lparr>ps_metrics := ms, ps_guards := (ps_guards s)[i := g]\<rparr>)"
| drop: "i < length (ps_guards s) \<Longrightarrow>
    pack_step s (s\<lparr>ps_metrics := guard_drop clock (ps_guards s ! i) (ps_metrics s),
                   ps_guards := take i (ps_guards s) @ drop (Suc i) (ps_guards s),
                   ps_dropped := ps_dropped s + 1\<rparr>)"

inductive pack_reachable :: "pack_system \<Rightarrow> bool" where
  init: "pack_reachable pack_system_init"
| step: "pack_reachable s \<Longrightarrow> pack_step s t \<Longrightarrow> pack_reachable t"

definition unfinished :: "pack_guard list \<Rightarrow> nat" where
  "unfinished gs = length (filter (\<lambda>g. \<not> pg_finished g) gs)"

definition terminal_outcomes :: "metrics \<Rightarrow> nat" where
  "terminal_outcomes ms =
     counter_total pack_requests ''completed'' ms + counter_total pack_requests ''error'' ms +
     counter_total pack_requests ''cancelled'' ms"

definition pack_accounting :: "pack_system \<Rightarrow> bool" where
  "pack_accounting s \<longleftrightarrow>
     gauge_value pack_in_flight (ps_metrics s) = int (unfinished (ps_guards s)) \<and>
     terminal_outcomes (ps_metrics s) + unfinished (ps_guards s) = ps_started s \<and>
     length (ps_guards s) + ps_dropped s = ps_started s"

lemma unfinished_append [simp]: "unfinished (gs @ hs) = unfinished gs + unfinished hs"
  by (simp add: unfinished_def)

lemma unfinished_split:
  assumes "i < length gs"
  shows "unfinished gs =
    unfinished (take i gs) + (if pg_finished (gs ! i) then 0 else 1) + unfinished (drop (Suc i) gs)"
proof -
  have "unfinished gs = unfinished (take i gs @ gs ! i # drop (Suc i) gs)"
    using assms id_take_nth_drop [of i gs] by simp
  then show ?thesis by (simp add: unfinished_def)
qed

lemma unfinished_update:
  assumes "i < length gs"
  shows "unfinished (gs[i := g]) =
    unfinished (take i gs) + (if pg_finished g then 0 else 1) + unfinished (drop (Suc i) gs)"
  using assms by (simp add: upd_conv_take_nth_drop unfinished_def)

text \<open>
  What the methods of a guard do to the accounts: a guard that finishes leaves the gauge one
  lower and adds one terminal outcome; nothing else moves either.
\<close>

definition alive :: "pack_guard \<Rightarrow> nat" where
  "alive g = (if pg_finished g then 0 else 1)"

definition settles :: "pack_guard \<Rightarrow> metrics \<Rightarrow> nat \<Rightarrow> metrics \<Rightarrow> bool" where
  "settles g ms n ms' \<longleftrightarrow>
     gauge_value pack_in_flight ms' = gauge_value pack_in_flight ms - int (alive g) + int n \<and>
     terminal_outcomes ms' + n = terminal_outcomes ms + alive g"

lemma settles_finish:
  assumes "outcome \<in> {''completed'', ''error'', ''cancelled''}"
    and "guard_finish outcome clock g ms = (g', ms')"
  shows "settles g ms (alive g') ms'" and "pg_finished g'"
  using assms by (auto simp: settles_def alive_def terminal_outcomes_def guard_finish_def split: if_splits)

lemma settles_methods:
  "guard_complete clock g ms = (g', ms') \<Longrightarrow> settles g ms (alive g') ms'"
  "guard_error clock g ms = (g', ms') \<Longrightarrow> settles g ms (alive g') ms'"
  "settles g ms 0 (guard_drop clock g ms)"
  "record_first_byte clock g ms = (g', ms') \<Longrightarrow> settles g ms (alive g') ms'"
proof -
  show "settles g ms 0 (guard_drop clock g ms)"
  proof (cases "pg_finished g")
    case False
    obtain g1 ms1 where f: "guard_finish ''cancelled'' clock g ms = (g1, ms1)" by force
    then have "settles g ms (alive g1) ms1" "pg_finished g1"
      using settles_finish [of "''cancelled''"] by auto
    with f False show ?thesis by (simp add: guard_drop_def alive_def)
  qed (simp add: guard_drop_def settles_def alive_def)
qed (auto simp: guard_complete_def guard_error_def record_first_byte_def settles_def alive_def
    terminal_outcomes_def guard_finish_def split: if_splits)

lemma pack_accounting_update:
  assumes "pack_accounting s" and "i < length (ps_guards s)"
    and "settles (ps_guards s ! i) (ps_metrics s) (alive g) ms"
  shows "pack_accounting (s\<lparr>ps_metrics := ms, ps_guards := (ps_guards s)[i := g]\<rparr>)"
  using assms unfinished_split [OF assms(2)] unfinished_update [OF assms(2), of g]
  by (auto simp: pack_accounting_def settles_def alive_def split: if_splits)

lemma pack_accounting_step:
  assumes "pack_step s t" and "pack_accounting s"
  shows "pack_accounting t"
  using assms
proof (induction rule: pack_step.induct)
  case (start started rb rby mb s g ms)
  then show ?case
    by (auto simp: pack_accounting_def terminal_outcomes_def start_pack_def unfinished_def)
next
  case (first_byte i s clock g ms)
  then show ?case by (blast intro: pack_accounting_update settles_methods)
next
  case (complete i s clock g ms)
  then show ?case by (blast intro: pack_accounting_update settles_methods)
next
  case (error i s clock g ms)
  then show ?case by (blast intro: pack_accounting_update settles_methods)
next
  case (drop i s clock)
  then show ?case
    using unfinished_split [of i "ps_guards s"] settles_methods(3) [of "ps_guards s ! i" "ps_metrics s" clock]
    by (auto simp: pack_accounting_def settles_def alive_def)
qed (simp_all add: pack_accounting_def terminal_outcomes_def add_served_bytes_def blob_served_def)

lemma pack_accounting_reachable: "pack_reachable s \<Longrightarrow> pack_accounting s"
proof (induction rule: pack_reachable.induct)
  case init
  show ?case
    by (simp add: pack_accounting_def terminal_outcomes_def pack_system_init_def Metrics_new_def unfinished_def)
qed (rule pack_accounting_step)

section \<open>Properties\<close>

text \<open>
  C31. However the steps of concurrent pack streams interleave, the in-flight gauge is the
  number of live streams that have not finished, and every stream that is no longer
  unfinished has been counted under exactly one terminal outcome; once every guard has been
  dropped the gauge is back to zero and the outcomes add up to the streams started.
\<close>

theorem pack_streams_accounted:
  assumes "pack_reachable s"
  shows "gauge_value pack_in_flight (ps_metrics s) = int (unfinished (ps_guards s)) \<and>
    terminal_outcomes (ps_metrics s) + unfinished (ps_guards s) = ps_started s \<and>
    (ps_dropped s = ps_started s \<longrightarrow>
      gauge_value pack_in_flight (ps_metrics s) = 0 \<and> terminal_outcomes (ps_metrics s) = ps_started s)"
  using pack_accounting_reachable [OF assms] by (auto simp: pack_accounting_def unfinished_def)

definition example_pack_system :: pack_system where
  "example_pack_system =
     \<lparr>ps_metrics = [GaugeInc pack_in_flight, IncBy pack_blobs_family ''requested'' 2,
        IncBy pack_blobs_family ''missing'' 0, IncBy pack_bytes ''requested'' 7,
        IncBy pack_requests ''error'' 1, Observe pack_duration ''error'' 4, GaugeDec pack_in_flight],
      ps_guards = [], ps_started = 1, ps_dropped = 1\<rparr>"

lemma example_pack_system_reachable: "pack_reachable example_pack_system"
proof -
  obtain g0 m0 where g0: "start_pack 5 2 7 0 [] = (g0, m0)" by force
  define s1 where "s1 = pack_system_init\<lparr>ps_metrics := m0, ps_guards := [g0], ps_started := 1\<rparr>"
  obtain g1 m1 where g1: "guard_error 9 g0 m0 = (g1, m1)" by force
  define s2 where "s2 = s1\<lparr>ps_metrics := m1, ps_guards := [g1]\<rparr>"
  define s3 where "s3 = s2\<lparr>ps_metrics := guard_drop 11 g1 m1, ps_guards := [], ps_dropped := 1\<rparr>"
  have "pack_step pack_system_init s1"
    using pack_step.start [of 5 2 7 0 pack_system_init g0 m0] g0
    by (simp add: s1_def pack_system_init_def Metrics_new_def)
  moreover have "pack_step s1 s2"
    using pack_step.error [of 0 s1 9 g1 m1] g1 by (simp add: s1_def s2_def pack_system_init_def)
  moreover have "pack_step s2 s3"
    using pack_step.drop [of 0 s2 11] by (simp add: s1_def s2_def s3_def pack_system_init_def)
  ultimately have "pack_reachable s3" by (blast intro: pack_reachable.intros)
  moreover have "s3 = example_pack_system"
    using g0 g1
    by (auto simp: s3_def s2_def s1_def pack_system_init_def example_pack_system_def start_pack_def
        guard_error_def guard_finish_def guard_drop_def Metrics_new_def)
  ultimately show ?thesis by simp
qed

theorem pack_streams_accounted_witness:
  "pack_reachable example_pack_system \<and>
   gauge_value pack_in_flight (ps_metrics example_pack_system) = 0 \<and>
   terminal_outcomes (ps_metrics example_pack_system) = 1"
  using example_pack_system_reachable
    pack_streams_accounted [OF example_pack_system_reachable]
  by (simp add: example_pack_system_def)

end
