(* ===== verification/Api.thy ===== *)
theory Api
  imports Pack
begin

text \<open>
  The error type of the HTTP layer and the request checks that every handler of
  \<^verbatim>\<open>src/server.rs\<close> shares: digests from paths and bodies, preconditions, entity tags,
  counting headers. A \<open>header_map\<close> gives, for a header name, the text of its value, as
  \<^verbatim>\<open>headers.get(name).and_then(|value| value.to_str().ok())\<close> does everywhere in the
  source.
\<close>

section \<open>Statuses and errors\<close>

datatype status_code =
    OK | CREATED | NO_CONTENT
  | BAD_REQUEST | UNAUTHORIZED | FORBIDDEN | NOT_FOUND | CONFLICT | PRECONDITION_FAILED
  | PAYLOAD_TOO_LARGE | UNPROCESSABLE_ENTITY | UPGRADE_REQUIRED | PRECONDITION_REQUIRED
  | INTERNAL_SERVER_ERROR

record api_error =
  ae_status :: status_code
  ae_message :: string
  ae_advertise_protocol :: bool

definition ApiError_new :: "status_code \<Rightarrow> string \<Rightarrow> api_error" where
  "ApiError_new status message =
     \<lparr>ae_status = status, ae_message = message, ae_advertise_protocol = False\<rparr>"

definition bad_request :: "string \<Rightarrow> api_error" where
  "bad_request message = ApiError_new BAD_REQUEST message"

definition unauthorized :: "string \<Rightarrow> api_error" where
  "unauthorized message = ApiError_new UNAUTHORIZED message"

definition forbidden :: "string \<Rightarrow> api_error" where
  "forbidden message = ApiError_new FORBIDDEN message"

definition not_found :: "string \<Rightarrow> api_error" where
  "not_found message = ApiError_new NOT_FOUND message"

definition conflict :: "string \<Rightarrow> api_error" where
  "conflict message = ApiError_new CONFLICT message"

definition too_large :: "string \<Rightarrow> api_error" where
  "too_large message = ApiError_new PAYLOAD_TOO_LARGE message"

definition unprocessable :: "string \<Rightarrow> api_error" where
  "unprocessable message = ApiError_new UNPROCESSABLE_ENTITY message"

definition precondition :: "string \<Rightarrow> api_error" where
  "precondition message = ApiError_new PRECONDITION_FAILED message"

definition precondition_required :: "string \<Rightarrow> api_error" where
  "precondition_required message = ApiError_new PRECONDITION_REQUIRED message"

definition upgrade_required :: api_error where
  "upgrade_required =
     \<lparr>ae_status = UPGRADE_REQUIRED, ae_message = ''mbx cache protocol version 1 is required'',
      ae_advertise_protocol = True\<rparr>"

text \<open>The cause of an internal error is logged and never sent to the client.\<close>

definition internal :: "string \<Rightarrow> api_error" where
  "internal error = ApiError_new INTERNAL_SERVER_ERROR ''internal server error''"

lemmas api_error_defs =
  ApiError_new_def bad_request_def unauthorized_def forbidden_def not_found_def conflict_def
  too_large_def unprocessable_def precondition_def precondition_required_def upgrade_required_def
  internal_def

section \<open>Requests\<close>

type_synonym header_map = "string \<Rightarrow> string option"

datatype access = Read | Write

definition required_u64_header :: "header_map \<Rightarrow> string \<Rightarrow> api_error + u64" where
  "required_u64_header headers name =
     ok_or (bad_request (name @ '' must be an unsigned integer''))
       (Option.bind (headers name) parse_u64)"

subsection \<open>Digests named by a request\<close>

definition validate_digest :: "protocol \<Rightarrow> digest \<Rightarrow> api_error + unit" where
  "validate_digest P d =
     (if digest_validate P d then Inr () else Inl (bad_request ''invalid digest''))"

definition parse_digest :: "protocol \<Rightarrow> string \<times> string \<times> u64 \<Rightarrow> api_error + digest" where
  "parse_digest P parts =
     (case parts of (algorithm, hash, size_bytes) \<Rightarrow>
        let d = \<lparr>dg_algorithm = algorithm, dg_hash = hash, dg_size = size_bytes\<rparr>
        in bind_result (validate_digest P d) (\<lambda>_. Inr d))"

definition parse_action_digest :: "protocol \<Rightarrow> string \<times> string \<times> u64 \<Rightarrow> api_error + digest" where
  "parse_action_digest P parts =
     bind_result (parse_digest P parts)
       (\<lambda>d. if dg_algorithm d \<noteq> ''blake3''
            then Inl (bad_request ''action result keys must use blake3'') else Inr d)"

definition validate_action_digest :: "protocol \<Rightarrow> digest \<Rightarrow> api_error + digest" where
  "validate_action_digest P d =
     bind_result (validate_digest P d)
       (\<lambda>_. if dg_algorithm d \<noteq> ''blake3''
            then Inl (bad_request ''action result keys must use blake3'') else Inr d)"

lemma validate_digest_Inr_iff [result_simps]: "validate_digest P d = Inr u \<longleftrightarrow> digest_validate P d"
  by (simp add: validate_digest_def)

lemma parse_digest_Inr_iff [result_simps]:
  "parse_digest P (a, h, n) = Inr d \<longleftrightarrow>
     d = \<lparr>dg_algorithm = a, dg_hash = h, dg_size = n\<rparr> \<and> digest_validate P d"
  by (auto simp: parse_digest_def Let_def result_simps)

lemma parse_action_digest_Inr_iff [result_simps]:
  "parse_action_digest P (a, h, n) = Inr d \<longleftrightarrow>
     d = \<lparr>dg_algorithm = a, dg_hash = h, dg_size = n\<rparr> \<and> digest_validate P d \<and> a = ''blake3''"
  by (auto simp: parse_action_digest_def result_simps split: if_splits)

lemma validate_action_digest_Inr_iff [result_simps]:
  "validate_action_digest P d = Inr e \<longleftrightarrow>
     e = d \<and> digest_validate P d \<and> dg_algorithm d = ''blake3''"
  by (auto simp: validate_action_digest_def result_simps split: if_splits)

subsection \<open>Preconditions and entity tags\<close>

definition require_immutable_precondition :: "header_map \<Rightarrow> api_error + unit" where
  "require_immutable_precondition headers =
     (if headers ''if-none-match'' = Some ''*'' then Inr ()
      else Inl (precondition ''If-None-Match: * is required''))"

definition manifest_precondition :: "header_map \<Rightarrow> api_error + string option" where
  "manifest_precondition headers =
     (if headers ''if-none-match'' = Some ''*'' then Inr None
      else
        bind_result
          (ok_or (precondition_required ''If-None-Match: * or If-Match is required'')
             (headers ''if-match''))
          (\<lambda>value.
             bind_result
               (ok_or (bad_request ''If-Match must contain one strong BLAKE3 ETag'')
                  (Option.bind (strip_prefix ''\"'' value)
                     (\<lambda>v. Option.bind (strip_suffix ''\"'' v)
                        (\<lambda>e. if length e = 64 \<and> list_all is_lower_hex e then Some e else None))))
               (\<lambda>etag. Inr (Some etag))))"

definition quoted_etag :: "string \<Rightarrow> string" where
  "quoted_etag etag = ''\"'' @ etag @ ''\"''"

text \<open>
  An entity tag a client read back is recognised in \<^verbatim>\<open>If-Match\<close>: the unquoted tag comes
  out, and nothing but 64 lower-case hexadecimal digits does.
\<close>

lemma manifest_precondition_etag_iff:
  "headers ''if-none-match'' \<noteq> Some ''*'' \<Longrightarrow>
     manifest_precondition headers = Inr (Some etag) \<longleftrightarrow>
       headers ''if-match'' = Some (quoted_etag etag) \<and> length etag = 64 \<and> lower_hex_string etag"
  by (auto simp: manifest_precondition_def quoted_etag_def lower_hex_string_def result_simps
      strip_prefix_Some_iff strip_suffix_Some_iff bind_eq_Some_conv split: if_splits)

lemma manifest_precondition_None_iff:
  "manifest_precondition headers = Inr None \<longleftrightarrow> headers ''if-none-match'' = Some ''*''"
  by (auto simp: manifest_precondition_def result_simps split: if_splits)

subsection \<open>Pack errors\<close>

text \<open>The messages of \<^verbatim>\<open>PackError\<close>, and the status each error is reported with.\<close>

fun PackError_to_string :: "pack_error \<Rightarrow> string" where
  "PackError_to_string MagicError = ''blob pack does not start with the expected magic prefix''"
| "PackError_to_string (AlgorithmError a) =
     ''blob pack declares an unknown digest algorithm '' @ show_nat (unat a)"
| "PackError_to_string Truncated = ''blob pack ended inside a frame''"
| "PackError_to_string (BlobTooLarge n m) =
     ''blob pack declares a blob of '' @ show_u64 n @ '' bytes, over the '' @ show_u64 m @ '' byte limit''"
| "PackError_to_string (TooManyBlobs n) =
     ''blob pack carries more than the declared '' @ show_u64 n @ '' blobs''"
| "PackError_to_string (TooManyBytes n) =
     ''blob pack carries more than the declared '' @ show_u64 n @ '' payload bytes''"

fun pack_error_response :: "pack_error \<Rightarrow> api_error" where
  "pack_error_response (BlobTooLarge n m) = too_large (PackError_to_string (BlobTooLarge n m))"
| "pack_error_response (TooManyBytes n) = too_large (PackError_to_string (TooManyBytes n))"
| "pack_error_response (TooManyBlobs n) = too_large (PackError_to_string (TooManyBlobs n))"
| "pack_error_response other = bad_request (PackError_to_string other)"

end
