(* ===== verification/Auth.thy ===== *)
theory Auth
  imports Api Json
begin

text \<open>
  \<^verbatim>\<open>src/auth.rs\<close>, first part: namespaces and patterns, static tokens, claim rules, the
  configuration of an identity provider and its signing algorithms. The second part, which
  talks to identity providers and decides a request, is in theory \<^verbatim>\<open>Oidc\<close>.
\<close>

section \<open>Configuration\<close>

definition MIN_JWKS_REFRESH_SECONDS :: nat where "MIN_JWKS_REFRESH_SECONDS = 30"
definition INITIAL_FETCH_ATTEMPTS :: nat where "INITIAL_FETCH_ATTEMPTS = 3"
definition INITIAL_FETCH_BACKOFF_MILLIS :: nat where "INITIAL_FETCH_BACKOFF_MILLIS = 250"

text \<open>The signing algorithms of the token library.\<close>

datatype jwt_algorithm =
    HS256 | HS384 | HS512 | ES256 | ES384 | RS256 | RS384 | RS512 | PS256 | PS384 | PS512 | EdDSA

definition DEFAULT_ALGORITHMS :: "jwt_algorithm list" where
  "DEFAULT_ALGORITHMS = [RS256, RS384, RS512, PS256, PS384, PS512, ES256, ES384, EdDSA]"

record token_grant =
  tg_token :: string
  tg_read :: "string list"
  tg_write :: "string list"

datatype scalar_value = ScalarString string | ScalarNumber json_number | ScalarBool bool

datatype claim_requirement = One scalar_value | Any "scalar_value list"

record oidc_rule =
  or_claims :: "(string \<times> claim_requirement) list"
  or_read :: "string list"
  or_write :: "string list"

record oidc_provider_config =
  oc_issuer :: string
  oc_audiences :: "string list"
  oc_discovery_uri :: "string option"
  oc_jwks_uri :: "string option"
  oc_algorithms :: "string list"
  oc_jwks_refresh_seconds :: u64
  oc_clock_skew_seconds :: u64
  oc_rules :: "oidc_rule list"

section \<open>Namespaces\<close>

definition valid_namespace :: "string \<Rightarrow> bool" where
  "valid_namespace value \<longleftrightarrow>
     value \<noteq> [] \<and> length value \<le> 255 \<and>
     list_all (\<lambda>b. is_ascii_alphanumeric b \<or> b = CHR ''-'' \<or> b = CHR ''_'' \<or> b = CHR ''.'' \<or> b = CHR ''/'') value \<and>
     list_all (\<lambda>c. c \<noteq> [] \<and> c \<noteq> ''.'' \<and> c \<noteq> ''..'') (split_on (CHR ''/'') value)"

definition matches_namespace :: "string \<Rightarrow> string \<Rightarrow> bool" where
  "matches_namespace pattern ns \<longleftrightarrow>
     pattern = ''*'' \<or> pattern = ns \<or>
     (case strip_suffix ''/*'' pattern of
        None \<Rightarrow> False
      | Some prefix \<Rightarrow>
          strip_prefix prefix ns \<noteq> None \<and>
          length prefix < length ns \<and> ns ! length prefix = CHR ''/'')"

definition constant_time_eq :: "bytes \<Rightarrow> bytes \<Rightarrow> bool" where
  "constant_time_eq left right \<longleftrightarrow>
     (if length left \<noteq> length right then False
      else fold (\<lambda>(a, b) diff. diff OR (a XOR b)) (zip left right) 0 = 0)"

definition authorize_patterns :: "string list \<Rightarrow> string \<Rightarrow> api_error + string" where
  "authorize_patterns patterns ns =
     (if list_ex (\<lambda>pattern. matches_namespace pattern ns) patterns then Inr ns
      else Inl (forbidden ''token is not authorized for this namespace''))"

fun grant_patterns :: "token_grant \<Rightarrow> access \<Rightarrow> string list" where
  "grant_patterns grant Read = tg_read grant"
| "grant_patterns grant Write = tg_write grant"

section \<open>Rules\<close>

fun rule_patterns :: "oidc_rule \<Rightarrow> access \<Rightarrow> string list" where
  "rule_patterns rule Read = or_read rule"
| "rule_patterns rule Write = or_write rule"

fun scalar_matches :: "scalar_value \<Rightarrow> json \<Rightarrow> bool" where
  "scalar_matches (ScalarString expected) (JString actual) \<longleftrightarrow> expected = actual"
| "scalar_matches (ScalarNumber expected) (JNumber actual) \<longleftrightarrow> expected = actual"
| "scalar_matches (ScalarBool expected) (JBool actual) \<longleftrightarrow> expected = actual"
| "scalar_matches _ _ \<longleftrightarrow> False"

fun expected_values :: "claim_requirement \<Rightarrow> scalar_value list" where
  "expected_values (One v) = [v]"
| "expected_values (Any vs) = vs"

definition requirement_matches :: "claim_requirement \<Rightarrow> json \<Rightarrow> bool" where
  "requirement_matches self actual =
     (let expected = expected_values self in
      case actual of
        JArray values \<Rightarrow> list_ex (\<lambda>actual. list_ex (\<lambda>v. scalar_matches v actual) expected) values
      | actual \<Rightarrow> list_ex (\<lambda>v. scalar_matches v actual) expected)"

definition matches_claims :: "oidc_rule \<Rightarrow> json \<Rightarrow> bool" where
  "matches_claims rule claims \<longleftrightarrow>
     list_all (\<lambda>(name, requirement).
       case json_get claims name of None \<Rightarrow> False | Some actual \<Rightarrow> requirement_matches requirement actual)
       (or_claims rule)"

section \<open>Provider configuration\<close>

definition validate_provider_config :: "oidc_provider_config \<Rightarrow> string + unit" where
  "validate_provider_config config =
     (if oc_issuer config = [] \<or> oc_audiences config = [] \<or> oc_rules config = []
      then Inl ''each OIDC provider requires issuer, audiences, and rules''
      else if oc_jwks_refresh_seconds config = 0
      then Inl ''OIDC jwks_refresh_seconds must be greater than zero''
      else if list_ex (\<lambda>rule. or_claims rule = []) (oc_rules config)
      then Inl ''each OIDC authorization rule must require at least one claim''
      else Inr ())"

text \<open>\<open>from_str\<close> is the name lookup of the token library.\<close>

fun parse_algorithms :: "(string \<Rightarrow> jwt_algorithm option) \<Rightarrow> string list \<Rightarrow> string + jwt_algorithm list" where
  "parse_algorithms from_str [] = Inr []"
| "parse_algorithms from_str (name # names) =
     bind_result (ok_or (''unsupported OIDC algorithm '' @ debug_str name) (from_str name)) (\<lambda>a.
     bind_result (parse_algorithms from_str names) (\<lambda>as. Inr (a # as)))"

definition configured_algorithms ::
  "(string \<Rightarrow> jwt_algorithm option) \<Rightarrow> string list \<Rightarrow> string list \<Rightarrow> string + jwt_algorithm list" where
  "configured_algorithms from_str configured advertised =
     bind_result (if configured = [] then Inr DEFAULT_ALGORITHMS else parse_algorithms from_str configured)
       (\<lambda>algorithms.
          let allowed = filter (\<lambda>a. a \<in> set DEFAULT_ALGORITHMS) algorithms;
              agreed = (if advertised \<noteq> []
                        then (let offered = List.map_filter from_str advertised
                              in filter (\<lambda>a. a \<in> set offered) allowed)
                        else allowed)
          in if agreed = []
             then Inl ''OIDC provider has no mutually supported asymmetric signing algorithm''
             else Inr agreed)"

section \<open>Lemmas\<close>

text \<open>The comparison that does not stop early decides equality.\<close>

lemma or_eq_0_iff: "(a :: u8) OR b = 0 \<longleftrightarrow> a = 0 \<and> b = 0"
  by (metis or.right_neutral or_eq_0_iff)

lemma fold_diff_eq_0:
  "fold (\<lambda>(a, b) diff. diff OR (a XOR b)) ps (d :: u8) = 0 \<longleftrightarrow> d = 0 \<and> (\<forall>(a, b)\<in>set ps. a = b)"
proof (induction ps arbitrary: d)
  case (Cons p ps)
  have "a XOR b = 0 \<longleftrightarrow> a = b" for a b :: u8
    by (metis xor_self_eq xor.assoc xor.right_neutral)
  with Cons show ?case by (cases p) (auto simp: or_eq_0_iff)
qed simp

lemma constant_time_eq_iff: "constant_time_eq left right \<longleftrightarrow> left = right"
proof -
  have "(\<forall>(a, b)\<in>set (zip left right). a = b) \<longleftrightarrow> left = right" if "length left = length right"
    using that by (induction left right rule: list_induct2) auto
  then show ?thesis by (auto simp: constant_time_eq_def fold_diff_eq_0)
qed

text \<open>A pattern names one namespace, everything below one, or everything.\<close>

lemma matches_namespace_iff:
  "matches_namespace pattern ns \<longleftrightarrow>
     pattern = ''*'' \<or> pattern = ns \<or>
     (\<exists>prefix rest. pattern = prefix @ ''/*'' \<and> ns = prefix @ ''/'' @ rest)"
proof -
  have "strip_prefix p ns \<noteq> None \<and> length p < length ns \<and> ns ! length p = CHR ''/'' \<longleftrightarrow>
      (\<exists>rest. ns = p @ ''/'' @ rest)" for p
  proof
    assume "strip_prefix p ns \<noteq> None \<and> length p < length ns \<and> ns ! length p = CHR ''/''"
    then obtain t where "ns = p @ t" "t \<noteq> []" "hd t = CHR ''/''"
      by (auto simp: strip_prefix_Some_iff hd_conv_nth nth_append)
    then show "\<exists>rest. ns = p @ ''/'' @ rest" by (cases t) auto
  qed (auto simp: strip_prefix_Some_iff nth_append)
  then show ?thesis
    by (auto simp: matches_namespace_def strip_suffix_Some_iff split: option.splits)
      (metis option.distinct(1) strip_suffix_Some_iff)+
qed

lemma configured_algorithms_Inr:
  assumes "configured_algorithms from_str configured advertised = Inr as"
  shows "as \<noteq> [] \<and> set as \<subseteq> set DEFAULT_ALGORITHMS \<and>
    (advertised \<noteq> [] \<longrightarrow> (\<forall>a\<in>set as. \<exists>name\<in>set advertised. from_str name = Some a)) \<and>
    (configured \<noteq> [] \<longrightarrow> (\<forall>a\<in>set as. \<exists>name\<in>set configured. from_str name = Some a))"
proof -
  have parsed: "\<forall>a\<in>set bs. \<exists>name\<in>set names. from_str name = Some a"
    if "parse_algorithms from_str names = Inr bs" for names bs
    using that
  proof (induction names arbitrary: bs)
    case (Cons name names)
    then obtain a as where "from_str name = Some a" "parse_algorithms from_str names = Inr as" "bs = a # as"
      by (auto simp: result_simps)
    with Cons.IH [of as] show ?case by auto
  qed auto
  have offered: "a \<in> set (List.map_filter from_str names) \<longleftrightarrow> (\<exists>name\<in>set names. from_str name = Some a)"
    for a names by (force simp: map_filter_def)
  from assms obtain base where
    base: "(if configured = [] then Inr DEFAULT_ALGORITHMS else parse_algorithms from_str configured) = Inr base"
    and R: "(let allowed = filter (\<lambda>a. a \<in> set DEFAULT_ALGORITHMS) base;
              agreed = (if advertised \<noteq> []
                        then (let offered = List.map_filter from_str advertised
                              in filter (\<lambda>a. a \<in> set offered) allowed)
                        else allowed)
          in if agreed = []
             then Inl ''OIDC provider has no mutually supported asymmetric signing algorithm''
             else Inr agreed) = Inr as"
    unfolding configured_algorithms_def bind_result_Inr_iff by blast
  from R have as: "as \<noteq> []" "\<forall>a\<in>set as. a \<in> set base \<and> a \<in> set DEFAULT_ALGORITHMS \<and>
      (advertised \<noteq> [] \<longrightarrow> a \<in> set (List.map_filter from_str advertised))"
    unfolding Let_def by (auto simp del: filter_filter split: if_splits)
  from base parsed have "configured \<noteq> [] \<longrightarrow> (\<forall>a\<in>set base. \<exists>name\<in>set configured. from_str name = Some a)"
    by auto
  with as show ?thesis by (auto simp: offered)
qed

lemma validate_provider_config_Inr [result_simps]:
  "validate_provider_config config = Inr u \<longleftrightarrow>
     oc_issuer config \<noteq> [] \<and> oc_audiences config \<noteq> [] \<and> oc_rules config \<noteq> [] \<and>
     oc_jwks_refresh_seconds config \<noteq> 0 \<and> (\<forall>rule\<in>set (oc_rules config). or_claims rule \<noteq> [])"
  by (auto simp: validate_provider_config_def list_ex_iff)

text \<open>A list of components that starts with those of \<open>p\<close> and goes on is a path below \<open>p\<close>.\<close>

lemma split_on_append_iff:
  "cs \<noteq> [] \<Longrightarrow> split_on c s = split_on c p @ cs \<Longrightarrow> \<exists>rest. s = p @ c # rest"
proof (induction p arbitrary: s)
  case Nil
  then show ?case by (cases s) (auto split: list.splits if_splits)
next
  case (Cons y p)
  obtain q qs where q: "split_on c p = q # qs" by (cases "split_on c p") auto
  obtain x xs where s: "s = x # xs" using Cons.prems q by (cases s) (auto split: if_splits)
  obtain r rs where r: "split_on c xs = r # rs" by (cases "split_on c xs") auto
  have "x = y \<and> split_on c xs = split_on c p @ cs"
    using Cons.prems q s r by (auto split: if_splits)
  with Cons.IH [OF Cons.prems(1)] s show ?case by fastforce
qed

lemma valid_namespace_no_star: "valid_namespace ns \<Longrightarrow> CHR ''*'' \<notin> set ns"
  by (auto simp: valid_namespace_def list_all_iff is_ascii_alphanumeric_def)

section \<open>Properties\<close>

text \<open>
  C37. A pattern that ends in a slash and a star covers exactly the namespaces strictly below its
  prefix, at component boundaries: neither the prefix itself nor a sibling whose name merely
  starts with it.
\<close>

theorem namespace_pattern_scope:
  assumes "valid_namespace ns"
  shows "matches_namespace (prefix @ ''/*'') ns \<longleftrightarrow>
    (\<exists>below. below \<noteq> [] \<and> split_on (CHR ''/'') ns = split_on (CHR ''/'') prefix @ below)"
proof
  have "CHR ''*'' \<notin> set ns" using valid_namespace_no_star [OF assms] .
  then have ne: "prefix @ ''/*'' \<noteq> ns" by auto
  show "\<exists>below. below \<noteq> [] \<and> split_on (CHR ''/'') ns = split_on (CHR ''/'') prefix @ below"
    if "matches_namespace (prefix @ ''/*'') ns"
  proof -
    from that ne obtain rest where "ns = prefix @ ''/'' @ rest"
      by (cases prefix) (auto simp: matches_namespace_iff)
    then show ?thesis using split_on_append [of "CHR ''/''" prefix rest] by simp
  qed
  show "matches_namespace (prefix @ ''/*'') ns"
    if "\<exists>below. below \<noteq> [] \<and> split_on (CHR ''/'') ns = split_on (CHR ''/'') prefix @ below"
    using that split_on_append_iff by (fastforce simp: matches_namespace_iff)
qed

theorem namespace_pattern_scope_witness:
  "valid_namespace ''team/app/x'' \<and> matches_namespace ''team/*'' ''team/app/x'' \<and>
   valid_namespace ''teams/app'' \<and> \<not> matches_namespace ''team/*'' ''teams/app''"
proof -
  have v: "valid_namespace ''team/app/x''" "valid_namespace ''teams/app''" by code_simp+
  from v namespace_pattern_scope [OF v(1), of "''team''"] namespace_pattern_scope [OF v(2), of "''team''"]
  show ?thesis by simp
qed

end
