(* ===== verification/Oidc.thy ===== *)
theory Oidc
  imports Auth
begin

text \<open>
  \<^verbatim>\<open>src/auth.rs\<close>, second part: identity providers, their cached signing keys, and the
  decision on a request. Token parsing and signature checking, base64, JSON parsing and the
  network are parameters (\<open>jwt_library\<close>, \<open>network\<close>). The clock counts milliseconds; it
  advances while the network is waited for, and a response depends on when it was asked for.
  The cached keys of a provider are found under its issuer, which is unique.
\<close>

section \<open>Parameters\<close>

record jwk =
  jwk_kid :: "string option"
  jwk_key_algorithm :: "string option"
  jwk_public_key_use :: "string option"
  jwk_key_operations :: "string list option"
  jwk_parameters :: string

record jwt_header =
  jh_kid :: "string option"
  jh_alg :: jwt_algorithm

record validation =
  va_algorithm :: jwt_algorithm
  va_audience :: "string list"
  va_issuer :: "string list"
  va_required_spec_claims :: "string list"
  va_validate_nbf :: bool
  va_leeway :: u64

record jwt_library =
  jl_decode_header :: "string \<Rightarrow> string + jwt_header"
  jl_from_str :: "string \<Rightarrow> jwt_algorithm option"
  jl_find :: "jwk list \<Rightarrow> string \<Rightarrow> jwk option"
  jl_from_jwk :: "jwk \<Rightarrow> string + string"
  jl_decode :: "nat \<Rightarrow> string \<Rightarrow> string \<Rightarrow> validation \<Rightarrow> string + json"
  jl_base64_decode :: "string \<Rightarrow> string + bytes"
  jl_from_slice :: "bytes \<Rightarrow> string + json"

record discovery_document =
  dd_issuer :: string
  dd_jwks_uri :: string
  dd_id_token_signing_alg_values_supported :: "string list"

record network =
  nw_discovery :: "nat \<Rightarrow> string \<Rightarrow> string + discovery_document"
  nw_jwks :: "nat \<Rightarrow> string \<Rightarrow> string + jwk list"
  nw_latency :: "nat \<Rightarrow> string \<Rightarrow> nat"

section \<open>State\<close>

record cached_keys =
  ck_set :: "jwk list"
  ck_fetched_at :: nat
  ck_attempted_at :: "nat option"

record oidc_provider =
  op_config :: oidc_provider_config
  op_algorithms :: "jwt_algorithm list"
  op_jwks_uri :: string
  op_min_refresh_interval :: nat

record authorizer =
  au_grants :: "token_grant list"
  au_oidc :: "oidc_provider list"
  au_allow_anonymous :: bool
  au_anonymous_read_namespaces :: "string list"

text \<open>The requests sent to the network are recorded with the time they were sent at.\<close>

record auth_state =
  as_now :: nat
  as_keys :: "string \<Rightarrow> cached_keys"
  as_requests :: "(nat \<times> string) list"

section \<open>Fetching\<close>

definition seconds :: "u64 \<Rightarrow> nat" where
  "seconds n = 1000 * unat n"

definition send :: "network \<Rightarrow> string \<Rightarrow> (nat \<Rightarrow> string \<Rightarrow> string + 'a) \<Rightarrow> (auth_state, string, 'a) prog" where
  "send N uri response s =
     (response (as_now s) uri,
      s\<lparr>as_now := as_now s + nw_latency N (as_now s) uri,
        as_requests := as_requests s @ [(as_now s, uri)]\<rparr>)"

definition sleep :: "nat \<Rightarrow> (auth_state, string, unit) prog" where
  "sleep ms s = (Inr (), s\<lparr>as_now := as_now s + ms\<rparr>)"

definition fetch_jwks :: "network \<Rightarrow> string \<Rightarrow> (auth_state, string, jwk list) prog" where
  "fetch_jwks N uri = send N uri (nw_jwks N)"

definition fetch_provider_data ::
  "network \<Rightarrow> oidc_provider_config \<Rightarrow> (auth_state, string, string \<times> string list \<times> jwk list) prog" where
  "fetch_provider_data N config =
     bindp
       (case oc_jwks_uri config of
          Some uri \<Rightarrow> ok (uri, [])
        | None \<Rightarrow>
            let discovery_uri = (case oc_discovery_uri config of
                  Some uri \<Rightarrow> uri
                | None \<Rightarrow> trim_end_matches (CHR ''/'') (oc_issuer config) @ ''/.well-known/openid-configuration'')
            in bindp (send N discovery_uri (nw_discovery N)) (\<lambda>document.
               bindp (ensurep (dd_issuer document = oc_issuer config) ''OIDC discovery issuer mismatch'') (\<lambda>_.
                 ok (dd_jwks_uri document, dd_id_token_signing_alg_values_supported document))))
       (\<lambda>(jwks_uri, advertised).
          bindp (fetch_jwks N jwks_uri) (\<lambda>set. ok (jwks_uri, advertised, set)))"

text \<open>The loop over \<^verbatim>\<open>1..=INITIAL_FETCH_ATTEMPTS\<close>: \<open>n\<close> attempts are left, this one is number \<open>attempt\<close>.\<close>

fun fetch_attempts ::
  "network \<Rightarrow> oidc_provider_config \<Rightarrow> nat \<Rightarrow> nat \<Rightarrow> string option
     \<Rightarrow> (auth_state, string, string \<times> string list \<times> jwk list) prog" where
  "fetch_attempts N config 0 attempt last_error s =
     (Inl (case last_error of Some e \<Rightarrow> e | None \<Rightarrow> ''at least one OIDC fetch attempt''), s)"
| "fetch_attempts N config (Suc n) attempt last_error s =
     (case fetch_provider_data N config s of
        (Inr data, t) \<Rightarrow> (Inr data, t)
      | (Inl e, t) \<Rightarrow>
          fetch_attempts N config n (attempt + 1) (Some e)
            (if attempt < INITIAL_FETCH_ATTEMPTS
             then snd (sleep (INITIAL_FETCH_BACKOFF_MILLIS * attempt) t) else t))"

definition fetch_initial_provider_data ::
  "network \<Rightarrow> oidc_provider_config \<Rightarrow> (auth_state, string, string \<times> string list \<times> jwk list) prog" where
  "fetch_initial_provider_data N config = fetch_attempts N config INITIAL_FETCH_ATTEMPTS 1 None"

section \<open>Providers\<close>

definition OidcProvider_new ::
  "jwt_library \<Rightarrow> network \<Rightarrow> oidc_provider_config \<Rightarrow> (auth_state, string, oidc_provider) prog" where
  "OidcProvider_new L N config =
     bindp (liftr (validate_provider_config config)) (\<lambda>_.
     bindp (fetch_initial_provider_data N config) (\<lambda>(jwks_uri, advertised, set).
     bindp (liftr (configured_algorithms (jl_from_str L) (oc_algorithms config) advertised)) (\<lambda>algorithms.
     bindp (modifyp (\<lambda>s. s\<lparr>as_keys := (as_keys s)(oc_issuer config :=
              \<lparr>ck_set = set, ck_fetched_at = as_now s, ck_attempted_at = None\<rparr>)\<rparr>)) (\<lambda>_.
       ok \<lparr>op_config = config, op_algorithms = algorithms, op_jwks_uri = jwks_uri,
           op_min_refresh_interval = 1000 * MIN_JWKS_REFRESH_SECONDS\<rparr>))))"

definition keys_of :: "oidc_provider \<Rightarrow> auth_state \<Rightarrow> cached_keys" where
  "keys_of self s = as_keys s (oc_issuer (op_config self))"

definition set_keys :: "oidc_provider \<Rightarrow> (cached_keys \<Rightarrow> cached_keys) \<Rightarrow> auth_state \<Rightarrow> auth_state" where
  "set_keys self f s =
     s\<lparr>as_keys := (as_keys s)(oc_issuer (op_config self) := f (keys_of self s))\<rparr>"

text \<open>The refresh lock is held throughout, so two refreshes of a provider do not overlap.\<close>

definition refresh_needed :: "jwt_library \<Rightarrow> oidc_provider \<Rightarrow> string \<Rightarrow> auth_state \<Rightarrow> bool" where
  "refresh_needed L self kid s \<longleftrightarrow>
     (let keys = keys_of self s in
      \<not> ((case ck_attempted_at keys of None \<Rightarrow> False
            | Some attempted_at \<Rightarrow> as_now s - attempted_at < op_min_refresh_interval self) \<or>
          (as_now s - ck_fetched_at keys < seconds (oc_jwks_refresh_seconds (op_config self)) \<and>
           jl_find L (ck_set keys) kid \<noteq> None)))"

definition refresh_keys ::
  "jwt_library \<Rightarrow> network \<Rightarrow> oidc_provider \<Rightarrow> string \<Rightarrow> (auth_state, string, unit) prog" where
  "refresh_keys L N self kid s =
     (if \<not> refresh_needed L self kid s then (Inr (), s)
      else
        bindp (modifyp (\<lambda>s. set_keys self (\<lambda>k. k\<lparr>ck_attempted_at := Some (as_now s)\<rparr>) s)) (\<lambda>_.
        bindp (fetch_jwks N (op_jwks_uri self)) (\<lambda>set.
        modifyp (\<lambda>s. set_keys self (\<lambda>k. k\<lparr>ck_set := set, ck_fetched_at := as_now s\<rparr>) s))) s)"

definition key_usable :: "jwt_library \<Rightarrow> jwk \<Rightarrow> jwt_algorithm \<Rightarrow> bool" where
  "key_usable L jwk alg \<longleftrightarrow>
     \<not> ((case jwk_key_algorithm jwk of None \<Rightarrow> False | Some a \<Rightarrow> jl_from_str L a \<noteq> Some alg) \<or>
        (case jwk_public_key_use jwk of None \<Rightarrow> False | Some usage \<Rightarrow> usage \<noteq> ''sig'') \<or>
        (case jwk_key_operations jwk of None \<Rightarrow> False | Some ops \<Rightarrow> ''verify'' \<notin> set ops))"

definition token_validation :: "oidc_provider \<Rightarrow> jwt_algorithm \<Rightarrow> validation" where
  "token_validation self alg =
     \<lparr>va_algorithm = alg, va_audience = oc_audiences (op_config self),
      va_issuer = [oc_issuer (op_config self)],
      va_required_spec_claims = [''exp'', ''aud'', ''iss'', ''sub''],
      va_validate_nbf = True, va_leeway = oc_clock_skew_seconds (op_config self)\<rparr>"

text \<open>The part of \<open>verify\<close> that looks at the cached keys and refreshes them.\<close>

definition ensure_keys :: "jwt_library \<Rightarrow> network \<Rightarrow> oidc_provider \<Rightarrow> string \<Rightarrow> (auth_state, string, unit) prog" where
  "ensure_keys L N self kid s =
     (let keys = keys_of self s;
          stale = (seconds (oc_jwks_refresh_seconds (op_config self)) \<le> as_now s - ck_fetched_at keys);
          known_key = (jl_find L (ck_set keys) kid \<noteq> None)
      in if stale \<or> \<not> known_key
         then (case refresh_keys L N self kid s of
                 (Inl e, t) \<Rightarrow> (if \<not> known_key then (Inl e, t) else (Inr (), t))
               | (Inr _, t) \<Rightarrow> (Inr (), t))
         else (Inr (), s))"

definition verify ::
  "jwt_library \<Rightarrow> network \<Rightarrow> oidc_provider \<Rightarrow> string \<Rightarrow> (auth_state, string, json) prog" where
  "verify L N self token =
     bindp (liftr (jl_decode_header L token)) (\<lambda>header.
     bindp (liftr (ok_or ''JWT header is missing kid'' (jh_kid header))) (\<lambda>kid.
     bindp (ensurep (jh_alg header \<in> set (op_algorithms self)) ''JWT uses a disallowed signing algorithm'') (\<lambda>_.
     bindp (ensure_keys L N self kid) (\<lambda>_.
     bindp (\<lambda>s. (ok_or ''JWT signing key was not found'' (jl_find L (ck_set (keys_of self s)) kid), s)) (\<lambda>jwk.
     bindp (ensurep (key_usable L jwk (jh_alg header)) ''JWT signing key is not valid for this algorithm'') (\<lambda>_.
     bindp (liftr (jl_from_jwk L jwk)) (\<lambda>key.
       (\<lambda>s. (jl_decode L (as_now s) token key (token_validation self (jh_alg header)), s)))))))))"

section \<open>Authorization\<close>

definition unverified_issuer :: "jwt_library \<Rightarrow> string \<Rightarrow> string + string" where
  "unverified_issuer L token =
     (case split_on (CHR ''.'') token of
        [header, payload, signature] \<Rightarrow>
          bind_result (jl_base64_decode L payload) (\<lambda>bytes.
          bind_result (jl_from_slice L bytes) (\<lambda>claims.
          ok_or ''JWT is missing issuer'' (Option.bind (json_get claims ''iss'') as_str)))
      | _ # _ # _ # _ # _ \<Rightarrow> Inl ''JWT has too many segments''
      | _ \<Rightarrow> Inl ''JWT is missing a segment'')"

definition rule_authorizes :: "oidc_rule \<Rightarrow> json \<Rightarrow> access \<Rightarrow> string \<Rightarrow> bool" where
  "rule_authorizes rule claims access ns \<longleftrightarrow>
     matches_claims rule claims \<and> list_ex (\<lambda>pattern. matches_namespace pattern ns) (rule_patterns rule access)"

definition authorize_token ::
  "jwt_library \<Rightarrow> network \<Rightarrow> authorizer \<Rightarrow> string \<Rightarrow> access \<Rightarrow> string \<Rightarrow> (auth_state, api_error, string) prog" where
  "authorize_token L N self token access ns =
     (case find (\<lambda>grant. constant_time_eq (as_bytes (tg_token grant)) (as_bytes token)) (au_grants self) of
        Some grant \<Rightarrow> liftr (authorize_patterns (grant_patterns grant access) ns)
      | None \<Rightarrow>
          bindp (liftr (map_err (\<lambda>_. unauthorized ''invalid bearer token'') (unverified_issuer L token))) (\<lambda>issuer.
          bindp (liftr (ok_or (unauthorized ''invalid bearer token'')
                   (find (\<lambda>provider. oc_issuer (op_config provider) = issuer) (au_oidc self)))) (\<lambda>provider.
          bindp (map_errp (\<lambda>_. unauthorized ''invalid bearer token'') (verify L N provider token)) (\<lambda>claims.
            if list_ex (\<lambda>rule. rule_authorizes rule claims access ns) (oc_rules (op_config provider))
            then ok ns
            else throw (forbidden ''identity is not authorized for this namespace'')))))"

text \<open>The request names a valid namespace: is it open, or does the caller's token cover it?\<close>

definition authorize_namespace ::
  "jwt_library \<Rightarrow> network \<Rightarrow> authorizer \<Rightarrow> header_map \<Rightarrow> access \<Rightarrow> string \<Rightarrow> (auth_state, api_error, string) prog" where
  "authorize_namespace L N self headers access ns =
     (if au_allow_anonymous self \<and> au_grants self = [] \<and> au_oidc self = [] then ok ns
      else if access = Read \<and>
        list_ex (\<lambda>pattern. matches_namespace pattern ns) (au_anonymous_read_namespaces self) then ok ns
      else
        bindp (liftr (ok_or (unauthorized ''a bearer token is required'')
          (Option.bind (headers ''authorization'') (strip_prefix ''Bearer '')))) (\<lambda>token.
        authorize_token L N self token access ns))"

definition authorize ::
  "jwt_library \<Rightarrow> network \<Rightarrow> authorizer \<Rightarrow> header_map \<Rightarrow> access \<Rightarrow> (auth_state, api_error, string) prog" where
  "authorize L N self headers access =
     (if headers ''mbx-cache-protocol'' \<noteq> Some ''1'' then throw upgrade_required
      else
        bindp (liftr (ok_or (bad_request ''a valid Mbx-Cache-Namespace header is required'')
          (Option.bind (headers ''mbx-cache-namespace'') (\<lambda>value. if valid_namespace value then Some value else None))))
        (authorize_namespace L N self headers access))"

section \<open>Construction\<close>

text \<open>The JSON options, parsed by the serialisation library; an absent option is an empty list.\<close>

definition parse_json_array :: "(string \<Rightarrow> string + 'a list) \<Rightarrow> string option \<Rightarrow> string \<Rightarrow> string + 'a list" where
  "parse_json_array from_str json label =
     map_err (\<lambda>_. ''parse '' @ label @ '' JSON'')
       (case json of None \<Rightarrow> Inr [] | Some text \<Rightarrow> from_str text)"

record auth_parsers =
  pa_grants :: "string \<Rightarrow> string + token_grant list"
  pa_providers :: "string \<Rightarrow> string + oidc_provider_config list"
  pa_namespaces :: "string \<Rightarrow> string + string list"

fun new_providers ::
  "jwt_library \<Rightarrow> network \<Rightarrow> string set \<Rightarrow> oidc_provider_config list
     \<Rightarrow> (auth_state, string, oidc_provider list) prog" where
  "new_providers L N issuers [] = ok []"
| "new_providers L N issuers (config # configs) =
     (if oc_issuer config \<in> issuers
      then throw (''OIDC issuer '' @ debug_str (oc_issuer config) @ '' is configured more than once'')
      else
        bindp (OidcProvider_new L N config) (\<lambda>provider.
        bindp (new_providers L N (insert (oc_issuer config) issuers) configs) (\<lambda>providers.
          ok (provider # providers))))"

definition Authorizer_new ::
  "jwt_library \<Rightarrow> network \<Rightarrow> auth_parsers \<Rightarrow> string option \<Rightarrow> string option \<Rightarrow> bool \<Rightarrow> string option
     \<Rightarrow> (auth_state, string, authorizer) prog" where
  "Authorizer_new L N A tokens_json oidc_providers_json allow_anonymous anonymous_read_namespaces_json =
     bindp (liftr (parse_json_array (pa_grants A) tokens_json ''token grants'')) (\<lambda>grants.
     bindp (liftr (parse_json_array (pa_providers A) oidc_providers_json ''OIDC providers'')) (\<lambda>configs.
     bindp (liftr (parse_json_array (pa_namespaces A) anonymous_read_namespaces_json
              ''anonymous read namespace patterns'')) (\<lambda>namespaces.
     bindp (new_providers L N {} configs) (\<lambda>oidc.
       ok \<lparr>au_grants = grants, au_oidc = oidc, au_allow_anonymous = allow_anonymous,
           au_anonymous_read_namespaces = namespaces\<rparr>))))"

end
