(* ===== verification/Model.thy ===== *)
theory Model
  imports Protocol
begin

text \<open>
  \<^verbatim>\<open>src/model.rs\<close>: the typed action descriptors and client metadata the service understands,
  and the checks on their values. A \<^verbatim>\<open>BTreeMap\<close> is the list of its entries in key order.
\<close>

section \<open>Tasks\<close>

datatype task_phase = PhaseNormal | PhasePost

record task_run_single =
  trs_task :: string
  trs_args :: "string list"
  trs_env :: "(string \<times> string) list"

record task_run_group =
  trg_tasks :: "string list"

datatype task_run_entry = Script string | Single task_run_single | Group task_run_group

record task_command_input =
  tci_command :: string
  tci_stdout_hash :: string
  tci_stderr_hash :: string

record task_action =
  ta_version :: u8
  ta_kind :: string
  ta_task :: string
  ta_phase :: task_phase
  ta_run :: "task_run_entry list"
  ta_args :: "string list"
  ta_shell :: "string option"
  ta_outputs :: "string list"
  ta_root :: string
  ta_source_hash :: string
  ta_dependency_keys :: "string list"
  ta_environment :: "(string \<times> string option) list"
  ta_command_inputs :: "task_command_input list"
  ta_vars :: "(string \<times> string) list"
  ta_tools :: "string list"
  ta_os :: string
  ta_arch :: string

datatype task_output_stream = Stdout | Stderr

record task_output =
  to_stream :: task_output_stream
  to_line :: string

record task_metadata =
  tmd_version :: u8
  tmd_kind :: string
  tmd_task_identity :: string
  tmd_roots :: "string list"
  tmd_output :: "task_output list"
  tmd_restored_bytes :: u64
  tmd_execution_duration_ns :: u64

section \<open>Compilers and build scripts\<close>

record rustc_compiler =
  rc_toolchain :: string
  rc_rustc_version :: string
  rc_host :: string

record rustc_input =
  ri_path :: string
  ri_digest :: digest

record rustc_linker_identity =
  rl_driver :: string
  rl_driver_version :: string
  rl_linker_version :: string
  rl_crt_objects :: "(string \<times> digest) list"
  rl_sdk :: "string option"
  rl_deployment_target :: "string option"

record rustc_action =
  ra_version :: u8
  ra_kind :: string
  ra_adapter_version :: u8
  ra_compiler :: rustc_compiler
  ra_arguments :: "string list"
  ra_environment :: "(string \<times> string option) list"
  ra_inputs :: "rustc_input list"
  ra_linker :: "rustc_linker_identity option"

record cc_compiler =
  ccc_assembler :: string
  ccc_family :: string
  ccc_target :: string
  ccc_version_text :: string

record cc_input =
  ci_digest :: digest
  ci_path :: string

record cc_action =
  ca_version :: u8
  ca_kind :: string
  ca_adapter_version :: u8
  ca_assembly_input_model :: "u8 option"
  ca_compiler :: cc_compiler
  ca_arguments :: "string list"
  ca_environment :: "(string \<times> string option) list"
  ca_inputs :: "cc_input list"

datatype build_script_input =
    InputMissing
  | InputFile digest
  | InputDirectory digest
  | InputSymlink string build_script_input

record build_script_action =
  ba_version :: u8
  ba_kind :: string
  ba_binary_action :: digest
  ba_cargo_environment :: "(string \<times> string option) list"
  ba_environment :: "(string \<times> string option) list"
  ba_inputs :: "(string \<times> build_script_input) list"
  ba_out_dir :: "string option"

record build_script_metadata =
  bm_version :: u8
  bm_kind :: string
  bm_stdout :: digest
  bm_stderr :: digest

section \<open>Strings\<close>

definition valid_string :: "string \<Rightarrow> bool" where
  "valid_string value \<longleftrightarrow> CHR 0x00 \<notin> set value"

definition valid_strings :: "string list \<Rightarrow> bool" where
  "valid_strings values \<longleftrightarrow> list_all valid_string values"

definition valid_string_map :: "(string \<times> string) list \<Rightarrow> bool" where
  "valid_string_map values \<longleftrightarrow> list_all (\<lambda>(key, value). valid_string key \<and> valid_string value) values"

definition is_none_or :: "('a \<Rightarrow> bool) \<Rightarrow> 'a option \<Rightarrow> bool" where
  "is_none_or f x = (case x of None \<Rightarrow> True | Some y \<Rightarrow> f y)"

definition valid_optional_string_map :: "(string \<times> string option) list \<Rightarrow> bool" where
  "valid_optional_string_map values \<longleftrightarrow>
     list_all (\<lambda>(key, value). key \<noteq> [] \<and> valid_string key \<and> is_none_or valid_string value) values"

definition valid_normalized_path :: "string \<Rightarrow> bool" where
  "valid_normalized_path path =
     (case Option.bind (strip_prefix ''${'' path) (split_once (CHR ''}'')) of
        None \<Rightarrow> False
      | Some (placeholder, suffix) \<Rightarrow>
          if placeholder = [] \<or> \<not> list_all (\<lambda>b. is_ascii_alphanumeric b \<or> b = CHR ''_'') placeholder
          then False
          else suffix = [] \<or>
            (case strip_prefix ''/'' suffix of
               None \<Rightarrow> False
             | Some suffix \<Rightarrow>
                 suffix \<noteq> [] \<and> CHR 0x5C \<notin> set suffix \<and> CHR 0x00 \<notin> set suffix \<and>
                 list_all (\<lambda>c. c \<noteq> [] \<and> c \<noteq> ''.'' \<and> c \<noteq> ''..'') (split_on (CHR ''/'') suffix)))"

section \<open>Task checks\<close>

fun TaskRunEntry_validate :: "task_run_entry \<Rightarrow> bool" where
  "TaskRunEntry_validate (Script script) \<longleftrightarrow> valid_string script"
| "TaskRunEntry_validate (Single entry) \<longleftrightarrow>
     valid_string (trs_task entry) \<and> valid_strings (trs_args entry) \<and> valid_string_map (trs_env entry)"
| "TaskRunEntry_validate (Group entry) \<longleftrightarrow> valid_strings (trg_tasks entry)"

definition TaskCommandInput_validate :: "task_command_input \<Rightarrow> bool" where
  "TaskCommandInput_validate self \<longleftrightarrow>
     valid_string (tci_command self) \<and> valid_string (tci_stdout_hash self) \<and>
     valid_string (tci_stderr_hash self)"

definition TaskAction_validate :: "task_action \<Rightarrow> bool" where
  "TaskAction_validate self \<longleftrightarrow>
     ta_version self = 1 \<and> ta_kind self = ''task'' \<and> valid_string (ta_task self) \<and>
     (case ta_phase self of PhaseNormal \<Rightarrow> True | PhasePost \<Rightarrow> True) \<and>
     list_all TaskRunEntry_validate (ta_run self) \<and> valid_strings (ta_args self) \<and>
     is_none_or valid_string (ta_shell self) \<and> valid_strings (ta_outputs self) \<and>
     valid_string (ta_root self) \<and> valid_string (ta_source_hash self) \<and>
     valid_strings (ta_dependency_keys self) \<and>
     list_all (\<lambda>(key, value). valid_string key \<and> is_none_or valid_string value) (ta_environment self) \<and>
     list_all TaskCommandInput_validate (ta_command_inputs self) \<and> valid_string_map (ta_vars self) \<and>
     valid_strings (ta_tools self) \<and> valid_string (ta_os self) \<and> valid_string (ta_arch self)"

definition TaskOutput_validate :: "task_output \<Rightarrow> bool" where
  "TaskOutput_validate self \<longleftrightarrow>
     (case to_stream self of Stdout \<Rightarrow> True | Stderr \<Rightarrow> True) \<and> valid_string (to_line self)"

definition TaskMetadata_validate :: "task_metadata \<Rightarrow> bool" where
  "TaskMetadata_validate self \<longleftrightarrow>
     tmd_version self = 1 \<and> tmd_kind self = ''task'' \<and> valid_string (tmd_task_identity self) \<and>
     valid_strings (tmd_roots self) \<and> list_all TaskOutput_validate (tmd_output self)"

section \<open>Compiler checks\<close>

text \<open>The loop that checks every input and that no path occurs twice.\<close>

fun check_inputs :: "('i \<Rightarrow> bool) \<Rightarrow> ('i \<Rightarrow> string) \<Rightarrow> string set \<Rightarrow> 'i list \<Rightarrow> bool" where
  "check_inputs validate path input_paths [] \<longleftrightarrow> True"
| "check_inputs validate path input_paths (i # is) \<longleftrightarrow>
     validate i \<and> path i \<notin> input_paths \<and> check_inputs validate path (insert (path i) input_paths) is"

definition RustcCompiler_validate :: "rustc_compiler \<Rightarrow> bool" where
  "RustcCompiler_validate self \<longleftrightarrow>
     list_all (\<lambda>value. value \<noteq> [] \<and> valid_string value)
       [rc_toolchain self, rc_rustc_version self, rc_host self]"

definition RustcInput_validate :: "protocol \<Rightarrow> rustc_input \<Rightarrow> bool" where
  "RustcInput_validate P self \<longleftrightarrow> valid_normalized_path (ri_path self) \<and> digest_validate P (ri_digest self)"

definition RustcLinkerIdentity_validate :: "protocol \<Rightarrow> rustc_linker_identity \<Rightarrow> bool" where
  "RustcLinkerIdentity_validate P self \<longleftrightarrow>
     list_all (\<lambda>value. value \<noteq> [] \<and> valid_string value)
       [rl_driver self, rl_driver_version self, rl_linker_version self] \<and>
     list_all (\<lambda>(name, d). name \<noteq> [] \<and> valid_string name \<and> digest_validate P d) (rl_crt_objects self) \<and>
     is_none_or (\<lambda>value. value \<noteq> [] \<and> valid_string value) (rl_sdk self) \<and>
     is_none_or (\<lambda>value. value \<noteq> [] \<and> valid_string value) (rl_deployment_target self)"

definition RustcAction_validate :: "protocol \<Rightarrow> rustc_action \<Rightarrow> bool" where
  "RustcAction_validate P self \<longleftrightarrow>
     ra_version self = 1 \<and> ra_kind self = ''rustc'' \<and> ra_adapter_version self > 0 \<and>
     RustcCompiler_validate (ra_compiler self) \<and> valid_strings (ra_arguments self) \<and>
     list_all (\<lambda>(key, value). key \<noteq> [] \<and> valid_string key \<and> is_none_or valid_string value)
       (ra_environment self) \<and>
     ra_inputs self \<noteq> [] \<and> check_inputs (RustcInput_validate P) ri_path {} (ra_inputs self) \<and>
     is_none_or (RustcLinkerIdentity_validate P) (ra_linker self)"

definition CcCompiler_validate :: "cc_compiler \<Rightarrow> bool" where
  "CcCompiler_validate self \<longleftrightarrow>
     valid_string (ccc_assembler self) \<and>
     list_all (\<lambda>value. value \<noteq> [] \<and> valid_string value)
       [ccc_family self, ccc_target self, ccc_version_text self]"

definition CcInput_validate :: "protocol \<Rightarrow> cc_input \<Rightarrow> bool" where
  "CcInput_validate P self \<longleftrightarrow>
     ci_path self \<noteq> [] \<and> valid_string (ci_path self) \<and> digest_validate P (ci_digest self)"

definition CcAction_validate :: "protocol \<Rightarrow> cc_action \<Rightarrow> bool" where
  "CcAction_validate P self \<longleftrightarrow>
     ca_version self = 1 \<and> ca_kind self = ''cc'' \<and> ca_adapter_version self > 0 \<and>
     is_none_or (\<lambda>version. version = 1) (ca_assembly_input_model self) \<and>
     CcCompiler_validate (ca_compiler self) \<and> valid_strings (ca_arguments self) \<and>
     valid_optional_string_map (ca_environment self) \<and> ca_inputs self \<noteq> [] \<and>
     check_inputs (CcInput_validate P) ci_path {} (ca_inputs self)"

section \<open>Build-script checks\<close>

fun BuildScriptInput_validate :: "protocol \<Rightarrow> build_script_input \<Rightarrow> nat \<Rightarrow> bool" where
  "BuildScriptInput_validate P self depth =
     (if depth > 64 then False
      else (case self of
              InputMissing \<Rightarrow> True
            | InputFile d \<Rightarrow> digest_validate P d
            | InputDirectory d \<Rightarrow> digest_validate P d
            | InputSymlink target referent \<Rightarrow>
                valid_string target \<and> BuildScriptInput_validate P referent (depth + 1)))"

declare BuildScriptInput_validate.simps [simp del]

definition BuildScriptAction_validate :: "protocol \<Rightarrow> build_script_action \<Rightarrow> bool" where
  "BuildScriptAction_validate P self \<longleftrightarrow>
     ba_version self = 2 \<and> ba_kind self = ''build-script'' \<and> digest_validate P (ba_binary_action self) \<and>
     valid_optional_string_map (ba_cargo_environment self) \<and>
     valid_optional_string_map (ba_environment self) \<and>
     list_all (\<lambda>(path, input). valid_string path \<and> path \<noteq> [] \<and> BuildScriptInput_validate P input 0)
       (ba_inputs self) \<and>
     is_none_or valid_string (ba_out_dir self)"

definition BuildScriptMetadata_validate :: "protocol \<Rightarrow> build_script_metadata \<Rightarrow> bool" where
  "BuildScriptMetadata_validate P self \<longleftrightarrow>
     bm_version self = 1 \<and> bm_kind self = ''build-script'' \<and>
     digest_validate P (bm_stdout self) \<and> digest_validate P (bm_stderr self)"

section \<open>Lemmas\<close>

lemma check_inputs_iff:
  "check_inputs validate path seen is \<longleftrightarrow>
     (\<forall>i\<in>set is. validate i) \<and> distinct (map path is) \<and> set (map path is) \<inter> seen = {}"
  by (induction "is" arbitrary: seen) auto

text \<open>The digests and link targets an input names, and how many links lead to its last referent.\<close>

fun input_links :: "build_script_input \<Rightarrow> nat" where
  "input_links (InputSymlink target referent) = Suc (input_links referent)"
| "input_links _ = 0"

fun input_ok :: "protocol \<Rightarrow> build_script_input \<Rightarrow> bool" where
  "input_ok P InputMissing \<longleftrightarrow> True"
| "input_ok P (InputFile d) \<longleftrightarrow> digest_validate P d"
| "input_ok P (InputDirectory d) \<longleftrightarrow> digest_validate P d"
| "input_ok P (InputSymlink target referent) \<longleftrightarrow> valid_string target \<and> input_ok P referent"

lemma BuildScriptInput_validate_iff:
  "BuildScriptInput_validate P i depth \<longleftrightarrow> depth + input_links i \<le> 64 \<and> input_ok P i"
proof (induction i arbitrary: depth)
  case (InputSymlink target referent)
  show ?case by (subst BuildScriptInput_validate.simps) (auto simp: InputSymlink)
next
  case InputMissing
  show ?case by (subst BuildScriptInput_validate.simps) auto
next
  case (InputFile d)
  show ?case by (subst BuildScriptInput_validate.simps) auto
next
  case (InputDirectory d)
  show ?case by (subst BuildScriptInput_validate.simps) auto
qed

text \<open>
  Walking down a path from a root directory: the depth reached, or \<open>None\<close> once the path has
  left the root.
\<close>

fun walk :: "nat \<Rightarrow> string list \<Rightarrow> nat option" where
  "walk depth [] = Some depth"
| "walk depth (c # cs) =
     (if c = ''..'' then (case depth of 0 \<Rightarrow> None | Suc d \<Rightarrow> walk d cs)
      else if c = [] \<or> c = ''.'' then walk depth cs else walk (Suc depth) cs)"

lemma walk_plain:
  "list_all (\<lambda>c. c \<noteq> [] \<and> c \<noteq> ''.'' \<and> c \<noteq> ''..'') cs \<Longrightarrow> walk depth cs = Some (depth + length cs)"
  by (induction cs arbitrary: depth) auto

lemma case_strip_prefix:
  "(case strip_prefix p s of None \<Rightarrow> False | Some r \<Rightarrow> Q r) \<longleftrightarrow> (\<exists>r. s = p @ r \<and> Q r)"
proof (cases "strip_prefix p s")
  case None
  then have "s \<noteq> p @ r" for r by (metis option.distinct(1) strip_prefix_Some_iff)
  with None show ?thesis by simp
next
  case (Some r)
  then have "s = p @ r" by (simp add: strip_prefix_Some_iff)
  with Some show ?thesis by auto
qed

lemma valid_normalized_path_iff:
  "valid_normalized_path path \<longleftrightarrow>
     (\<exists>placeholder suffix. path = ''${'' @ placeholder @ ''}'' @ suffix \<and> placeholder \<noteq> [] \<and>
        list_all (\<lambda>b. is_ascii_alphanumeric b \<or> b = CHR ''_'') placeholder \<and>
        (suffix = [] \<or>
         (\<exists>rest. suffix = ''/'' @ rest \<and> rest \<noteq> [] \<and> CHR 0x5C \<notin> set rest \<and> CHR 0x00 \<notin> set rest \<and>
           list_all (\<lambda>c. c \<noteq> [] \<and> c \<noteq> ''.'' \<and> c \<noteq> ''..'') (split_on (CHR ''/'') rest))))"
proof -
  have close: "CHR ''}'' \<notin> set placeholder"
    if "list_all (\<lambda>b. is_ascii_alphanumeric b \<or> b = CHR ''_'') placeholder" for placeholder
    using that by (auto simp: list_all_iff is_ascii_alphanumeric_def)
  have sp: "Option.bind (strip_prefix ''${'' path) (split_once (CHR ''}'')) = Some (a, b) \<longleftrightarrow>
      path = ''${'' @ a @ ''}'' @ b \<and> CHR ''}'' \<notin> set a" for a b
    by (auto simp: bind_eq_Some_conv strip_prefix_Some_iff split_once_Some_iff)
  show ?thesis
  proof (cases "Option.bind (strip_prefix ''${'' path) (split_once (CHR ''}''))")
    case None
    then have "\<not> valid_normalized_path path" by (simp add: valid_normalized_path_def)
    moreover have "path \<noteq> ''${'' @ a @ ''}'' @ b" if "CHR ''}'' \<notin> set a" for a b
      using that sp [of a b] None by auto
    ultimately show ?thesis using close by blast
  next
    case (Some ab)
    obtain a b where ab: "ab = (a, b)" by force
    with Some sp have path: "path = ''${'' @ a @ ''}'' @ b" "CHR ''}'' \<notin> set a" by auto
    have unique: "a' = a \<and> b' = b" if "path = ''${'' @ a' @ ''}'' @ b'" "CHR ''}'' \<notin> set a'" for a' b'
      using that sp [of a' b'] Some ab by auto
    have "valid_normalized_path path \<longleftrightarrow> a \<noteq> [] \<and>
        list_all (\<lambda>b. is_ascii_alphanumeric b \<or> b = CHR ''_'') a \<and>
        (b = [] \<or>
         (\<exists>rest. b = ''/'' @ rest \<and> rest \<noteq> [] \<and> CHR 0x5C \<notin> set rest \<and> CHR 0x00 \<notin> set rest \<and>
           list_all (\<lambda>c. c \<noteq> [] \<and> c \<noteq> ''.'' \<and> c \<noteq> ''..'') (split_on (CHR ''/'') rest)))"
      using Some ab by (auto simp: valid_normalized_path_def case_strip_prefix simp del: split_on.simps)
    with path unique close show ?thesis by blast
  qed
qed

section \<open>Properties\<close>

text \<open>
  C38. A normalized compiler input path is a named placeholder followed by a path that cannot
  leave it: walking its components one never goes above the placeholder's directory, and ends
  as many levels below it as the path has components.
\<close>

theorem normalized_path_confined:
  assumes "valid_normalized_path path"
  shows "\<exists>placeholder suffix. path = ''${'' @ placeholder @ ''}'' @ suffix \<and> placeholder \<noteq> [] \<and>
    CHR ''/'' \<notin> set placeholder \<and>
    (suffix = [] \<or> (\<exists>rest. suffix = ''/'' @ rest \<and>
       walk 0 (split_on (CHR ''/'') rest) = Some (length (split_on (CHR ''/'') rest))))"
proof -
  from assms obtain placeholder suffix where p: "path = ''${'' @ placeholder @ ''}'' @ suffix"
    "placeholder \<noteq> []" "list_all (\<lambda>b. is_ascii_alphanumeric b \<or> b = CHR ''_'') placeholder"
    and s: "suffix = [] \<or> (\<exists>rest. suffix = ''/'' @ rest \<and>
      list_all (\<lambda>c. c \<noteq> [] \<and> c \<noteq> ''.'' \<and> c \<noteq> ''..'') (split_on (CHR ''/'') rest))"
    unfolding valid_normalized_path_iff by blast
  from p(3) have "CHR ''/'' \<notin> set placeholder" by (auto simp: list_all_iff is_ascii_alphanumeric_def)
  with p s walk_plain [of _ 0] show ?thesis by fastforce
qed

theorem normalized_path_confined_witness:
  "valid_normalized_path ''${WORKSPACE}/src/lib.rs'' \<and>
   (\<exists>placeholder suffix. ''${WORKSPACE}/src/lib.rs'' = ''${'' @ placeholder @ ''}'' @ suffix \<and>
      CHR ''/'' \<notin> set placeholder)"
proof -
  have v: "valid_normalized_path ''${WORKSPACE}/src/lib.rs''" by code_simp
  from normalized_path_confined [OF v] v show ?thesis by blast
qed

text \<open>
  C39. A build-script input is accepted exactly when its chain of symbolic links has at most 64
  links and every digest and link target on it is valid, so checking a hostile descriptor
  never recurses deeper than that.
\<close>

theorem build_script_input_bounded:
  "BuildScriptInput_validate P i 0 \<longleftrightarrow> input_links i \<le> 64 \<and> input_ok P i"
  by (simp add: BuildScriptInput_validate_iff)

text \<open>
  C40. The inputs of an accepted compiler action have pairwise different paths and valid digests,
  and those of a rustc action are normalized paths.
\<close>

theorem compiler_inputs_unambiguous:
  "(RustcAction_validate P r \<longrightarrow>
      ra_inputs r \<noteq> [] \<and> distinct (map ri_path (ra_inputs r)) \<and>
      (\<forall>i\<in>set (ra_inputs r). valid_normalized_path (ri_path i) \<and> digest_validate P (ri_digest i))) \<and>
   (CcAction_validate P c \<longrightarrow>
      ca_inputs c \<noteq> [] \<and> distinct (map ci_path (ca_inputs c)) \<and>
      (\<forall>i\<in>set (ca_inputs c). ci_path i \<noteq> [] \<and> valid_string (ci_path i) \<and> digest_validate P (ci_digest i)))"
  by (auto simp: RustcAction_validate_def CcAction_validate_def check_inputs_iff RustcInput_validate_def
      CcInput_validate_def)

definition example_input_digest :: digest where
  "example_input_digest = \<lparr>dg_algorithm = ''blake3'', dg_hash = replicate 64 (CHR ''b''), dg_size = 9\<rparr>"

definition example_rustc_action :: rustc_action where
  "example_rustc_action =
     \<lparr>ra_version = 1, ra_kind = ''rustc'', ra_adapter_version = 1,
      ra_compiler = \<lparr>rc_toolchain = ''stable'', rc_rustc_version = ''1.90'', rc_host = ''x86_64''\<rparr>,
      ra_arguments = [''--crate-name'', ''a''], ra_environment = [(''OUT'', None)],
      ra_inputs = [\<lparr>ri_path = ''${SRC}/a.rs'', ri_digest = example_input_digest\<rparr>,
                   \<lparr>ri_path = ''${SRC}/b.rs'', ri_digest = example_input_digest\<rparr>],
      ra_linker = None\<rparr>"

definition example_cc_action :: cc_action where
  "example_cc_action =
     \<lparr>ca_version = 1, ca_kind = ''cc'', ca_adapter_version = 1, ca_assembly_input_model = None,
      ca_compiler = \<lparr>ccc_assembler = [], ccc_family = ''gcc'', ccc_target = ''x86_64'', ccc_version_text = ''14''\<rparr>,
      ca_arguments = [''-c''], ca_environment = [],
      ca_inputs = [\<lparr>ci_digest = example_input_digest, ci_path = ''/usr/include/stdio.h''\<rparr>]\<rparr>"

theorem compiler_inputs_unambiguous_witness:
  "RustcAction_validate reference_protocol example_rustc_action \<and>
   distinct (map ri_path (ra_inputs example_rustc_action)) \<and>
   CcAction_validate reference_protocol example_cc_action \<and>
   distinct (map ci_path (ca_inputs example_cc_action))"
proof -
  have "RustcAction_validate reference_protocol example_rustc_action"
    and "CcAction_validate reference_protocol example_cc_action" by code_simp+
  with compiler_inputs_unambiguous [of reference_protocol example_rustc_action example_cc_action]
  show ?thesis by blast
qed

end
