(* ===== verification/Pack_Language.thy ===== *)
theory Pack_Language
  imports Pack
begin

text \<open>
  The byte streams the reader of \<^verbatim>\<open>src/pack.rs\<close> accepts: exactly the framed encodings
  of blob lists within the declared limits, however the stream is cut into chunks.
\<close>

section \<open>The language the reader accepts\<close>

text \<open>
  The format the documentation describes: the magic, then one frame per blob. A frame is
  its algorithm, its raw hash and its payload.
\<close>

type_synonym frame = "algorithm \<times> bytes \<times> bytes"

fun frame_tag :: "algorithm \<Rightarrow> u8" where
  "frame_tag Blake3 = 1"
| "frame_tag Sha256 = 2"

fun frame_bytes :: "frame \<Rightarrow> bytes" where
  "frame_bytes (a, raw, p) = frame_tag a # raw @ to_be_bytes (of_nat (length p)) @ p"

fun frame_digest :: "protocol \<Rightarrow> frame \<Rightarrow> digest" where
  "frame_digest P (a, raw, p) =
     \<lparr>dg_algorithm = algorithm_str P a, dg_hash = hex_encode P raw, dg_size = of_nat (length p)\<rparr>"

fun frame_payload :: "frame \<Rightarrow> bytes" where
  "frame_payload (a, raw, p) = p"

fun frame_fits :: "u64 \<Rightarrow> frame \<Rightarrow> bool" where
  "frame_fits max_blob (a, raw, p) \<longleftrightarrow> length raw = 32 \<and> length p \<le> unat max_blob"

definition frame_tokens :: "protocol \<Rightarrow> frame \<Rightarrow> pack_token list" where
  "frame_tokens P f = TStarted (frame_digest P f) # map TByte (frame_payload f) @ [TComplete]"

definition pack_stream :: "protocol \<Rightarrow> frame list \<Rightarrow> bytes" where
  "pack_stream P fs = pack_magic P @ concat (map frame_bytes fs)"

definition payload_total :: "frame list \<Rightarrow> nat" where
  "payload_total fs = (\<Sum>f\<leftarrow>fs. length (frame_payload f))"

definition within_limits :: "u64 \<Rightarrow> u64 \<Rightarrow> u64 \<Rightarrow> frame list \<Rightarrow> bool" where
  "within_limits max_blob max_blobs max_payload fs \<longleftrightarrow>
     (\<forall>f\<in>set fs. frame_fits max_blob f) \<and> length fs \<le> unat max_blobs \<and>
     payload_total fs \<le> unat max_payload"

abbreviation run :: "protocol \<Rightarrow> pack_reader \<Rightarrow> bytes \<Rightarrow> pack_error + pack_reader \<times> pack_token list" where
  "run P r rest \<equiv> outcome (push_loop P r rest [])"

lemma frame_tag_cases: "frame_tag a = 1 \<or> frame_tag a = 2"
  by (cases a) auto

lemma parse_header_bytes:
  assumes "length raw = 32" and "length sz = 8"
  shows "parse_header P (r\<lparr>pr_buffer := t # raw @ sz\<rparr>) =
     (if t = 1 \<or> t = 2 then
        if from_be_bytes sz > pr_max_blob_bytes r
        then Inl (BlobTooLarge (from_be_bytes sz) (pr_max_blob_bytes r))
        else Inr \<lparr>dg_algorithm = algorithm_str P (if t = 1 then Blake3 else Sha256),
                  dg_hash = hex_encode P raw, dg_size = from_be_bytes sz\<rparr>
      else Inl (AlgorithmError t))"
  using assms by (auto simp: parse_header_def HEADER_BYTES_def Let_def)

lemma run_header:
  assumes ok: "reader_ok P r" and st: "pr_state r = StHeader" and buf: "pr_buffer r = []"
    and len: "length hdr = HEADER_BYTES"
  shows "run P r (hdr @ rest) =
     (case parse_header P (r\<lparr>pr_buffer := hdr\<rparr>) of
        Inl e \<Rightarrow> Inl e
      | Inr d \<Rightarrow>
          if pr_blobs r + 1 > pr_max_blobs r then Inl (TooManyBlobs (pr_max_blobs r))
          else if dg_size d = 0
          then prepend [TStarted d, TComplete] (run P (r\<lparr>pr_blobs := pr_blobs r + 1\<rparr>) rest)
          else prepend [TStarted d]
                 (run P (r\<lparr>pr_blobs := pr_blobs r + 1, pr_remaining := dg_size d,
                           pr_state := StPayload\<rparr>) rest))"
proof -
  have "HEADER_BYTES > 0" and "hdr \<noteq> []"
    using len by (auto simp: HEADER_BYTES_def)
  moreover have upd: "r\<lparr>pr_buffer := [], pr_remaining := 0, pr_blobs := b, pr_state := StHeader\<rparr>
      = r\<lparr>pr_blobs := b\<rparr>" "r\<lparr>pr_buffer := [], pr_remaining := n, pr_blobs := b, pr_state := StPayload\<rparr>
      = r\<lparr>pr_blobs := b, pr_remaining := n, pr_state := StPayload\<rparr>" for b n
    using ok st buf by (simp_all add: reader_ok_def)
  ultimately show ?thesis
    using st buf len
    by (subst outcome_push_loop)
      (auto simp: push_round_def fill_eq Let_def upd split: sum.splits)
qed

lemma run_payload:
  assumes ok: "reader_ok P r" and st: "pr_state r = StPayload" and len: "length p = unat (pr_remaining r)"
  shows "run P r (p @ rest) =
     (if pr_payload_bytes r + pr_remaining r > pr_max_payload_bytes r
      then Inl (TooManyBytes (pr_max_payload_bytes r))
      else prepend (map TByte p @ [TComplete])
             (run P (r\<lparr>pr_remaining := 0, pr_payload_bytes := pr_payload_bytes r + pr_remaining r,
                       pr_state := StHeader\<rparr>) rest))"
proof -
  from ok st have "pr_remaining r \<noteq> 0" by (simp add: reader_ok_def)
  then have "p \<noteq> []" using len by (metis length_0_conv unat_eq_zero)
  moreover have "min (unat (pr_remaining r)) (length (p @ rest)) = length p" using len by simp
  moreover have "cut_payload r (length p) =
      r\<lparr>pr_remaining := 0, pr_payload_bytes := pr_payload_bytes r + pr_remaining r\<rparr>"
    using len by (simp add: cut_payload_def)
  ultimately show ?thesis
    using push_round_payload [OF st, of "p @ rest" "length p" P]
    by (subst outcome_push_loop) (simp add: payload_round_def)
qed

lemma run_payload_short:
  assumes ok: "reader_ok P r" and st: "pr_state r = StPayload" and len: "length rest < unat (pr_remaining r)"
    and res: "run P r rest = Inr (r', ts)"
  shows "finish r' \<noteq> Inr ()"
proof (cases "rest = []")
  case True
  with res st ok show ?thesis by (auto simp: outcome_push_loop_Nil finish_def)
next
  case False
  let ?c = "cut_payload r (length rest)"
  have n: "length rest = min (unat (pr_remaining r)) (length rest)" using len by simp
  have "unat (pr_remaining ?c) \<noteq> 0"
    using payload_step_ok(1) [OF ok, of "length rest"] len by (simp add: cut_payload_def)
  then have rem: "pr_remaining ?c \<noteq> 0" by (metis unsigned_0)
  with res push_round_payload [OF st False n, of P]
  have fits: "\<not> pr_payload_bytes ?c > pr_max_payload_bytes ?c"
    by (subst (asm) outcome_push_loop) (auto simp: payload_round_def split: if_splits)
  have "reader_ok P ?c"
    using reader_ok_cut [OF ok st len] fits by (simp add: cut_payload_def)
  with res push_round_payload [OF st False n, of P] rem fits have "r' = ?c"
    by (subst (asm) outcome_push_loop) (simp add: payload_round_def outcome_push_loop_Nil)
  with st show ?thesis by (simp add: finish_def cut_payload_def)
qed

text \<open>The reader between two frames, after some blobs and payload bytes.\<close>

definition at_boundary :: "pack_reader \<Rightarrow> u64 \<Rightarrow> u64 \<Rightarrow> pack_reader" where
  "at_boundary r b n = r\<lparr>pr_blobs := b, pr_payload_bytes := n\<rparr>"

lemma reader_ok_next_frame:
  assumes "reader_ok P r" and "pr_state r = StHeader" and "pr_buffer r = []"
    and "pr_blobs r + 1 \<le> pr_max_blobs r" and "sz \<le> pr_max_blob_bytes r" and "sz \<noteq> 0"
  shows "reader_ok P (r\<lparr>pr_blobs := pr_blobs r + 1, pr_remaining := sz, pr_state := StPayload\<rparr>)"
  using assms by (simp add: reader_ok_def limits_fit_def)

text \<open>
  The whole frame at once: what a complete header and a complete payload do to the reader.
\<close>

lemma run_frame:
  assumes ok: "reader_ok P r" and st: "pr_state r = StHeader" and buf: "pr_buffer r = []"
    and fits: "frame_fits (pr_max_blob_bytes r) f"
  shows "run P r (frame_bytes f @ rest) =
     (if pr_blobs r + 1 > pr_max_blobs r then Inl (TooManyBlobs (pr_max_blobs r))
      else if unat (pr_payload_bytes r) + length (frame_payload f) > unat (pr_max_payload_bytes r)
      then Inl (TooManyBytes (pr_max_payload_bytes r))
      else prepend (frame_tokens P f)
             (run P (at_boundary r (pr_blobs r + 1)
                       (pr_payload_bytes r + of_nat (length (frame_payload f)))) rest))"
proof -
  obtain a raw p where f: "f = (a, raw, p)" by (cases f)
  let ?sz = "of_nat (length p) :: u64"
  let ?hdr = "frame_tag a # raw @ to_be_bytes ?sz"
  let ?r1 = "r\<lparr>pr_blobs := pr_blobs r + 1, pr_remaining := ?sz, pr_state := StPayload\<rparr>"
  from fits f have raw: "length raw = 32" and le: "length p \<le> unat (pr_max_blob_bytes r)" by auto
  then have sz: "unat ?sz = length p" and szle: "?sz \<le> pr_max_blob_bytes r"
    by (simp_all add: word_le_nat_alt)
  have len: "length ?hdr = HEADER_BYTES" using raw by (simp add: HEADER_BYTES_def)
  have "parse_header P (r\<lparr>pr_buffer := ?hdr\<rparr>) = Inr (frame_digest P f)"
    using parse_header_bytes [OF raw, where sz = "to_be_bytes ?sz" and P = P and r = r and t = "frame_tag a"] szle f
    by (cases a) auto
  then have hdr: "run P r (frame_bytes f @ rest) =
     (if pr_blobs r + 1 > pr_max_blobs r then Inl (TooManyBlobs (pr_max_blobs r))
      else if p = [] then prepend [TStarted (frame_digest P f), TComplete]
                            (run P (r\<lparr>pr_blobs := pr_blobs r + 1\<rparr>) rest)
      else prepend [TStarted (frame_digest P f)] (run P ?r1 (p @ rest)))"
    using run_header [OF ok st buf len, of "p @ rest"] f sz by (auto simp: unat_eq_zero [symmetric])
  show ?thesis
  proof (cases "p = [] \<or> pr_blobs r + 1 > pr_max_blobs r")
    case True
    then show ?thesis
      using hdr f ok
      by (auto simp: frame_tokens_def at_boundary_def reader_ok_def word_le_nat_alt)
  next
    case False
    then have nz: "?sz \<noteq> 0" using sz by (metis length_0_conv unat_0)
    have ok1: "reader_ok P ?r1"
      using reader_ok_next_frame [OF ok st buf _ szle nz] False by (simp add: linorder_not_less)
    have pay: "unat (pr_payload_bytes r + ?sz) = unat (pr_payload_bytes r) + length p"
      using payload_step_ok(2) [OF ok1, of "length p"] sz by simp
    have upd: "?r1\<lparr>pr_remaining := 0, pr_payload_bytes := n, pr_state := StHeader\<rparr>
        = at_boundary r (pr_blobs r + 1) n" for n
      using ok st by (simp add: at_boundary_def reader_ok_def)
    show ?thesis
      using hdr f False run_payload [OF ok1 _ , of p rest] sz upd pay
      by (auto simp: frame_tokens_def word_less_nat_alt)
  qed
qed

lemma reader_ok_at_boundary:
  assumes "reader_ok P r" and "pr_state r = StHeader"
    and "b \<le> pr_max_blobs r" and "n \<le> pr_max_payload_bytes r"
  shows "reader_ok P (at_boundary r b n)"
  using assms by (simp add: reader_ok_def limits_fit_def at_boundary_def)

lemma payload_total_simps [simp]:
  "payload_total [] = 0" "payload_total (f # fs) = length (frame_payload f) + payload_total fs"
  by (simp_all add: payload_total_def)

lemma boundary_counts:
  assumes "reader_ok P r" and "unat (pr_blobs r) + 1 \<le> unat (pr_max_blobs r)"
    and "unat (pr_payload_bytes r) + n \<le> unat (pr_max_payload_bytes r)"
  shows "unat (pr_blobs r + 1) = unat (pr_blobs r) + 1"
    and "unat (pr_payload_bytes r + of_nat n) = unat (pr_payload_bytes r) + n"
proof -
  have "unat (pr_blobs r) + unat (1 :: u64) < 2 ^ 64"
    using assms(2) unat_less_2p64 [of "pr_max_blobs r"] by simp
  from unat_add_bounded [OF this] show "unat (pr_blobs r + 1) = unat (pr_blobs r) + 1" by simp
  have n: "unat (of_nat n :: u64) = n" using assms(3) unat_of_nat_small by (metis add_leD2)
  have "unat (pr_payload_bytes r) + unat (of_nat n :: u64) < 2 ^ 64"
    using assms(3) n unat_less_2p64 [of "pr_max_payload_bytes r"] by simp
  from unat_add_bounded [OF this] n
  show "unat (pr_payload_bytes r + of_nat n) = unat (pr_payload_bytes r) + n" by simp
qed

lemma at_boundary_simps [simp]:
  "pr_state (at_boundary r b n) = pr_state r" "pr_buffer (at_boundary r b n) = pr_buffer r"
  "pr_max_blob_bytes (at_boundary r b n) = pr_max_blob_bytes r"
  "pr_max_blobs (at_boundary r b n) = pr_max_blobs r"
  "pr_max_payload_bytes (at_boundary r b n) = pr_max_payload_bytes r"
  "pr_blobs (at_boundary r b n) = b" "pr_payload_bytes (at_boundary r b n) = n"
  "at_boundary (at_boundary r b n) c m = at_boundary r c m"
  "at_boundary r (pr_blobs r) (pr_payload_bytes r) = r"
  by (simp_all add: at_boundary_def)

lemma run_frames:
  "reader_ok P r \<Longrightarrow> pr_state r = StHeader \<Longrightarrow> pr_buffer r = [] \<Longrightarrow>
     \<forall>f\<in>set fs. frame_fits (pr_max_blob_bytes r) f \<Longrightarrow>
     unat (pr_blobs r) + length fs \<le> unat (pr_max_blobs r) \<Longrightarrow>
     unat (pr_payload_bytes r) + payload_total fs \<le> unat (pr_max_payload_bytes r) \<Longrightarrow>
     run P r (concat (map frame_bytes fs)) =
       Inr (at_boundary r (pr_blobs r + of_nat (length fs))
                          (pr_payload_bytes r + of_nat (payload_total fs)),
            concat (map (frame_tokens P) fs))"
proof (induction fs arbitrary: r)
  case Nil
  then show ?case by (simp add: outcome_push_loop_Nil)
next
  case (Cons f fs)
  let ?len = "length (frame_payload f)"
  let ?r1 = "at_boundary r (pr_blobs r + 1) (pr_payload_bytes r + of_nat ?len)"
  have counts: "unat (pr_blobs r + 1) = unat (pr_blobs r) + 1"
    "unat (pr_payload_bytes r + of_nat ?len) = unat (pr_payload_bytes r) + ?len"
    using boundary_counts [OF Cons.prems(1), of ?len] Cons.prems(5,6) by auto
  then have le: "pr_blobs r + 1 \<le> pr_max_blobs r"
    "pr_payload_bytes r + of_nat ?len \<le> pr_max_payload_bytes r"
    using Cons.prems(5,6) by (simp_all add: word_le_nat_alt)
  have "run P ?r1 (concat (map frame_bytes fs)) =
      Inr (at_boundary ?r1 (pr_blobs ?r1 + of_nat (length fs))
             (pr_payload_bytes ?r1 + of_nat (payload_total fs)),
           concat (map (frame_tokens P) fs))"
    using Cons.prems counts reader_ok_at_boundary [OF Cons.prems(1,2) le]
    by (intro Cons.IH) simp_all
  then have "run P ?r1 (concat (map frame_bytes fs)) =
      Inr (at_boundary r (pr_blobs r + of_nat (length (f # fs)))
             (pr_payload_bytes r + of_nat (payload_total (f # fs))),
           concat (map (frame_tokens P) fs))"
    by (simp add: algebra_simps)
  moreover have "run P r (frame_bytes f @ concat (map frame_bytes fs)) =
      prepend (frame_tokens P f) (run P ?r1 (concat (map frame_bytes fs)))"
    using run_frame [OF Cons.prems(1-3), of f] Cons.prems(4-6) le(1) by (auto simp: linorder_not_less)
  ultimately show ?case by simp
qed

text \<open>Conversely, whatever is read to a frame boundary is a list of frames.\<close>

lemma take_drop_header:
  assumes "HEADER_BYTES \<le> length rest"
  obtains t raw sz tail where "rest = (t # raw @ sz) @ tail" and "length raw = 32" and "length sz = 8"
proof -
  let ?hdr = "take HEADER_BYTES rest"
  have len: "length ?hdr = 41" using assms by (simp add: HEADER_BYTES_def)
  then obtain t h where h: "?hdr = t # h" by (cases ?hdr) auto
  have "rest = (t # take 32 h @ drop 32 h) @ drop HEADER_BYTES rest"
    using h by (metis append_take_drop_id)
  moreover have "length (take 32 h) = 32" "length (drop 32 h) = 8" using len h by simp_all
  ultimately show ?thesis using that by blast
qed

lemma run_header_short:
  assumes ok: "reader_ok P r" and st: "pr_state r = StHeader" and buf: "pr_buffer r = []"
    and len: "rest \<noteq> []" "length rest < HEADER_BYTES"
  shows "run P r rest = Inr (r\<lparr>pr_buffer := rest\<rparr>, [])"
  using st buf len by (subst outcome_push_loop) (auto simp: push_round_def fill_eq)

lemma run_header_parsed:
  assumes ok: "reader_ok P r" and st: "pr_state r = StHeader" and buf: "pr_buffer r = []"
    and raw: "length raw = 32" and sz: "length sz = 8"
    and res: "run P r ((t # raw @ sz) @ tail) = Inr (r', ts)"
  shows "t = 1 \<or> t = 2" and "from_be_bytes sz \<le> pr_max_blob_bytes r"
    and "pr_blobs r + 1 \<le> pr_max_blobs r"
    and "from_be_bytes sz \<noteq> 0 \<Longrightarrow>
      \<exists>us. run P (r\<lparr>pr_blobs := pr_blobs r + 1, pr_remaining := from_be_bytes sz,
                     pr_state := StPayload\<rparr>) tail = Inr (r', us)"
proof -
  have "length (t # raw @ sz) = HEADER_BYTES" by (simp add: raw sz HEADER_BYTES_def)
  note hdr = run_header [OF ok st buf this, of tail, unfolded parse_header_bytes [OF raw sz]]
  from hdr res show "t = 1 \<or> t = 2" "from_be_bytes sz \<le> pr_max_blob_bytes r"
    "pr_blobs r + 1 \<le> pr_max_blobs r"
    by (auto simp: linorder_not_less split: if_splits)
  assume nz: "from_be_bytes sz \<noteq> 0"
  let ?r1 = "r\<lparr>pr_blobs := pr_blobs r + 1, pr_remaining := from_be_bytes sz, pr_state := StPayload\<rparr>"
  from hdr res nz show "\<exists>us. run P ?r1 tail = Inr (r', us)"
    by (cases "run P ?r1 tail") (auto split: if_splits)
qed

lemma first_frame:
  assumes ok: "reader_ok P r" and st: "pr_state r = StHeader" and buf: "pr_buffer r = []"
    and res: "run P r rest = Inr (r', ts)" and fin: "finish r' = Inr ()" and ne: "rest \<noteq> []"
  obtains f tail where "rest = frame_bytes f @ tail" and "frame_fits (pr_max_blob_bytes r) f"
    and "pr_blobs r + 1 \<le> pr_max_blobs r"
proof -
  have "HEADER_BYTES \<le> length rest"
    using run_header_short [OF ok st buf ne] res fin ne
    by (fastforce simp: finish_def split: if_splits)
  then obtain t raw sz tail where rest: "rest = (t # raw @ sz) @ tail"
    and raw: "length raw = 32" and sz: "length sz = 8"
    by (rule take_drop_header)
  note parsed = run_header_parsed [OF ok st buf raw sz res [unfolded rest]]
  let ?n = "from_be_bytes sz"
  let ?r1 = "r\<lparr>pr_blobs := pr_blobs r + 1, pr_remaining := ?n, pr_state := StPayload\<rparr>"
  have tail: "unat ?n \<le> length tail"
  proof (rule ccontr)
    assume short: "\<not> unat ?n \<le> length tail"
    then have nz: "?n \<noteq> 0" by auto
    from parsed(4) [OF nz] obtain us where "run P ?r1 tail = Inr (r', us)" by blast
    moreover have "reader_ok P ?r1"
      using reader_ok_next_frame [OF ok st buf parsed(3,2) nz] .
    ultimately show False
      using run_payload_short [of P ?r1 tail r' us] short fin by simp
  qed
  let ?f = "((if t = 1 then Blake3 else Sha256), raw, take (unat ?n) tail)"
  have "rest = frame_bytes ?f @ drop (unat ?n) tail"
    using parsed(1) tail sz by (auto simp: rest)
  moreover have "frame_fits (pr_max_blob_bytes r) ?f"
    using raw tail parsed(2) by (simp add: word_le_nat_alt)
  ultimately show ?thesis using that parsed(3) by blast
qed

lemma run_complete_frames:
  "reader_ok P r \<Longrightarrow> pr_state r = StHeader \<Longrightarrow> pr_buffer r = [] \<Longrightarrow>
     run P r rest = Inr (r', ts) \<Longrightarrow> finish r' = Inr () \<Longrightarrow>
     \<exists>fs. rest = concat (map frame_bytes fs) \<and>
          (\<forall>f\<in>set fs. frame_fits (pr_max_blob_bytes r) f) \<and>
          unat (pr_blobs r) + length fs \<le> unat (pr_max_blobs r) \<and>
          unat (pr_payload_bytes r) + payload_total fs \<le> unat (pr_max_payload_bytes r)"
proof (induction "length rest" arbitrary: r rest ts rule: less_induct)
  case less
  note ok = less.prems(1) and st = less.prems(2) and buf = less.prems(3)
  show ?case
  proof (cases "rest = []")
    case True
    with ok show ?thesis by (intro exI [of _ "[]"]) (simp add: reader_ok_def word_le_nat_alt)
  next
    case False
    with less.prems obtain f tail where rest: "rest = frame_bytes f @ tail"
      and fits: "frame_fits (pr_max_blob_bytes r) f" and room: "pr_blobs r + 1 \<le> pr_max_blobs r"
      by (blast elim: first_frame)
    let ?len = "length (frame_payload f)"
    let ?r1 = "at_boundary r (pr_blobs r + 1) (pr_payload_bytes r + of_nat ?len)"
    from run_frame [OF ok st buf fits, of tail] less.prems(4) rest
    have pay: "unat (pr_payload_bytes r) + ?len \<le> unat (pr_max_payload_bytes r)"
      and run1: "\<exists>us. run P ?r1 tail = Inr (r', us)"
      by (auto simp: linorder_not_less split: if_splits) (cases "run P ?r1 tail"; auto)
    have blobs: "unat (pr_blobs r) + 1 \<le> unat (pr_max_blobs r)"
      using ok room unat_add_bounded [of "pr_blobs r" 1]
      by (auto simp: reader_ok_def limits_fit_def word_le_nat_alt)
    note counts = boundary_counts [OF ok blobs pay]
    have "length tail < length rest" using rest by (cases f) simp
    moreover have "reader_ok P ?r1"
      using room pay counts by (intro reader_ok_at_boundary [OF ok st]) (simp_all add: word_le_nat_alt)
    ultimately obtain fs where "tail = concat (map frame_bytes fs)"
      "\<forall>f\<in>set fs. frame_fits (pr_max_blob_bytes ?r1) f"
      "unat (pr_blobs ?r1) + length fs \<le> unat (pr_max_blobs ?r1)"
      "unat (pr_payload_bytes ?r1) + payload_total fs \<le> unat (pr_max_payload_bytes ?r1)"
      using less.hyps [of tail ?r1] run1 less.prems(5) st buf by auto
    with rest fits counts show ?thesis
      by (intro exI [of _ "f # fs"]) auto
  qed
qed

section \<open>Whole streams\<close>

lemma run_magic:
  assumes "pack_magic P \<noteq> []"
  shows "run P (PackReader_new mb mx mp) (pack_magic P @ rest) =
    run P (PackReader_new mb mx mp\<lparr>pr_state := StHeader\<rparr>) rest"
  using assms
  by (subst outcome_push_loop) (simp add: push_round_def fill_eq PackReader_new_def)

lemma run_magic_prefix:
  assumes "pack_magic P \<noteq> []" and "run P (PackReader_new mb mx mp) bs = Inr (r', ts)"
    and "finish r' = Inr ()"
  shows "\<exists>rest. bs = pack_magic P @ rest"
proof (rule ccontr)
  assume no: "\<nexists>rest. bs = pack_magic P @ rest"
  then have "take (length (pack_magic P)) bs \<noteq> pack_magic P" by (metis append_take_drop_id)
  then have "r' = PackReader_new mb mx mp\<lparr>pr_buffer := bs\<rparr>"
    using assms(1,2)
    by (subst (asm) outcome_push_loop) (auto simp: push_round_def fill_eq PackReader_new_def split: if_splits)
  with assms(3) show False by (simp add: finish_def PackReader_new_def split: if_splits)
qed

definition reads_pack ::
  "protocol \<Rightarrow> u64 \<Rightarrow> u64 \<Rightarrow> u64 \<Rightarrow> bytes list \<Rightarrow> pack_reader \<Rightarrow> pack_token list \<Rightarrow> bool" where
  "reads_pack P mb mx mp chunks r ts \<longleftrightarrow>
     (\<exists>es. feed P (PackReader_new mb mx mp) chunks = (r, Inr es) \<and> tokens es = ts) \<and> finish r = Inr ()"

lemma reads_pack_outcome:
  "reads_pack P mb mx mp chunks r ts \<longleftrightarrow>
     outcome (feed P (PackReader_new mb mx mp) chunks) = Inr (r, ts) \<and> finish r = Inr ()"
  by (cases "feed P (PackReader_new mb mx mp) chunks"; cases "snd (feed P (PackReader_new mb mx mp) chunks)")
    (auto simp: reads_pack_def)

subsection \<open>What was read so far\<close>

text \<open>The counters of the reader count what it has handed out, also in mid-stream.\<close>

fun started :: "pack_token list \<Rightarrow> nat" where
  "started [] = 0"
| "started (TStarted d # ts) = Suc (started ts)"
| "started (_ # ts) = started ts"

fun frames_ended :: "pack_token list \<Rightarrow> nat" where
  "frames_ended [] = 0"
| "frames_ended (TComplete # ts) = Suc (frames_ended ts)"
| "frames_ended (_ # ts) = frames_ended ts"

fun token_bytes :: "pack_token list \<Rightarrow> bytes" where
  "token_bytes [] = []"
| "token_bytes (TByte b # ts) = b # token_bytes ts"
| "token_bytes (_ # ts) = token_bytes ts"

lemma started_append [simp]: "started (ts @ us) = started ts + started us"
  by (induction ts rule: started.induct) auto

lemma frames_ended_append [simp]: "frames_ended (ts @ us) = frames_ended ts + frames_ended us"
  by (induction ts rule: frames_ended.induct) auto

lemma token_bytes_append [simp]: "token_bytes (ts @ us) = token_bytes ts @ token_bytes us"
  by (induction ts rule: token_bytes.induct) auto

lemma started_bytes [simp]:
  "started (map TByte bs) = 0" "frames_ended (map TByte bs) = 0" "token_bytes (map TByte bs) = bs"
  by (induction bs) auto

text \<open>The frame in progress, if there is one, has been started and not completed.\<close>

definition in_frame :: "pack_reader \<Rightarrow> nat" where
  "in_frame r = (if pr_state r = StPayload then 1 else 0)"

lemma push_round_completes:
  assumes "push_round P r rest = Next r' rest' ev"
  shows "started (tokens ev) + in_frame r = frames_ended (tokens ev) + in_frame r'"
  using assms
  by (cases "pr_state r")
    (auto simp: push_round_def in_frame_def Let_def split: prod.splits if_splits sum.splits)

lemma push_round_stop_frame:
  "push_round P r rest = Return r1 (Inr ()) \<Longrightarrow> in_frame r1 = in_frame r"
  by (auto simp: push_round_def fill_def in_frame_def Let_def
      split: reader_state.splits prod.splits if_splits sum.splits)

lemma run_completes:
  fixes events :: "pack_event list"
  shows "run P r rest = Inr (r', ts) \<Longrightarrow> started ts + in_frame r = frames_ended ts + in_frame r'"
proof (induction P r rest events arbitrary: ts rule: push_loop.induct)
  case (1 P r rest events)
  show ?case
  proof (cases "push_round P r rest")
    case (Return r1 res)
    then have "res = Inr () \<and> r' = r1 \<and> ts = []"
      using "1.prems" by (subst (asm) outcome_push_loop) (auto split: sum.splits)
    with push_round_stop_frame Return show ?thesis by simp
  next
    case (Next r1 rest1 ev)
    with "1.prems" obtain us where us: "run P r1 rest1 = Inr (r', us)" "ts = tokens ev @ us"
      by (cases "run P r1 rest1") (subst (asm) outcome_push_loop, auto)+
    with "1.IH" [OF Next us(1)] push_round_completes [OF Next] show ?thesis by simp
  qed
qed

lemma push_round_counts:
  assumes ok: "reader_ok P r" and step: "push_round P r rest = Next r' rest' ev"
  shows "unat (pr_blobs r') = unat (pr_blobs r) + started (tokens ev) \<and>
    unat (pr_payload_bytes r') = unat (pr_payload_bytes r) + length (token_bytes (tokens ev)) \<and>
    pr_max_blobs r' = pr_max_blobs r \<and> pr_max_payload_bytes r' = pr_max_payload_bytes r"
proof (cases "pr_state r")
  case StMagic
  with ok step show ?thesis
    by (auto simp: push_round_def reader_ok_def fill_eq split: if_splits)
next
  case StHeader
  have "unat (pr_blobs r + 1) = unat (pr_blobs r) + 1"
    using ok unat_add_bounded [of "pr_blobs r" 1]
    by (auto simp: reader_ok_def limits_fit_def word_le_nat_alt)
  with StHeader ok step show ?thesis
    by (auto simp: push_round_def reader_ok_def fill_eq Let_def split: if_splits sum.splits)
next
  case StPayload
  with step have "rest \<noteq> []" by (auto simp: push_round_def)
  let ?n = "min (unat (pr_remaining r)) (length rest)"
  have "unat (pr_payload_bytes (cut_payload r ?n)) = unat (pr_payload_bytes r) + ?n"
    using payload_step_ok(2) [OF ok, of ?n] by (simp add: cut_payload_def)
  moreover have "pr_blobs (cut_payload r ?n) = pr_blobs r"
    "pr_max_blobs (cut_payload r ?n) = pr_max_blobs r"
    "pr_max_payload_bytes (cut_payload r ?n) = pr_max_payload_bytes r"
    by (simp_all add: cut_payload_def)
  ultimately show ?thesis
    using step push_round_payload [OF StPayload \<open>rest \<noteq> []\<close> refl, of P]
    by (auto simp: payload_round_def split: if_splits)
qed

lemma push_round_stop_counts:
  "reader_ok P r \<Longrightarrow> push_round P r rest = Return r1 (Inr ()) \<Longrightarrow>
     pr_blobs r1 = pr_blobs r \<and> pr_payload_bytes r1 = pr_payload_bytes r \<and>
     pr_max_blobs r1 = pr_max_blobs r \<and> pr_max_payload_bytes r1 = pr_max_payload_bytes r"
  by (auto simp: push_round_def reader_ok_def fill_eq Let_def
      split: reader_state.splits if_splits sum.splits)

lemma run_counts:
  fixes events :: "pack_event list"
  shows "reader_ok P r \<Longrightarrow> run P r rest = Inr (r', ts) \<Longrightarrow>
     unat (pr_blobs r') = unat (pr_blobs r) + started ts \<and>
     unat (pr_payload_bytes r') = unat (pr_payload_bytes r) + length (token_bytes ts) \<and>
     pr_max_blobs r' = pr_max_blobs r \<and> pr_max_payload_bytes r' = pr_max_payload_bytes r"
proof (induction P r rest events arbitrary: ts rule: push_loop.induct)
  case (1 P r rest events)
  show ?case
  proof (cases "push_round P r rest")
    case (Return r1 res)
    then have "res = Inr () \<and> r' = r1 \<and> ts = []"
      using "1.prems"(2) by (subst (asm) outcome_push_loop) (auto split: sum.splits)
    with push_round_stop_counts [OF "1.prems"(1)] Return show ?thesis by simp
  next
    case (Next r1 rest1 ev)
    with "1.prems"(1) have ok1: "reader_ok P r1" by (blast intro: push_round_reader_ok)
    from Next "1.prems"(2) obtain us where us: "run P r1 rest1 = Inr (r', us)" "ts = tokens ev @ us"
      by (cases "run P r1 rest1") (subst (asm) outcome_push_loop, auto)+
    with "1.IH" [OF Next ok1 us(1)] push_round_counts [OF "1.prems"(1) Next] show ?thesis by simp
  qed
qed

section \<open>Properties of the reader\<close>

lemma new_reader_ok:
  assumes "magic_documented P" and "unat mb + unat mp < 2 ^ 64" and "unat mx + 1 < 2 ^ 64"
  shows "reader_ok P (PackReader_new mb mx mp)"
proof -
  have "pack_magic P \<noteq> []" using magic_documented_length [OF assms(1)] by auto
  with assms(2,3) show ?thesis by (intro reader_ok_new) auto
qed

lemma reads_pack_iff:
  assumes "magic_documented P" and "unat mb + unat mp < 2 ^ 64" and "unat mx + 1 < 2 ^ 64"
  shows "reads_pack P mb mx mp chunks r ts \<longleftrightarrow>
     (\<exists>fs. concat chunks = pack_stream P fs \<and> within_limits mb mx mp fs \<and>
           ts = concat (map (frame_tokens P) fs) \<and>
           r = PackReader_new mb mx mp\<lparr>pr_state := StHeader, pr_blobs := of_nat (length fs),
                                      pr_payload_bytes := of_nat (payload_total fs)\<rparr>)"
proof -
  let ?r0 = "PackReader_new mb mx mp\<lparr>pr_state := StHeader\<rparr>"
  let ?last = "\<lambda>fs. PackReader_new mb mx mp\<lparr>pr_state := StHeader, pr_blobs := of_nat (length fs),
                                      pr_payload_bytes := of_nat (payload_total fs)\<rparr>"
  have magic: "pack_magic P \<noteq> []" using magic_documented_length [OF assms(1)] by auto
  have ok: "reader_ok P ?r0"
    using assms(2,3) by (simp add: reader_ok_def limits_fit_def PackReader_new_def HEADER_BYTES_def)
  have st: "pr_state ?r0 = StHeader" "pr_buffer ?r0 = []" by (simp_all add: PackReader_new_def)
  have frames: "run P ?r0 (concat (map frame_bytes fs)) = Inr (?last fs, concat (map (frame_tokens P) fs))"
    if "within_limits mb mx mp fs" for fs
    using run_frames [OF ok st, of fs] that
    by (simp add: within_limits_def PackReader_new_def at_boundary_def)
  have read: "reads_pack P mb mx mp chunks r ts \<longleftrightarrow>
      run P (PackReader_new mb mx mp) (concat chunks) = Inr (r, ts) \<and> finish r = Inr ()"
    by (simp add: reads_pack_outcome outcome_feed [OF new_reader_ok [OF assms]] push_def)
  show ?thesis
  proof
    assume "reads_pack P mb mx mp chunks r ts"
    with read have run: "run P (PackReader_new mb mx mp) (concat chunks) = Inr (r, ts)"
      and fin: "finish r = Inr ()" by auto
    from run_magic_prefix [OF magic run fin] obtain rest where rest: "concat chunks = pack_magic P @ rest" ..
    with run run_magic [OF magic] have "run P ?r0 rest = Inr (r, ts)" by simp
    from this run_complete_frames [OF ok st this fin] frames
    show "\<exists>fs. concat chunks = pack_stream P fs \<and> within_limits mb mx mp fs \<and>
           ts = concat (map (frame_tokens P) fs) \<and> r = ?last fs"
      unfolding pack_stream_def rest
      by (fastforce simp: within_limits_def PackReader_new_def)
  next
    assume "\<exists>fs. concat chunks = pack_stream P fs \<and> within_limits mb mx mp fs \<and>
           ts = concat (map (frame_tokens P) fs) \<and> r = ?last fs"
    with frames run_magic [OF magic] read show "reads_pack P mb mx mp chunks r ts"
      by (auto simp: pack_stream_def finish_def PackReader_new_def)
  qed
qed

text \<open>
  C8: the network may cut an uploaded pack into chunks anywhere. Two chunkings of the same
  bytes give the same error, or the same reader and, up to the cuts inside payloads, the
  same events.
\<close>

theorem pack_chunking_irrelevant:
  assumes "magic_documented P" and "unat mb + unat mp < 2 ^ 64" and "unat mx + 1 < 2 ^ 64"
    and "concat cs = concat ds"
  shows "outcome (feed P (PackReader_new mb mx mp) cs) = outcome (feed P (PackReader_new mb mx mp) ds)"
  using outcome_feed [OF new_reader_ok [OF assms(1-3)]] assms(4) by metis

theorem pack_chunking_irrelevant_witness:
  "outcome (feed reference_protocol (PackReader_new 8 2 8) [as_bytes ''MBX'', [], as_bytes ''PACK1''])
     = outcome (feed reference_protocol (PackReader_new 8 2 8) [as_bytes ''MBXPACK1''])"
  by (rule pack_chunking_irrelevant [OF reference_protocol_documented(3)])
    (simp_all add: as_bytes_def)

text \<open>
  C7: a request body is read to the end and finishes cleanly exactly when it is the magic
  followed by frames that respect the blob size, blob count and payload limits; the events
  are then those frames in order, and the counters are their number and their total size.
\<close>

theorem pack_reader_language:
  assumes "magic_documented P" and "unat mb + unat mp < 2 ^ 64" and "unat mx + 1 < 2 ^ 64"
  shows "reads_pack P mb mx mp chunks r ts \<longleftrightarrow>
     (\<exists>fs. concat chunks = pack_stream P fs \<and> within_limits mb mx mp fs \<and>
           ts = concat (map (frame_tokens P) fs) \<and>
           r = PackReader_new mb mx mp\<lparr>pr_state := StHeader, pr_blobs := of_nat (length fs),
                                      pr_payload_bytes := of_nat (payload_total fs)\<rparr>)"
  by (rule reads_pack_iff [OF assms])

theorem pack_reader_language_witness:
  "\<exists>r. reads_pack reference_protocol 8 2 8
      [as_bytes ''MBXPACK1'', 1 # replicate 32 7 @ [0, 0, 0], [0, 0, 0, 0, 2, 65], [66]] r
      (frame_tokens reference_protocol (Blake3, replicate 32 7, [65, 66]))"
proof -
  have "concat [as_bytes ''MBXPACK1'', 1 # replicate 32 7 @ [0, 0, 0], [0, 0, 0, 0, 2, 65], [66]] =
      pack_stream reference_protocol [(Blake3, replicate 32 7, [65, 66])]"
    by code_simp
  moreover have "within_limits 8 2 8 [(Blake3, replicate 32 7, [65, 66])]" by code_simp
  ultimately show ?thesis
    using pack_reader_language [OF reference_protocol_documented(3), of 8 8 2] by fastforce
qed

text \<open>
  C9: at every moment of an upload the counters of the reader are what it has handed out, the frame
  in progress included, and never more than the request declared. The number of blobs is the number
  of frames read in full, and one more inside a payload; between frames the two agree. The comments
  on the two accessors speak of frames read in full throughout: inside a payload, as in the witness,
  the counters are ahead of that.
\<close>

theorem pack_reader_bounds:
  assumes "magic_documented P" and "unat mb + unat mp < 2 ^ 64" and "unat mx + 1 < 2 ^ 64"
    and "feed P (PackReader_new mb mx mp) chunks = (r, Inr es)"
  shows "unat (pr_blobs r) = started (tokens es) \<and>
    started (tokens es) = frames_ended (tokens es) + (if pr_state r = StPayload then 1 else 0) \<and>
    unat (pr_payload_bytes r) = length (token_bytes (tokens es)) \<and>
    pr_blobs r \<le> mx \<and> pr_payload_bytes r \<le> mp"
proof -
  note ok = new_reader_ok [OF assms(1-3)]
  have run: "run P (PackReader_new mb mx mp) (concat chunks) = Inr (r, tokens es)"
    using outcome_feed [OF ok, of chunks] assms(4) by (simp add: push_def)
  then obtain us where us: "push_loop P (PackReader_new mb mx mp) (concat chunks) [] = (r, Inr us)"
    by (cases "push_loop P (PackReader_new mb mx mp) (concat chunks) []";
        cases "snd (push_loop P (PackReader_new mb mx mp) (concat chunks) [])") auto
  have "reader_ok P r" using push_loop_reader_ok [OF ok us] .
  with run_counts [OF ok run] run_completes [OF run] show ?thesis
    by (auto simp: reader_ok_def in_frame_def PackReader_new_def)
qed

text \<open>One frame was read in full, and of the next one byte of two.\<close>

definition partial_upload :: "bytes list" where
  "partial_upload =
     [as_bytes ''MBXPACK1'' @ 1 # replicate 32 7 @ [0, 0, 0, 0, 0, 0, 0, 1, 65], 2 # replicate 32 8,
      [0, 0, 0, 0, 0, 0, 0, 2, 66]]"

theorem pack_reader_bounds_witness:
  "\<exists>r es. feed reference_protocol (PackReader_new 8 2 8) partial_upload = (r, Inr es) \<and>
     pr_blobs r = 2 \<and> started (tokens es) = 2 \<and> frames_ended (tokens es) = 1 \<and>
     pr_payload_bytes r = 2 \<and> length (token_bytes (tokens es)) = 2"
proof -
  let ?run = "feed reference_protocol (PackReader_new 8 2 8) partial_upload"
  have run: "(case ?run of (r, Inl e) \<Rightarrow> False
      | (r, Inr es) \<Rightarrow> pr_state r = StPayload \<and> pr_blobs r = 2 \<and> pr_payload_bytes r = 2)" by code_simp
  then obtain r es where r: "?run = (r, Inr es)" "pr_state r = StPayload" "pr_blobs r = 2" "pr_payload_bytes r = 2"
    by (auto split: prod.splits sum.splits)
  from pack_reader_bounds [OF reference_protocol_documented(3) _ _ r(1)] r show ?thesis by simp
qed

end
