(* ===== verification/Server.thy ===== *)
theory Server
  imports Metadata Metrics Oidc Model Pack_Language
begin

text \<open>
  \<^verbatim>\<open>src/server.rs\<close>, first part: the application state, the effects a handler has, and the blob
  handlers \<^verbatim>\<open>get_blob\<close>, \<^verbatim>\<open>put_blob\<close>, \<^verbatim>\<open>put_blob_pack\<close> and \<^verbatim>\<open>missing_blobs\<close>.

  A handler is a program over the \<open>world\<close>: the state of the blob store, of the metadata store
  and of the authorizer, the metrics, the faults of temporary-file calls, the time that passes
  between readings of the clock, and what other requests do. Before every call of a store the other requests run (\<open>w_env\<close>), so a handler is
  not atomic. A request body is the list of chunks its stream yields. The hashers are fed
  chunk by chunk; a hasher is the list of chunks it was fed, and its result a parameter.
\<close>

section \<open>Libraries and state\<close>

record hash_library =
  blake3_hex :: "bytes list \<Rightarrow> string"
  sha256_finalize :: "bytes list \<Rightarrow> bytes"
  blake3_hash_hex :: "bytes \<Rightarrow> string"

text \<open>Hashing in pieces is hashing the whole.\<close>

definition hashes_documented :: "hash_library \<Rightarrow> bool" where
  "hashes_documented H \<longleftrightarrow>
     (\<forall>cs. blake3_hex H cs = blake3_hex H [concat cs]) \<and>
     (\<forall>cs. sha256_finalize H cs = sha256_finalize H [concat cs]) \<and>
     (\<forall>bs. blake3_hash_hex H bs = blake3_hex H [bs])"

text \<open>
  Serialisation: parsing and printing of directories, JSON values and manifests, the typed
  reading of JSON values, and the functions of the protocol crate on its own types.
\<close>

record output_metadata =
  om_stdout :: digest
  om_stderr :: digest

record serde =
  sd_directory_from_slice :: "bytes \<Rightarrow> string + directory"
  sd_directory_to_vec :: "directory \<Rightarrow> string + bytes"
  sd_value_from_slice :: "bytes \<Rightarrow> string + json"
  sd_value_to_vec :: "json \<Rightarrow> string + bytes"
  sd_build_script_action :: "json \<Rightarrow> string + build_script_action"
  sd_cc_action :: "json \<Rightarrow> string + cc_action"
  sd_task_action :: "json \<Rightarrow> string + task_action"
  sd_rustc_action :: "json \<Rightarrow> string + rustc_action"
  sd_build_script_metadata :: "json \<Rightarrow> string + build_script_metadata"
  sd_cc_metadata :: "json \<Rightarrow> string + output_metadata"
  sd_task_metadata :: "json \<Rightarrow> string + task_metadata"
  sd_rustc_metadata :: "json \<Rightarrow> string + output_metadata"
  sd_cc_metadata_validate :: "output_metadata \<Rightarrow> bool"
  sd_rustc_metadata_validate :: "output_metadata \<Rightarrow> bool"
  sd_manifest_from_slice :: "bytes \<Rightarrow> string + task_action_manifest"
  sd_manifest_validate :: "task_action_manifest \<Rightarrow> bool"
  sd_selector_digest :: "task_action_manifest \<Rightarrow> digest"
  sd_canonical_json :: "task_action_manifest \<Rightarrow> string + bytes"

record libraries =
  lb_protocol :: protocol
  lb_serde :: serde
  lb_hash :: hash_library
  lb_jwt :: jwt_library
  lb_network :: network
  lb_pack_blobs_header :: string
  lb_pack_bytes_header :: string
  lb_pack_media_type :: string
  lb_pack_receipt_media_type :: string
  lb_action_batch_media_type :: string
  lb_manifest_media_type :: string
  lb_protocol_version :: u64
  lb_encode_metrics :: "metrics \<Rightarrow> string + string"

record ('b, 'm) app_state =
  st_blobs :: "'b blob_store"
  st_metadata :: "'m metadata_store"
  st_auth :: authorizer
  st_max_blob_bytes :: u64

record ('b, 'm) world =
  w_blobs :: 'b
  w_meta :: 'm
  w_auth :: auth_state
  w_metrics :: metrics
  w_faults :: "string option list"
  w_ticks :: "nat list"
  w_env :: "('b \<times> 'm \<Rightarrow> 'b \<times> 'm) list"

type_synonym ('b, 'm, 'a) handler = "(('b, 'm) world, api_error, 'a) prog"

definition AppState_new ::
  "'b blob_store \<Rightarrow> 'm metadata_store \<Rightarrow> authorizer \<Rightarrow> u64 \<Rightarrow> ('b, 'm) app_state" where
  "AppState_new blobs metadata auth max_blob_bytes =
     \<lparr>st_blobs = blobs, st_metadata = metadata, st_auth = auth, st_max_blob_bytes = max_blob_bytes\<rparr>"

section \<open>Effects\<close>

definition others_run :: "('b, 'm) world \<Rightarrow> ('b, 'm) world" where
  "others_run w = (case w_env w of [] \<Rightarrow> w
     | f # fs \<Rightarrow> (case f (w_blobs w, w_meta w) of (b, m) \<Rightarrow> w\<lparr>w_blobs := b, w_meta := m, w_env := fs\<rparr>))"

definition on_blobs :: "('b, 'e, 'a) prog \<Rightarrow> (('b, 'm) world, 'e, 'a) prog" where
  "on_blobs m w = zoom w_blobs w_blobs_update m (others_run w)"

definition on_meta :: "('m, 'e, 'a) prog \<Rightarrow> (('b, 'm) world, 'e, 'a) prog" where
  "on_meta m w = zoom w_meta w_meta_update m (others_run w)"

definition count :: "(metrics \<Rightarrow> metrics) \<Rightarrow> ('b, 'm, unit) handler" where
  "count f = modifyp (w_metrics_update f)"

text \<open>Reading the clock, which has advanced since it was last read.\<close>

definition read_clock :: "(('b, 'm) world, 'e, duration) prog" where
  "read_clock w =
     (let now = as_now (w_auth w) + (case w_ticks w of [] \<Rightarrow> 0 | t # _ \<Rightarrow> t)
      in (Inr now, w\<lparr>w_auth := (w_auth w)\<lparr>as_now := now\<rparr>, w_ticks := tl (w_ticks w)\<rparr>))"

text \<open>Creating, writing or flushing a temporary file, which succeeds or fails.\<close>

definition temp_io :: "('b, 'm, unit) handler" where
  "temp_io w = (case w_faults w of
       [] \<Rightarrow> (Inr (), w)
     | None # fs \<Rightarrow> (Inr (), w\<lparr>w_faults := fs\<rparr>)
     | Some e # fs \<Rightarrow> (Inl (internal e), w\<lparr>w_faults := fs\<rparr>))"

definition authorized :: "libraries \<Rightarrow> ('b, 'm) app_state \<Rightarrow> header_map \<Rightarrow> access \<Rightarrow> ('b, 'm, string) handler" where
  "authorized B st headers access =
     zoom w_auth w_auth_update (authorize (lb_jwt B) (lb_network B) (st_auth st) headers access)"

definition record_blob_access :: "('b, 'm) app_state \<Rightarrow> string \<Rightarrow> digest list \<Rightarrow> ('b, 'm, unit) handler" where
  "record_blob_access st ns ds w = (Inr (), snd (on_meta (ms_touch_blobs (st_metadata st) ns ds) w))"

definition blob_visible :: "('b, 'm) app_state \<Rightarrow> string \<Rightarrow> digest \<Rightarrow> ('b, 'm, bool) handler" where
  "blob_visible st ns d = map_errp internal (on_meta (ms_blob_visible (st_metadata st) ns d))"

definition store_get :: "('b, 'm) app_state \<Rightarrow> digest \<Rightarrow> ('b, 'm, blob option) handler" where
  "store_get st d = map_errp internal (on_blobs (bs_get (st_blobs st) d))"

section \<open>Reading a blob\<close>

record blob_response =
  br_content_length :: u64
  br_content_type :: string
  br_etag :: string
  br_digest :: string
  br_body :: stream

definition get_blob ::
  "libraries \<Rightarrow> ('b, 'm) app_state \<Rightarrow> header_map \<Rightarrow> string \<times> string \<times> u64 \<Rightarrow> ('b, 'm, blob_response) handler" where
  "get_blob B st headers parts =
     bindp (authorized B st headers Read) (\<lambda>ns.
     bindp (liftr (parse_digest (lb_protocol B) parts)) (\<lambda>d.
     bindp (blob_visible st ns d) (\<lambda>visible.
     bindp (ensurep visible (not_found ''blob not found'')) (\<lambda>_.
     bindp (record_blob_access st ns [d]) (\<lambda>_.
     bindp (store_get st d) (\<lambda>found.
     bindp (liftr (ok_or (not_found ''blob not found'') found)) (\<lambda>blob.
     bindp (count inc_blob_hit) (\<lambda>_.
       ok \<lparr>br_content_length = bl_size blob, br_content_type = ''application/octet-stream'',
           br_etag = quoted_etag (dg_hash d), br_digest = dg_algorithm d @ ''='' @ dg_hash d,
           br_body = bl_stream blob\<rparr>))))))))"

section \<open>Storing a blob\<close>

text \<open>What an upload has received so far: its size, what the hashers were fed, the spooled file.\<close>

record upload =
  up_size :: u64
  up_blake3 :: "bytes list"
  up_sha256 :: "bytes list"
  up_file :: bytes

definition new_upload :: upload where
  "new_upload = \<lparr>up_size = 0, up_blake3 = [], up_sha256 = [], up_file = []\<rparr>"

definition feed_hasher :: "algorithm \<Rightarrow> bytes \<Rightarrow> upload \<Rightarrow> upload" where
  "feed_hasher a chunk u = (case a of
       Blake3 \<Rightarrow> u\<lparr>up_blake3 := up_blake3 u @ [chunk]\<rparr>
     | Sha256 \<Rightarrow> u\<lparr>up_sha256 := up_sha256 u @ [chunk]\<rparr>)"

definition actual_hash :: "libraries \<Rightarrow> algorithm \<Rightarrow> upload \<Rightarrow> string" where
  "actual_hash B a u = (case a of
       Blake3 \<Rightarrow> blake3_hex (lb_hash B) (up_blake3 u)
     | Sha256 \<Rightarrow> hex_encode (lb_protocol B) (sha256_finalize (lb_hash B) (up_sha256 u)))"

definition algorithm_of :: "libraries \<Rightarrow> digest \<Rightarrow> ('b, 'm, algorithm) handler" where
  "algorithm_of B d = liftr (map_err bad_request (algorithm_kind (lb_protocol B) d))"

fun receive_body ::
  "libraries \<Rightarrow> ('b, 'm) app_state \<Rightarrow> digest \<Rightarrow> stream \<Rightarrow> upload \<Rightarrow> ('b, 'm, upload) handler" where
  "receive_body B st d [] u = ok u"
| "receive_body B st d (Inl e # xs) u = throw (bad_request e)"
| "receive_body B st d (Inr chunk # xs) u =
     bindp (liftr (ok_or (too_large ''blob is too large'') (checked_add (up_size u) (of_nat (length chunk))))) (\<lambda>n.
     bindp (ensurep (\<not> (n > dg_size d \<or> n > st_max_blob_bytes st))
              (too_large ''blob exceeds declared or configured size'')) (\<lambda>_.
     bindp (algorithm_of B d) (\<lambda>a.
     bindp temp_io (\<lambda>_.
       receive_body B st d xs
         ((feed_hasher a chunk u)\<lparr>up_size := n, up_file := up_file u @ chunk\<rparr>)))))"

text \<open>Storing the spooled bytes and registering the blob, as single uploads and pack frames do.\<close>

definition publish_blob ::
  "('b, 'm) app_state \<Rightarrow> string \<Rightarrow> digest \<Rightarrow> bytes \<Rightarrow> ('b, 'm, put_outcome) handler" where
  "publish_blob st ns d file =
     bindp (map_errp internal (on_blobs (bs_put (st_blobs st) d file))) (\<lambda>outcome.
     bindp (map_errp internal (on_meta (ms_register_blob (st_metadata st) ns d outcome))) (\<lambda>_.
     bindp (count inc_blob_upload) (\<lambda>_. ok outcome)))"

text \<open>
  All bytes have arrived: flush, compare size and hash with the digest, publish. Single uploads
  and pack frames do the same and differ in the message only.
\<close>

definition finish_upload ::
  "libraries \<Rightarrow> ('b, 'm) app_state \<Rightarrow> string \<Rightarrow> digest \<Rightarrow> upload \<Rightarrow> string \<Rightarrow> ('b, 'm, put_outcome) handler" where
  "finish_upload B st ns d u mismatch =
     bindp temp_io (\<lambda>_.
     bindp (algorithm_of B d) (\<lambda>a.
     bindp (ensurep (\<not> (up_size u \<noteq> dg_size d \<or> actual_hash B a u \<noteq> dg_hash d)) (bad_request mismatch)) (\<lambda>_.
       publish_blob st ns d (up_file u))))"

definition put_blob ::
  "libraries \<Rightarrow> ('b, 'm) app_state \<Rightarrow> header_map \<Rightarrow> string \<times> string \<times> u64 \<Rightarrow> stream \<Rightarrow> ('b, 'm, status_code) handler" where
  "put_blob B st headers parts body =
     bindp (authorized B st headers Write) (\<lambda>ns.
     bindp (liftr (require_immutable_precondition headers)) (\<lambda>_.
     bindp (liftr (parse_digest (lb_protocol B) parts)) (\<lambda>d.
     bindp (ensurep (\<not> dg_size d > st_max_blob_bytes st) (too_large ''blob exceeds configured limit'')) (\<lambda>_.
     bindp temp_io (\<lambda>_.
     bindp temp_io (\<lambda>_.
     bindp (receive_body B st d body new_upload) (\<lambda>u.
     bindp (finish_upload B st ns d u ''content does not match the requested digest'') (\<lambda>outcome.
       ok (case outcome of PutCreated \<Rightarrow> CREATED | PutAlreadyExists \<Rightarrow> NO_CONTENT)))))))))"

section \<open>Storing a pack\<close>

record pack_frame =
  pf_digest :: digest
  pf_upload :: upload

definition PackFrame_new :: "digest \<Rightarrow> ('b, 'm, pack_frame) handler" where
  "PackFrame_new d =
     bindp temp_io (\<lambda>_. bindp temp_io (\<lambda>_. ok \<lparr>pf_digest = d, pf_upload = new_upload\<rparr>))"

definition PackFrame_write :: "libraries \<Rightarrow> pack_frame \<Rightarrow> bytes \<Rightarrow> ('b, 'm, pack_frame) handler" where
  "PackFrame_write B self payload =
     bindp (algorithm_of B (pf_digest self)) (\<lambda>a.
     bindp temp_io (\<lambda>_.
       let u = pf_upload self
       in ok (self\<lparr>pf_upload := (feed_hasher a payload u)\<lparr>up_size := up_size u + of_nat (length payload),
                                                       up_file := up_file u @ payload\<rparr>\<rparr>)))"

definition PackFrame_store ::
  "libraries \<Rightarrow> ('b, 'm) app_state \<Rightarrow> string \<Rightarrow> pack_frame \<Rightarrow> ('b, 'm, put_outcome) handler" where
  "PackFrame_store B st ns self =
     finish_upload B st ns (pf_digest self) (pf_upload self) ''packed blob does not match its declared digest''"

record pack_progress =
  pp_frame :: "pack_frame option"
  pp_created :: u64
  pp_existing :: u64

fun pack_event_step ::
  "libraries \<Rightarrow> ('b, 'm) app_state \<Rightarrow> string \<Rightarrow> pack_event \<Rightarrow> pack_progress \<Rightarrow> ('b, 'm, pack_progress) handler" where
  "pack_event_step B st ns (Started d) p =
     bindp (PackFrame_new d) (\<lambda>f. ok (p\<lparr>pp_frame := Some f\<rparr>))"
| "pack_event_step B st ns (Payload payload) p =
     bindp (liftr (ok_or (internal ''payload outside a blob pack frame'') (pp_frame p))) (\<lambda>f.
     bindp (PackFrame_write B f payload) (\<lambda>f. ok (p\<lparr>pp_frame := Some f\<rparr>)))"
| "pack_event_step B st ns Complete p =
     bindp (liftr (ok_or (internal ''blob pack frame ended before it began'') (pp_frame p))) (\<lambda>f.
     bindp (PackFrame_store B st ns f) (\<lambda>outcome.
       ok (case outcome of
             PutCreated \<Rightarrow> p\<lparr>pp_frame := None, pp_created := pp_created p + 1\<rparr>
           | PutAlreadyExists \<Rightarrow> p\<lparr>pp_frame := None, pp_existing := pp_existing p + 1\<rparr>)))"

fun pack_event_steps ::
  "libraries \<Rightarrow> ('b, 'm) app_state \<Rightarrow> string \<Rightarrow> pack_event list \<Rightarrow> pack_progress \<Rightarrow> ('b, 'm, pack_progress) handler" where
  "pack_event_steps B st ns [] p = ok p"
| "pack_event_steps B st ns (e # es) p =
     bindp (pack_event_step B st ns e p) (pack_event_steps B st ns es)"

fun receive_pack ::
  "libraries \<Rightarrow> ('b, 'm) app_state \<Rightarrow> string \<Rightarrow> stream \<Rightarrow> pack_reader \<Rightarrow> pack_progress
     \<Rightarrow> ('b, 'm, pack_reader \<times> pack_progress) handler" where
  "receive_pack B st ns [] r p = ok (r, p)"
| "receive_pack B st ns (Inl e # xs) r p = throw (bad_request e)"
| "receive_pack B st ns (Inr chunk # xs) r p =
     (case push (lb_protocol B) r chunk of
        (r', Inl e) \<Rightarrow> throw (pack_error_response e)
      | (r', Inr es) \<Rightarrow> bindp (pack_event_steps B st ns es p) (receive_pack B st ns xs r'))"

record blob_pack_receipt =
  rc_created :: u64
  rc_existing :: u64

definition put_blob_pack ::
  "libraries \<Rightarrow> ('b, 'm) app_state \<Rightarrow> header_map \<Rightarrow> stream
     \<Rightarrow> ('b, 'm, string \<times> blob_pack_receipt) handler" where
  "put_blob_pack B st headers body =
     bindp (authorized B st headers Write) (\<lambda>ns.
     bindp (liftr (required_u64_header headers (lb_pack_blobs_header B))) (\<lambda>declared_blobs.
     bindp (liftr (required_u64_header headers (lb_pack_bytes_header B))) (\<lambda>declared_bytes.
     bindp (ensurep (\<not> declared_blobs > of_nat (max_batch_items (lb_protocol B)))
              (bad_request ''blob pack declares more blobs than the supported batch size'')) (\<lambda>_.
     bindp (ensurep (\<not> declared_bytes > st_max_blob_bytes st)
              (too_large ''blob pack exceeds the configured size limit'')) (\<lambda>_.
     bindp (receive_pack B st ns body (PackReader_new (st_max_blob_bytes st) declared_blobs declared_bytes)
              \<lparr>pp_frame = None, pp_created = 0, pp_existing = 0\<rparr>) (\<lambda>(reader, progress).
     bindp (liftr (map_err pack_error_response (finish reader))) (\<lambda>_.
     bindp (ensurep (\<not> (pr_blobs reader \<noteq> declared_blobs \<or> pr_payload_bytes reader \<noteq> declared_bytes))
              (bad_request ''blob pack does not carry what its headers declared'')) (\<lambda>_.
     bindp (count (inc_blob_pack_upload (pr_blobs reader))) (\<lambda>_.
       ok (lb_pack_receipt_media_type B,
           \<lparr>rc_created = pp_created progress, rc_existing = pp_existing progress\<rparr>))))))))))"

section \<open>Asking which blobs are missing\<close>

record missing_request =
  mq_digests :: "digest list"

record missing_response =
  mi_missing :: "digest list"

definition missing_blobs ::
  "libraries \<Rightarrow> ('b, 'm) app_state \<Rightarrow> header_map \<Rightarrow> missing_request \<Rightarrow> ('b, 'm, missing_response) handler" where
  "missing_blobs B st headers request =
     bindp (authorized B st headers Read) (\<lambda>ns.
     bindp (ensurep (\<not> length (mq_digests request) > max_batch_items (lb_protocol B))
              (bad_request ''at most 10000 digests may be checked'')) (\<lambda>_.
     bindp (liftr (for_result (validate_digest (lb_protocol B)) (mq_digests request))) (\<lambda>_.
     bindp (map_errp internal (on_meta (ms_visible_blobs (st_metadata st) ns (mq_digests request)))) (\<lambda>visible.
       ok \<lparr>mi_missing = filter (\<lambda>d. d \<notin> set visible) (mq_digests request)\<rparr>))))"

end
