(* ===== verification/Actions.thy ===== *)
theory Actions
  imports Server
begin

text \<open>
  \<^verbatim>\<open>src/server.rs\<close>, second part: the handlers of action results and action manifests, and the
  checks a result passes before it is committed: its descriptor, its client metadata and its
  tree of directory objects.

  The finite sets \<^verbatim>\<open>visiting\<close> and \<^verbatim>\<open>seen\<close> of the tree walk are lists, the most recent
  element first; the stack \<^verbatim>\<open>pending\<close> is a list with its top first.
\<close>

section \<open>References to blobs\<close>

definition require_blob ::
  "libraries \<Rightarrow> ('b, 'm) app_state \<Rightarrow> string \<Rightarrow> digest \<Rightarrow> string \<Rightarrow> ('b, 'm, unit) handler" where
  "require_blob B st ns d label =
     bindp (liftr (validate_digest (lb_protocol B) d)) (\<lambda>_.
     bindp (blob_visible st ns d) (\<lambda>visible.
       ensurep visible (unprocessable (label @ '' is missing''))))"

definition require_output_blobs ::
  "libraries \<Rightarrow> ('b, 'm) app_state \<Rightarrow> string \<Rightarrow> digest \<Rightarrow> digest \<Rightarrow> string \<Rightarrow> ('b, 'm, unit) handler" where
  "require_output_blobs B st ns stdout stderr kind =
     bindp (require_blob B st ns stdout (kind @ '' stdout blob'')) (\<lambda>_.
     require_blob B st ns stderr (kind @ '' stderr blob''))"

text \<open>Reading an object into memory.\<close>

definition read_object ::
  "('b, 'm) app_state \<Rightarrow> digest \<Rightarrow> string \<Rightarrow> ('b, 'm, bytes) handler" where
  "read_object st d missing =
     bindp (store_get st d) (\<lambda>found.
     bindp (liftr (ok_or (unprocessable missing) found)) (\<lambda>blob.
     liftr (map_err internal (collect (bl_stream blob)))))"

section \<open>Directory trees\<close>

definition validate_entry :: "string set \<Rightarrow> string \<Rightarrow> u32 \<Rightarrow> api_error + string set" where
  "validate_entry names name mode =
     (if name = [] \<or> name = ''.'' \<or> name = ''..'' \<or>
         CHR ''/'' \<in> set name \<or> CHR 0x5C \<in> set name \<or> CHR 0x00 \<in> set name \<or> mode > 0xFFF
      then Inl (unprocessable ''invalid directory entry'')
      else if name \<in> names then Inl (unprocessable ''duplicate directory entry'')
      else Inr (insert name names))"

fun validate_entries :: "string set \<Rightarrow> (string \<times> u32 \<times> (api_error + unit)) list \<Rightarrow> api_error + string set" where
  "validate_entries names [] = Inr names"
| "validate_entries names ((name, mode, extra) # entries) =
     bind_result (validate_entry names name mode) (\<lambda>names.
     bind_result extra (\<lambda>_. validate_entries names entries))"

definition validate_directory_entries :: "directory \<Rightarrow> api_error + unit" where
  "validate_directory_entries directory =
     bind_result (validate_entries {} (map (\<lambda>node. (dn_name node, dn_mode node, Inr ())) (dir_directories directory))) (\<lambda>names.
     bind_result (validate_entries names (map (\<lambda>node. (fn_name node, fn_mode node, Inr ())) (dir_files directory))) (\<lambda>names.
     bind_result (validate_entries names (map (\<lambda>node. (sn_name node, sn_mode node,
         if sn_target node = [] \<or> CHR 0x00 \<in> set (sn_target node)
         then Inl (unprocessable ''invalid symlink target'') else Inr ())) (dir_symlinks directory))) (\<lambda>_.
     Inr ())))"

datatype visit = Enter digest | Exit digest

text \<open>The directory object under a digest, as the loop body reads and checks it.\<close>

definition read_directory ::
  "libraries \<Rightarrow> ('b, 'm) app_state \<Rightarrow> string \<Rightarrow> digest \<Rightarrow> ('b, 'm, directory) handler" where
  "read_directory B st ns d =
     bindp (ensurep (\<not> dg_size d > 16 * 1024 * 1024) (unprocessable ''directory object is too large'')) (\<lambda>_.
     bindp (blob_visible st ns d) (\<lambda>visible.
     bindp (ensurep visible (unprocessable ''directory object is missing'')) (\<lambda>_.
     bindp (read_object st d ''directory object is missing'') (\<lambda>bytes.
     bindp (liftr (map_err (\<lambda>_. unprocessable ''directory object is invalid'')
              (sd_directory_from_slice (lb_serde B) bytes))) (\<lambda>directory.
     bindp (liftr (map_err internal (sd_directory_to_vec (lb_serde B) directory))) (\<lambda>printed.
     bindp (ensurep (printed = bytes) (unprocessable ''directory object is not canonical JSON'')) (\<lambda>_.
     bindp (ensurep (dir_version directory = 1) (unprocessable ''unsupported directory object version'')) (\<lambda>_.
     bindp (liftr (validate_directory_entries directory)) (\<lambda>_.
     bindp (for_prog (\<lambda>file. require_blob B st ns (fn_digest file) ''file blob'') (dir_files directory)) (\<lambda>_.
       ok directory))))))))))"

type_synonym walk_state = "visit list \<times> digest list \<times> digest list"

text \<open>One round of the loop: \<open>None\<close> when nothing is pending.\<close>

fun tree_round ::
  "libraries \<Rightarrow> ('b, 'm) app_state \<Rightarrow> string \<Rightarrow> walk_state \<Rightarrow> ('b, 'm, walk_state option) handler" where
  "tree_round B st ns ([], visiting, seen) = ok None"
| "tree_round B st ns (Exit d # pending, visiting, seen) =
     ok (Some (pending, removeAll d visiting, List.insert d seen))"
| "tree_round B st ns (Enter d # pending, visiting, seen) =
     (if d \<in> set seen then ok (Some (pending, visiting, seen))
      else if d \<in> set visiting then throw (unprocessable ''directory graph contains a cycle'')
      else if card (set seen) + card (set (d # visiting)) > 100000
      then throw (unprocessable ''directory graph is too large'')
      else
        bindp (read_directory B st ns d) (\<lambda>directory.
          ok (Some (rev (map (\<lambda>node. Enter (dn_digest node)) (dir_directories directory)) @ Exit d # pending,
                    d # visiting, seen))))"

definition walked :: "walk_state \<Rightarrow> nat" where
  "walked s = (case s of (pending, visiting, seen) \<Rightarrow> card (set seen \<union> set visiting))"

lemma tree_round_progress:
  assumes "tree_round B st ns s w = (Inr (Some s'), w')"
  shows "walked s < walked s' \<and> walked s' \<le> 100000 \<or> walked s \<le> walked s' \<and> length (fst s') < length (fst s)"
  using assms
proof (induction B st ns s rule: tree_round.induct)
  case (2 B st ns d pending visiting seen)
  have "card (set seen \<union> set visiting) \<le> card (insert d (set seen \<union> (set visiting - {d})))"
    by (rule card_mono) auto
  with 2 show ?case by (auto simp: prog_simps walked_def)
next
  case (3 B st ns d pending visiting seen)
  show ?case
  proof (cases "d \<in> set seen")
    case True
    with 3 show ?thesis by (auto simp: prog_simps walked_def)
  next
    case False
    with 3 have s': "snd s' = (d # visiting, seen)" "d \<notin> set visiting"
      and "card (set seen) + card (set (d # visiting)) \<le> 100000"
      by (auto simp: prog_simps split: if_splits)
    moreover have "card (set seen \<union> set (d # visiting)) \<le> card (set seen) + card (set (d # visiting))"
      by (rule card_Un_le)
    ultimately show ?thesis
      using False by (cases s') (auto simp: walked_def)
  qed
qed (auto simp: prog_simps)

function tree_loop ::
  "libraries \<Rightarrow> ('b, 'm) app_state \<Rightarrow> string \<Rightarrow> walk_state \<Rightarrow> ('b, 'm, unit) handler" where
  "tree_loop B st ns s w =
     (case tree_round B st ns s w of
        (Inl e, w') \<Rightarrow> (Inl e, w')
      | (Inr None, w') \<Rightarrow> (Inr (), w')
      | (Inr (Some s'), w') \<Rightarrow> tree_loop B st ns s' w')"
  by pat_completeness auto
termination
proof (relation "measures [\<lambda>(B, st, ns, s, w). 100001 - walked s, \<lambda>(B, st, ns, s, w). length (fst s)]",
    goal_cases)
  case (2 B st ns s w x w' y s')
  then have "tree_round B st ns s w = (Inr (Some s'), w')" by auto
  from tree_round_progress [OF this] show ?case by auto
qed auto

declare tree_loop.simps [simp del]

definition validate_tree ::
  "libraries \<Rightarrow> ('b, 'm) app_state \<Rightarrow> string \<Rightarrow> digest \<Rightarrow> ('b, 'm, unit) handler" where
  "validate_tree B st ns root_digest = tree_loop B st ns ([Enter root_digest], [], [])"

section \<open>Descriptors and client metadata\<close>

definition read_canonical_object ::
  "libraries \<Rightarrow> ('b, 'm) app_state \<Rightarrow> string \<Rightarrow> digest \<Rightarrow> string \<Rightarrow> ('b, 'm, json) handler" where
  "read_canonical_object B st ns d label =
     bindp (liftr (validate_digest (lb_protocol B) d)) (\<lambda>_.
     bindp (ensurep (\<not> dg_size d > 16 * 1024 * 1024) (unprocessable (label @ '' is too large''))) (\<lambda>_.
     bindp (blob_visible st ns d) (\<lambda>visible.
     bindp (ensurep visible (unprocessable (label @ '' blob is missing''))) (\<lambda>_.
     bindp (read_object st d (label @ '' blob is missing'')) (\<lambda>bytes.
     bindp (liftr (map_err (\<lambda>_. unprocessable (label @ '' is invalid JSON''))
              (sd_value_from_slice (lb_serde B) bytes))) (\<lambda>value.
     bindp (ensurep (is_object value) (unprocessable (label @ '' is not canonical JSON''))) (\<lambda>_.
     bindp (liftr (map_err internal (sd_value_to_vec (lb_serde B) value))) (\<lambda>printed.
     bindp (ensurep (printed = bytes) (unprocessable (label @ '' is not canonical JSON''))) (\<lambda>_.
       ok value)))))))))"

datatype action_kind = KindBuildScript | KindCc | KindRustc | KindTask

definition validate_action_result_shape :: "action_result \<Rightarrow> action_kind \<Rightarrow> api_error + unit" where
  "validate_action_result_shape result kind =
     (if kind \<noteq> KindTask \<and> (ar_metadata result = None \<or> ar_output_root result = None)
      then Inl (unprocessable ''compiler action results require metadata and an output root'')
      else Inr ())"

definition validate_build_script_action :: "libraries \<Rightarrow> json \<Rightarrow> u64 \<Rightarrow> api_error + action_kind" where
  "validate_build_script_action B value version =
     (if version \<noteq> 2 then Inl (unprocessable (''unsupported build-script action schema '' @ show_u64 version))
      else bind_result (map_err (\<lambda>e. unprocessable (''invalid build-script action: '' @ e))
             (sd_build_script_action (lb_serde B) value)) (\<lambda>action.
           if \<not> BuildScriptAction_validate (lb_protocol B) action
           then Inl (unprocessable ''invalid build-script action values'') else Inr KindBuildScript))"

definition validate_cc_action :: "libraries \<Rightarrow> json \<Rightarrow> u64 \<Rightarrow> api_error + action_kind" where
  "validate_cc_action B value version =
     (if version \<noteq> 1 then Inl (unprocessable (''unsupported cc action schema '' @ show_u64 version))
      else bind_result (map_err (\<lambda>e. unprocessable (''invalid cc action: '' @ e))
             (sd_cc_action (lb_serde B) value)) (\<lambda>action.
           if \<not> CcAction_validate (lb_protocol B) action
           then Inl (unprocessable ''invalid cc action values'') else Inr KindCc))"

definition task_action_fields :: "string list" where
  "task_action_fields =
     [''version'', ''kind'', ''task'', ''phase'', ''run'', ''args'', ''shell'', ''outputs'', ''root'',
      ''source_hash'', ''environment'', ''vars'', ''tools'', ''os'', ''arch'']"

definition validate_task_action :: "libraries \<Rightarrow> json \<Rightarrow> u64 \<Rightarrow> api_error + action_kind" where
  "validate_task_action B value version =
     (if version \<noteq> 1 then Inl (unprocessable (''unsupported task action schema '' @ show_u64 version))
      else
        bind_result (for_result (\<lambda>field. if json_get value field = None
            then Inl (unprocessable (''task action field '' @ debug_str field @ '' is required'')) else Inr ())
          task_action_fields) (\<lambda>_.
        bind_result (map_err (\<lambda>e. unprocessable (''invalid task action: '' @ e))
          (sd_task_action (lb_serde B) value)) (\<lambda>action.
        if \<not> TaskAction_validate action
        then Inl (unprocessable ''invalid task action values'') else Inr KindTask)))"

definition validate_rustc_action :: "libraries \<Rightarrow> json \<Rightarrow> u64 \<Rightarrow> api_error + action_kind" where
  "validate_rustc_action B value version =
     (if version \<noteq> 1 then Inl (unprocessable (''unsupported rustc action schema '' @ show_u64 version))
      else bind_result (map_err (\<lambda>e. unprocessable (''invalid rustc action: '' @ e))
             (sd_rustc_action (lb_serde B) value)) (\<lambda>action.
           if \<not> RustcAction_validate (lb_protocol B) action
           then Inl (unprocessable ''invalid rustc action values'') else Inr KindRustc))"

definition descriptor_kind :: "libraries \<Rightarrow> json \<Rightarrow> api_error + action_kind" where
  "descriptor_kind B value =
     bind_result (ok_or (unprocessable ''action descriptor must be a JSON object'') (as_object value)) (\<lambda>_.
     bind_result (ok_or (unprocessable ''action descriptor kind is required'')
       (Option.bind (json_get value ''kind'') as_str)) (\<lambda>kind.
     bind_result (ok_or (unprocessable ''action descriptor version is required'')
       (Option.bind (json_get value ''version'') as_u64)) (\<lambda>version.
     if kind = ''build-script'' then validate_build_script_action B value version
     else if kind = ''cc'' then validate_cc_action B value version
     else if kind = ''task'' then validate_task_action B value version
     else if kind = ''rustc'' then validate_rustc_action B value version
     else Inl (unprocessable (''unsupported action kind '' @ debug_str kind)))))"

definition validate_action_descriptor ::
  "libraries \<Rightarrow> ('b, 'm) app_state \<Rightarrow> string \<Rightarrow> digest \<Rightarrow> ('b, 'm, action_kind) handler" where
  "validate_action_descriptor B st ns d =
     bindp (read_canonical_object B st ns d ''action descriptor'') (\<lambda>value.
       liftr (descriptor_kind B value))"

definition validate_task_root :: "string \<Rightarrow> api_error + unit" where
  "validate_task_root path =
     (if path = [] \<or> strip_prefix ''/'' path \<noteq> None \<or> CHR 0x5C \<in> set path \<or> CHR 0x00 \<in> set path \<or>
         list_ex (\<lambda>c. c = [] \<or> c = ''.'' \<or> c = ''..'') (split_on (CHR ''/'') path)
      then Inl (unprocessable ''task metadata root must be a safe relative path'') else Inr ())"

definition validate_task_metadata :: "libraries \<Rightarrow> json \<Rightarrow> u64 \<Rightarrow> api_error + unit" where
  "validate_task_metadata B value version =
     (if version \<noteq> 1 then Inl (unprocessable (''unsupported task metadata schema '' @ show_u64 version))
      else bind_result (map_err (\<lambda>e. unprocessable (''invalid task metadata: '' @ e))
             (sd_task_metadata (lb_serde B) value)) (\<lambda>metadata.
           if \<not> TaskMetadata_validate metadata then Inl (unprocessable ''invalid task metadata values'')
           else for_result validate_task_root (tmd_roots metadata)))"

definition validate_build_script_metadata ::
  "libraries \<Rightarrow> ('b, 'm) app_state \<Rightarrow> string \<Rightarrow> json \<Rightarrow> u64 \<Rightarrow> ('b, 'm, unit) handler" where
  "validate_build_script_metadata B st ns value version =
     bindp (ensurep (version = 1) (unprocessable (''unsupported build-script metadata schema '' @ show_u64 version))) (\<lambda>_.
     bindp (liftr (map_err (\<lambda>e. unprocessable (''invalid build-script metadata: '' @ e))
              (sd_build_script_metadata (lb_serde B) value))) (\<lambda>metadata.
     bindp (ensurep (BuildScriptMetadata_validate (lb_protocol B) metadata)
              (unprocessable ''invalid build-script metadata values'')) (\<lambda>_.
       require_output_blobs B st ns (bm_stdout metadata) (bm_stderr metadata) ''build-script'')))"

definition validate_cc_metadata ::
  "libraries \<Rightarrow> ('b, 'm) app_state \<Rightarrow> string \<Rightarrow> json \<Rightarrow> u64 \<Rightarrow> ('b, 'm, unit) handler" where
  "validate_cc_metadata B st ns value version =
     bindp (ensurep (version = 1) (unprocessable (''unsupported cc metadata schema '' @ show_u64 version))) (\<lambda>_.
     bindp (liftr (map_err (\<lambda>e. unprocessable (''invalid cc metadata: '' @ e))
              (sd_cc_metadata (lb_serde B) value))) (\<lambda>metadata.
     bindp (ensurep (sd_cc_metadata_validate (lb_serde B) metadata)
              (unprocessable ''invalid cc metadata values'')) (\<lambda>_.
       require_output_blobs B st ns (om_stdout metadata) (om_stderr metadata) ''cc'')))"

definition validate_rustc_metadata ::
  "libraries \<Rightarrow> ('b, 'm) app_state \<Rightarrow> string \<Rightarrow> json \<Rightarrow> u64 \<Rightarrow> ('b, 'm, unit) handler" where
  "validate_rustc_metadata B st ns value version =
     bindp (ensurep (version = 1) (unprocessable (''unsupported rustc metadata schema '' @ show_u64 version))) (\<lambda>_.
     bindp (liftr (map_err (\<lambda>e. unprocessable (''invalid rustc metadata: '' @ e))
              (sd_rustc_metadata (lb_serde B) value))) (\<lambda>metadata.
     bindp (ensurep (sd_rustc_metadata_validate (lb_serde B) metadata)
              (unprocessable ''invalid rustc metadata values'')) (\<lambda>_.
       require_output_blobs B st ns (om_stdout metadata) (om_stderr metadata) ''rustc'')))"

fun expected_kind :: "action_kind \<Rightarrow> string" where
  "expected_kind KindBuildScript = ''build-script''"
| "expected_kind KindCc = ''cc''"
| "expected_kind KindRustc = ''rustc''"
| "expected_kind KindTask = ''task''"

definition validate_client_metadata ::
  "libraries \<Rightarrow> ('b, 'm) app_state \<Rightarrow> string \<Rightarrow> digest \<Rightarrow> action_kind \<Rightarrow> ('b, 'm, unit) handler" where
  "validate_client_metadata B st ns d action_kind =
     bindp (read_canonical_object B st ns d ''client metadata'') (\<lambda>value.
     bindp (liftr (ok_or (unprocessable ''client metadata must be a JSON object'') (as_object value))) (\<lambda>_.
     bindp (liftr (ok_or (unprocessable ''client metadata kind is required'')
              (Option.bind (json_get value ''kind'') as_str))) (\<lambda>kind.
     bindp (liftr (ok_or (unprocessable ''client metadata version is required'')
              (Option.bind (json_get value ''version'') as_u64))) (\<lambda>version.
     bindp (ensurep (kind = expected_kind action_kind)
              (unprocessable ''client metadata kind does not match action kind'')) (\<lambda>_.
       (case action_kind of
          KindTask \<Rightarrow> liftr (validate_task_metadata B value version)
        | KindBuildScript \<Rightarrow> validate_build_script_metadata B st ns value version
        | KindCc \<Rightarrow> validate_cc_metadata B st ns value version
        | KindRustc \<Rightarrow> validate_rustc_metadata B st ns value version))))))"

section \<open>Action results\<close>

definition get_action_result ::
  "libraries \<Rightarrow> ('b, 'm) app_state \<Rightarrow> header_map \<Rightarrow> string \<times> string \<times> u64 \<Rightarrow> ('b, 'm, action_result) handler" where
  "get_action_result B st headers parts =
     bindp (authorized B st headers Read) (\<lambda>ns.
     bindp (liftr (parse_action_digest (lb_protocol B) parts)) (\<lambda>action.
     bindp (map_errp internal (on_meta (ms_get (st_metadata st) ns action))) (\<lambda>found.
       case found of
         Some result \<Rightarrow> bindp (count inc_action_hit) (\<lambda>_. ok result)
       | None \<Rightarrow> bindp (count inc_action_miss) (\<lambda>_. throw (not_found ''action result not found'')))))"

fun batch_digests :: "libraries \<Rightarrow> digest list \<Rightarrow> digest list \<Rightarrow> api_error + digest list" where
  "batch_digests B [] requested = Inr requested"
| "batch_digests B (d # ds) requested =
     bind_result (validate_action_digest (lb_protocol B) d) (\<lambda>d.
       batch_digests B ds (if d \<in> set requested then requested else requested @ [d]))"

definition batch_action_results ::
  "libraries \<Rightarrow> ('b, 'm) app_state \<Rightarrow> header_map \<Rightarrow> missing_request
     \<Rightarrow> ('b, 'm, string \<times> action_result list) handler" where
  "batch_action_results B st headers request =
     bindp (authorized B st headers Read) (\<lambda>ns.
     bindp (ensurep (\<not> length (mq_digests request) > max_batch_items (lb_protocol B))
              (bad_request ''batch exceeds the supported size'')) (\<lambda>_.
     bindp (liftr (batch_digests B (mq_digests request) [])) (\<lambda>requested.
     bindp (map_errp internal (on_meta (ms_get_batch (st_metadata st) ns requested))) (\<lambda>results.
     bindp (count (inc_action_batch (of_nat (length results))
              (of_nat (length requested) - of_nat (length results)))) (\<lambda>_.
       ok (lb_action_batch_media_type B, results))))))"

definition put_action_result ::
  "libraries \<Rightarrow> ('b, 'm) app_state \<Rightarrow> header_map \<Rightarrow> string \<times> string \<times> u64 \<Rightarrow> action_result
     \<Rightarrow> ('b, 'm, status_code) handler" where
  "put_action_result B st headers parts result =
     bindp (authorized B st headers Write) (\<lambda>ns.
     bindp (liftr (require_immutable_precondition headers)) (\<lambda>_.
     bindp (liftr (parse_action_digest (lb_protocol B) parts)) (\<lambda>action.
     bindp (ensurep (\<not> (ar_version result \<noteq> 1 \<or> ar_action result \<noteq> action))
              (bad_request ''action result does not match request'')) (\<lambda>_.
     bindp (validate_action_descriptor B st ns action) (\<lambda>action_kind.
     bindp (liftr (validate_action_result_shape result action_kind)) (\<lambda>_.
     bindp (case ar_metadata result of None \<Rightarrow> ok ()
            | Some metadata \<Rightarrow> validate_client_metadata B st ns metadata action_kind) (\<lambda>_.
     bindp (case ar_output_root result of None \<Rightarrow> ok () | Some root_digest \<Rightarrow> validate_tree B st ns root_digest) (\<lambda>_.
     bindp (map_errp internal (on_meta (ms_commit (st_metadata st) ns action result))) (\<lambda>outcome.
     bindp (count inc_action_commit) (\<lambda>_.
       case outcome of
         CommitCreated \<Rightarrow> ok CREATED
       | CommitAlreadyExists \<Rightarrow> ok NO_CONTENT
       | CommitConflict \<Rightarrow> throw (conflict ''an immutable action result already exists'')))))))))))"

section \<open>Action manifests\<close>

definition MAX_ACTION_MANIFEST_BYTES :: nat where
  "MAX_ACTION_MANIFEST_BYTES = 16 * 1024 * 1024"

record manifest_response =
  mp_status :: status_code
  mp_content_type :: "string option"
  mp_etag :: string
  mp_body :: bytes

definition get_action_manifest ::
  "libraries \<Rightarrow> ('b, 'm) app_state \<Rightarrow> header_map \<Rightarrow> string \<times> string \<times> u64 \<Rightarrow> ('b, 'm, manifest_response) handler" where
  "get_action_manifest B st headers parts =
     bindp (authorized B st headers Read) (\<lambda>ns.
     bindp (liftr (parse_action_digest (lb_protocol B) parts)) (\<lambda>key.
     bindp (map_errp internal (on_meta (ms_get_manifest (st_metadata st) ns key))) (\<lambda>found.
     bindp (liftr (ok_or (not_found ''action manifest not found'') found)) (\<lambda>record.
     bindp (liftr (map_err internal (sd_canonical_json (lb_serde B) (mr_manifest record)))) (\<lambda>body.
       ok \<lparr>mp_status = OK, mp_content_type = Some (lb_manifest_media_type B),
           mp_etag = quoted_etag (mr_etag record), mp_body = body\<rparr>)))))"

text \<open>Buffering a body under a limit: too long and broken bodies are refused alike.\<close>

definition to_bytes :: "stream \<Rightarrow> nat \<Rightarrow> api_error + bytes" where
  "to_bytes body limit =
     (case collect body of
        Inl e \<Rightarrow> Inl (too_large ''action manifest is too large'')
      | Inr bytes \<Rightarrow> if length bytes > limit then Inl (too_large ''action manifest is too large'') else Inr bytes)"

definition put_action_manifest ::
  "libraries \<Rightarrow> ('b, 'm) app_state \<Rightarrow> header_map \<Rightarrow> string \<times> string \<times> u64 \<Rightarrow> stream
     \<Rightarrow> ('b, 'm, manifest_response) handler" where
  "put_action_manifest B st headers parts body =
     bindp (authorized B st headers Write) (\<lambda>ns.
     bindp (liftr (to_bytes body MAX_ACTION_MANIFEST_BYTES)) (\<lambda>bytes.
     bindp (liftr (map_err (\<lambda>e. bad_request (''invalid action manifest: '' @ e))
              (sd_manifest_from_slice (lb_serde B) bytes))) (\<lambda>manifest.
     bindp (liftr (parse_action_digest (lb_protocol B) parts)) (\<lambda>key.
     bindp (ensurep (\<not> (\<not> sd_manifest_validate (lb_serde B) manifest \<or> sd_selector_digest (lb_serde B) manifest \<noteq> key))
              (bad_request ''action manifest does not match request'')) (\<lambda>_.
     bindp (liftr (manifest_precondition headers)) (\<lambda>expected_etag.
     bindp (liftr (map_err internal (sd_canonical_json (lb_serde B) manifest))) (\<lambda>canonical.
     let etag = blake3_hash_hex (lb_hash B) canonical in
     bindp (map_errp internal (on_meta
              (ms_commit_manifest (st_metadata st) ns key expected_etag etag manifest))) (\<lambda>outcome.
       case outcome of
         ManifestCreated \<Rightarrow> ok \<lparr>mp_status = CREATED, mp_content_type = None, mp_etag = quoted_etag etag, mp_body = []\<rparr>
       | ManifestUpdated \<Rightarrow> ok \<lparr>mp_status = NO_CONTENT, mp_content_type = None, mp_etag = quoted_etag etag, mp_body = []\<rparr>
       | ManifestPreconditionFailed \<Rightarrow>
           throw (precondition ''action manifest changed; read and merge it before retrying'')))))))))"

section \<open>Property\<close>

text \<open>
  C25. The walk over an output tree terminates, whatever the stores answer and whatever other
  requests do to them between its rounds: no sequence of rounds goes on for ever, even when the
  stored directories refer to each other in a circle or are without number.
\<close>

theorem tree_walk_terminates:
  fixes st :: "('b, 'm) app_state"
  shows "\<nexists>s w w'. \<forall>i :: nat. tree_round B st ns (s i) (w i) = (Inr (Some (s (Suc i))), w' i)"
proof
  let ?R = "measures [\<lambda>s :: walk_state. 100001 - walked s, \<lambda>s. length (fst s)]"
  assume "\<exists>s w w'. \<forall>i :: nat. tree_round B st ns (s i) (w i) = (Inr (Some (s (Suc i))), w' i)"
  then obtain s w w' where round: "tree_round B st ns (s i) (w i) = (Inr (Some (s (Suc i))), w' i)" for i :: nat by blast
  have "(s (Suc i), s i) \<in> ?R" for i
    using tree_round_progress [OF round [of i]] by auto
  then show False using wf_measures wf_iff_no_infinite_down_chain by blast
qed

end
