(* ===== verification/Server_Invariant.thy ===== *)
theory Server_Invariant
  imports Actions
begin

text \<open>
  What the service keeps true of its two stores together, for any back ends that satisfy the
  interfaces: stored content matches its digest, visible blobs are stored, committed action
  results are closed over visible blobs, manifests are stored under their selector with the
  tag of their canonical form. Other requests may run between any two store calls; they are
  only assumed to keep the same invariant and not to remove anything, which is what every
  handler is shown to guarantee.
\<close>

section \<open>What is stored\<close>

text \<open>The abstraction of a pair of back ends.\<close>

record ('b, 'm) backend =
  bk_content :: "'b \<Rightarrow> digest \<Rightarrow> bytes option"
  bk_foreign :: "'b \<Rightarrow> digest \<Rightarrow> bytes \<Rightarrow> bool"
  bk_view :: "'m \<Rightarrow> meta_view"
  bk_inv :: "'m \<Rightarrow> bool"

text \<open>Bytes are verified for a digest when hash and size are those the digest names.\<close>

definition hash_of :: "libraries \<Rightarrow> algorithm \<Rightarrow> bytes \<Rightarrow> string" where
  "hash_of B a bs = (case a of
       Blake3 \<Rightarrow> blake3_hex (lb_hash B) [bs]
     | Sha256 \<Rightarrow> hex_encode (lb_protocol B) (sha256_finalize (lb_hash B) [bs]))"

definition verified :: "libraries \<Rightarrow> digest \<Rightarrow> bytes \<Rightarrow> bool" where
  "verified B d bs \<longleftrightarrow>
     digest_validate (lb_protocol B) d \<and> dg_size d = of_nat (length bs) \<and>
     (\<exists>a. algorithm_kind (lb_protocol B) d = Inr a \<and> hash_of B a bs = dg_hash d)"

text \<open>The canonical directory and JSON objects among the byte strings.\<close>

definition directory_object :: "libraries \<Rightarrow> bytes \<Rightarrow> directory option" where
  "directory_object B bs = (case sd_directory_from_slice (lb_serde B) bs of
       Inl _ \<Rightarrow> None
     | Inr dir \<Rightarrow> if sd_directory_to_vec (lb_serde B) dir = Inr bs \<and> dir_version dir = 1 \<and>
                   validate_directory_entries dir = Inr () then Some dir else None)"

definition canonical_object :: "libraries \<Rightarrow> bytes \<Rightarrow> json option" where
  "canonical_object B bs = (case sd_value_from_slice (lb_serde B) bs of
       Inl _ \<Rightarrow> None
     | Inr v \<Rightarrow> if is_object v \<and> sd_value_to_vec (lb_serde B) v = Inr bs then Some v else None)"

type_synonym held = "(string \<times> digest) set"
type_synonym content = "digest \<Rightarrow> bytes option"

definition node_ok :: "libraries \<Rightarrow> held \<Rightarrow> content \<Rightarrow> string \<Rightarrow> digest \<Rightarrow> bool" where
  "node_ok B held content ns d \<longleftrightarrow>
     (ns, d) \<in> held \<and>
     (\<exists>bs dir. content d = Some bs \<and> directory_object B bs = Some dir \<and>
        (\<forall>f\<in>set (dir_files dir). (ns, fn_digest f) \<in> held))"

definition children :: "libraries \<Rightarrow> content \<Rightarrow> digest \<Rightarrow> digest set" where
  "children B content d = (case content d of None \<Rightarrow> {} | Some bs \<Rightarrow>
     (case directory_object B bs of None \<Rightarrow> {} | Some dir \<Rightarrow> dn_digest ` set (dir_directories dir)))"

text \<open>
  A list of directories in which every one is sound and has its subdirectories further down:
  what it contains is closed under subdirectories and has no cycle.
\<close>

fun topological :: "libraries \<Rightarrow> held \<Rightarrow> content \<Rightarrow> string \<Rightarrow> digest list \<Rightarrow> bool" where
  "topological B held content ns [] \<longleftrightarrow> True"
| "topological B held content ns (d # ds) \<longleftrightarrow>
     node_ok B held content ns d \<and> children B content d \<subseteq> set ds \<and> topological B held content ns ds"

definition tree_closed :: "libraries \<Rightarrow> held \<Rightarrow> content \<Rightarrow> string \<Rightarrow> digest \<Rightarrow> bool" where
  "tree_closed B held content ns d \<longleftrightarrow> (\<exists>ds. d \<in> set ds \<and> topological B held content ns ds)"

definition descriptor_ok :: "libraries \<Rightarrow> held \<Rightarrow> content \<Rightarrow> string \<Rightarrow> digest \<Rightarrow> action_kind \<Rightarrow> bool" where
  "descriptor_ok B held content ns a kind \<longleftrightarrow>
     (ns, a) \<in> held \<and>
     (\<exists>bs v. content a = Some bs \<and> canonical_object B bs = Some v \<and> descriptor_kind B v = Inr kind)"

fun metadata_refs :: "libraries \<Rightarrow> action_kind \<Rightarrow> json \<Rightarrow> string + digest list" where
  "metadata_refs B KindTask v = Inr []"
| "metadata_refs B KindBuildScript v =
     bind_result (sd_build_script_metadata (lb_serde B) v) (\<lambda>m. Inr [bm_stdout m, bm_stderr m])"
| "metadata_refs B KindCc v =
     bind_result (sd_cc_metadata (lb_serde B) v) (\<lambda>m. Inr [om_stdout m, om_stderr m])"
| "metadata_refs B KindRustc v =
     bind_result (sd_rustc_metadata (lb_serde B) v) (\<lambda>m. Inr [om_stdout m, om_stderr m])"

definition metadata_ok :: "libraries \<Rightarrow> held \<Rightarrow> content \<Rightarrow> string \<Rightarrow> digest \<Rightarrow> action_kind \<Rightarrow> bool" where
  "metadata_ok B held content ns d kind \<longleftrightarrow>
     (ns, d) \<in> held \<and>
     (\<exists>bs v refs. content d = Some bs \<and> canonical_object B bs = Some v \<and>
        json_get v ''kind'' = Some (JString (expected_kind kind)) \<and>
        metadata_refs B kind v = Inr refs \<and> (\<forall>r\<in>set refs. (ns, r) \<in> held))"

definition result_ok :: "libraries \<Rightarrow> held \<Rightarrow> content \<Rightarrow> string \<Rightarrow> digest \<Rightarrow> action_result \<Rightarrow> bool" where
  "result_ok B held content ns a r \<longleftrightarrow>
     ar_version r = 1 \<and> ar_action r = a \<and> dg_algorithm a = ''blake3'' \<and>
     (\<exists>kind. descriptor_ok B held content ns a kind \<and>
        validate_action_result_shape r kind = Inr () \<and>
        (\<forall>d. ar_metadata r = Some d \<longrightarrow> metadata_ok B held content ns d kind) \<and>
        (\<forall>d. ar_output_root r = Some d \<longrightarrow> tree_closed B held content ns d))"

definition manifest_ok :: "libraries \<Rightarrow> digest \<Rightarrow> string \<Rightarrow> task_action_manifest \<Rightarrow> bool" where
  "manifest_ok B k etag m \<longleftrightarrow>
     sd_manifest_validate (lb_serde B) m \<and> sd_selector_digest (lb_serde B) m = k \<and>
     (\<exists>bs. sd_canonical_json (lb_serde B) m = Inr bs \<and> etag = blake3_hash_hex (lb_hash B) bs)"

section \<open>The invariant\<close>

definition sys_ok :: "libraries \<Rightarrow> ('b, 'm) backend \<Rightarrow> 'b \<times> 'm \<Rightarrow> bool" where
  "sys_ok B K x = (case x of (b, m) \<Rightarrow>
     bk_inv K m \<and>
     all_content (bk_content K) (bk_foreign K) (verified B) b \<and>
     (\<forall>ns d. (ns, d) \<in> v_blobs (bk_view K m) \<longrightarrow> bk_content K b d \<noteq> None) \<and>
     (\<forall>ns a r. v_results (bk_view K m) (ns, a) = Some r \<longrightarrow>
        result_ok B (v_blobs (bk_view K m)) (bk_content K b) ns a r) \<and>
     (\<forall>ns k e mf. v_manifests (bk_view K m) (ns, k) = Some (e, mf) \<longrightarrow> manifest_ok B k e mf))"

definition sys_grows :: "('b, 'm) backend \<Rightarrow> 'b \<times> 'm \<Rightarrow> 'b \<times> 'm \<Rightarrow> bool" where
  "sys_grows K x y \<longleftrightarrow>
     (\<forall>d bs. bk_content K (fst x) d = Some bs \<longrightarrow> bk_content K (fst y) d = Some bs) \<and>
     view_grows (bk_view K (snd x)) (bk_view K (snd y))"

definition stores :: "('b, 'm) world \<Rightarrow> 'b \<times> 'm" where
  "stores w = (w_blobs w, w_meta w)"

definition world_ok :: "libraries \<Rightarrow> ('b, 'm) backend \<Rightarrow> ('b, 'm) world \<Rightarrow> bool" where
  "world_ok B K w \<longleftrightarrow>
     sys_ok B K (stores w) \<and>
     (\<forall>f\<in>set (w_env w). \<forall>x. sys_ok B K x \<longrightarrow> sys_ok B K (f x) \<and> sys_grows K x (f x))"

definition w_held :: "('b, 'm) backend \<Rightarrow> ('b, 'm) world \<Rightarrow> held" where
  "w_held K w = v_blobs (bk_view K (w_meta w))"

definition w_content :: "('b, 'm) backend \<Rightarrow> ('b, 'm) world \<Rightarrow> content" where
  "w_content K w = bk_content K (w_blobs w)"

definition w_grows :: "('b, 'm) backend \<Rightarrow> ('b, 'm) world \<Rightarrow> ('b, 'm) world \<Rightarrow> bool" where
  "w_grows K w w' \<longleftrightarrow> sys_grows K (stores w) (stores w')"

lemma sys_grows_refl [simp]: "sys_grows K x x"
  by (simp add: sys_grows_def)

lemma sys_grows_trans: "sys_grows K x y \<Longrightarrow> sys_grows K y z \<Longrightarrow> sys_grows K x z"
  unfolding sys_grows_def by (blast intro: view_grows_trans)

lemma w_grows_refl [simp]: "w_grows K w w"
  by (simp add: w_grows_def)

lemma w_grows_trans: "w_grows K u v \<Longrightarrow> w_grows K v w \<Longrightarrow> w_grows K u w"
  unfolding w_grows_def by (rule sys_grows_trans)

lemma w_grows_held: "w_grows K w w' \<Longrightarrow> x \<in> w_held K w \<Longrightarrow> x \<in> w_held K w'"
  by (auto simp: w_grows_def sys_grows_def view_grows_def stores_def w_held_def)

lemma w_grows_content: "w_grows K w w' \<Longrightarrow> w_content K w d = Some bs \<Longrightarrow> w_content K w' d = Some bs"
  by (auto simp: w_grows_def sys_grows_def stores_def w_content_def)

subsection \<open>Growth keeps results sound\<close>

definition extends_to :: "held \<Rightarrow> content \<Rightarrow> held \<Rightarrow> content \<Rightarrow> bool" where
  "extends_to h c h' c' \<longleftrightarrow> h \<subseteq> h' \<and> (\<forall>d bs. c d = Some bs \<longrightarrow> c' d = Some bs)"

lemma node_ok_mono: "extends_to h c h' c' \<Longrightarrow> node_ok B h c ns d \<Longrightarrow> node_ok B h' c' ns d"
  unfolding node_ok_def extends_to_def by blast

lemma children_mono: "extends_to h c h' c' \<Longrightarrow> node_ok B h c ns d \<Longrightarrow> children B c' d = children B c d"
  unfolding node_ok_def extends_to_def children_def by (auto split: option.splits)

lemma topological_mono:
  "extends_to h c h' c' \<Longrightarrow> topological B h c ns ds \<Longrightarrow> topological B h' c' ns ds"
  by (induction ds) (auto simp: children_mono intro: node_ok_mono)

lemma result_ok_mono:
  assumes "extends_to h c h' c'" and "result_ok B h c ns a r"
  shows "result_ok B h' c' ns a r"
proof -
  have "descriptor_ok B h' c' ns a kind" if "descriptor_ok B h c ns a kind" for kind
    using that assms(1) unfolding descriptor_ok_def extends_to_def by blast
  moreover have "metadata_ok B h' c' ns d kind" if "metadata_ok B h c ns d kind" for d kind
    using that assms(1) unfolding metadata_ok_def extends_to_def by blast
  moreover have "tree_closed B h' c' ns d" if "tree_closed B h c ns d" for d
    using that topological_mono [OF assms(1)] unfolding tree_closed_def by blast
  ultimately show ?thesis using assms(2) unfolding result_ok_def by blast
qed

section \<open>Triples\<close>

text \<open>
  \<open>triple B K A h Q\<close>: from a sound world where \<open>A\<close> holds, \<open>h\<close> leads to a sound world that has
  lost nothing, and if it succeeds with \<open>x\<close> then \<open>Q x\<close> holds there. An assertion is \<open>lasting\<close>
  when growth keeps it, so that other requests cannot invalidate it.
\<close>

definition triple ::
  "libraries \<Rightarrow> ('b, 'm) backend \<Rightarrow> (('b, 'm) world \<Rightarrow> bool) \<Rightarrow> (('b, 'm) world, 'e, 'a) prog
     \<Rightarrow> ('a \<Rightarrow> ('b, 'm) world \<Rightarrow> bool) \<Rightarrow> bool" where
  "triple B K A h Q \<longleftrightarrow>
     (\<forall>w r w'. world_ok B K w \<longrightarrow> A w \<longrightarrow> h w = (r, w') \<longrightarrow>
        world_ok B K w' \<and> w_grows K w w' \<and> (\<forall>x. r = Inr x \<longrightarrow> Q x w'))"

definition lasting :: "('b, 'm) backend \<Rightarrow> (('b, 'm) world \<Rightarrow> bool) \<Rightarrow> bool" where
  "lasting K A \<longleftrightarrow> (\<forall>w w'. w_grows K w w' \<longrightarrow> A w \<longrightarrow> A w')"

named_theorems lasting_intros \<open>assertions that growth keeps\<close>

lemma lasting_const [lasting_intros]: "lasting K (\<lambda>_. b)"
  by (simp add: lasting_def)

lemma lasting_held [lasting_intros]: "lasting K (\<lambda>w. x \<in> w_held K w)"
  unfolding lasting_def using w_grows_held by blast

lemma lasting_content [lasting_intros]: "lasting K (\<lambda>w. w_content K w d = Some bs)"
  unfolding lasting_def using w_grows_content by blast

lemma lasting_conj [lasting_intros]: "lasting K A \<Longrightarrow> lasting K A' \<Longrightarrow> lasting K (\<lambda>w. A w \<and> A' w)"
  unfolding lasting_def by blast

lemma lasting_disj [lasting_intros]: "lasting K A \<Longrightarrow> lasting K A' \<Longrightarrow> lasting K (\<lambda>w. A w \<or> A' w)"
  unfolding lasting_def by blast

lemma lasting_imp [lasting_intros]: "lasting K A \<Longrightarrow> lasting K (\<lambda>w. b \<longrightarrow> A w)"
  unfolding lasting_def by blast

lemma lasting_ex [lasting_intros]: "(\<And>x. lasting K (A x)) \<Longrightarrow> lasting K (\<lambda>w. \<exists>x. A x w)"
  unfolding lasting_def by blast

lemma lasting_all [lasting_intros]: "(\<And>x. lasting K (A x)) \<Longrightarrow> lasting K (\<lambda>w. \<forall>x. A x w)"
  unfolding lasting_def by blast

lemma lasting_ball [lasting_intros]: "(\<And>x. lasting K (A x)) \<Longrightarrow> lasting K (\<lambda>w. \<forall>x\<in>X. A x w)"
  unfolding lasting_def by blast

lemma extends_to_grows:
  "w_grows K w w' \<Longrightarrow> extends_to (w_held K w) (w_content K w) (w_held K w') (w_content K w')"
  unfolding extends_to_def using w_grows_held w_grows_content by blast

lemma lasting_topological [lasting_intros]:
  "lasting K (\<lambda>w. topological B (w_held K w) (w_content K w) ns ds)"
  unfolding lasting_def using topological_mono extends_to_grows by blast

lemma lasting_tree_closed [lasting_intros]:
  "lasting K (\<lambda>w. tree_closed B (w_held K w) (w_content K w) ns d)"
  unfolding lasting_def tree_closed_def using topological_mono extends_to_grows by blast

lemma lasting_descriptor_ok [lasting_intros]:
  "lasting K (\<lambda>w. descriptor_ok B (w_held K w) (w_content K w) ns d kind)"
  unfolding descriptor_ok_def by (intro lasting_intros)

lemma lasting_metadata_ok [lasting_intros]:
  "lasting K (\<lambda>w. metadata_ok B (w_held K w) (w_content K w) ns d kind)"
  unfolding metadata_ok_def by (intro lasting_intros)

lemma lasting_node_ok [lasting_intros]:
  "lasting K (\<lambda>w. node_ok B (w_held K w) (w_content K w) ns d)"
  unfolding node_ok_def by (intro lasting_intros)

subsection \<open>Rules\<close>

lemma triple_bindp:
  assumes "triple B K A m Q" and "\<And>x. triple B K (Q x) (f x) R"
  shows "triple B K A (bindp m f) R"
  unfolding triple_def
proof (intro allI impI)
  fix w r w'
  assume w: "world_ok B K w" "A w" "bindp m f w = (r, w')"
  obtain q v where q: "m w = (q, v)" by force
  with assms(1) w have v: "world_ok B K v" "w_grows K w v" "\<And>x. q = Inr x \<Longrightarrow> Q x v"
    unfolding triple_def by blast+
  show "world_ok B K w' \<and> w_grows K w w' \<and> (\<forall>x. r = Inr x \<longrightarrow> R x w')"
  proof (cases q)
    case (Inl e)
    with q w(3) v show ?thesis by auto
  next
    case (Inr x)
    with q w(3) have "f x v = (r, w')" by simp
    with assms(2) [of x] v Inr show ?thesis unfolding triple_def by (blast intro: w_grows_trans)
  qed
qed

lemma triple_weaken:
  assumes "triple B K A h Q" and "\<And>w. A' w \<Longrightarrow> A w" and "\<And>x w. Q x w \<Longrightarrow> Q' x w"
  shows "triple B K A' h Q'"
  using assms unfolding triple_def by blast

lemma triple_post: "triple B K A h Q \<Longrightarrow> (\<And>x w. Q x w \<Longrightarrow> Q' x w) \<Longrightarrow> triple B K A h Q'"
  by (rule triple_weaken)

lemma triple_frame:
  assumes "triple B K A h Q" and "lasting K F"
  shows "triple B K (\<lambda>w. A w \<and> F w) h (\<lambda>x w. Q x w \<and> F w)"
  using assms unfolding triple_def lasting_def by blast

lemma triple_ok: "triple B K A (ok x) (\<lambda>y w. y = x \<and> A w)"
  by (auto simp: triple_def ok_def)

lemma triple_ok_post: "(\<And>w. A w \<Longrightarrow> Q x w) \<Longrightarrow> triple B K A (ok x) Q"
  by (auto simp: triple_def ok_def)

lemma triple_throw: "triple B K A (throw e) Q"
  by (auto simp: triple_def throw_def)

lemma triple_liftr: "triple B K A (liftr r) (\<lambda>x w. r = Inr x \<and> A w)"
  by (auto simp: triple_def liftr_def)

lemma triple_ensurep: "triple B K A (ensurep b e) (\<lambda>_ w. b \<and> A w)"
  by (auto simp: triple_def ensurep_def ok_def throw_def)

lemma triple_map_errp: "triple B K A (map_errp f h) Q" if "triple B K A h Q"
  using that by (auto simp: triple_def map_errp_def split: prod.splits) (metis map_err_Inr_iff)+

lemma triple_pre: "(b \<Longrightarrow> triple B K A h Q) \<Longrightarrow> triple B K (\<lambda>w. b \<and> A w) h Q"
  unfolding triple_def by blast

text \<open>Effects that do not touch the stores.\<close>

lemma stores_same:
  assumes "w_blobs w' = w_blobs w" and "w_meta w' = w_meta w" and "w_env w' = w_env w"
  shows "world_ok B K w \<Longrightarrow> world_ok B K w'" and "w_grows K w w'"
  using assms by (simp_all add: world_ok_def w_grows_def stores_def)

lemma triple_local:
  assumes "\<And>w r w'. h w = (r, w') \<Longrightarrow>
      w_blobs w' = w_blobs w \<and> w_meta w' = w_meta w \<and> w_env w' = w_env w \<and> (\<forall>x. r = Inr x \<longrightarrow> Q x)"
    and "lasting K A"
  shows "triple B K A h (\<lambda>x w. Q x \<and> A w)"
  unfolding triple_def
proof (intro allI impI)
  fix w r w'
  assume w: "world_ok B K w" "A w" "h w = (r, w')"
  with assms(1) have same: "w_blobs w' = w_blobs w" "w_meta w' = w_meta w" "w_env w' = w_env w"
    and q: "\<And>x. r = Inr x \<Longrightarrow> Q x" by blast+
  with w stores_same [OF same] have "w_grows K w w'" "world_ok B K w'" by blast+
  with w(2) assms(2) q show "world_ok B K w' \<and> w_grows K w w' \<and> (\<forall>x. r = Inr x \<longrightarrow> Q x \<and> A w')"
    unfolding lasting_def by blast
qed

lemma triple_local_unit:
  assumes "\<And>w r w'. h w = (r, w') \<Longrightarrow> w_blobs w' = w_blobs w \<and> w_meta w' = w_meta w \<and> w_env w' = w_env w"
    and "lasting K A"
  shows "triple B K A h (\<lambda>_. A)"
  using triple_local [of h "\<lambda>_. True" K A B] assms by simp

lemma triple_count: "lasting K A \<Longrightarrow> triple B K A (count f) (\<lambda>_. A)"
  by (rule triple_local_unit) (auto simp: count_def modifyp_def)

text \<open>Counting keeps every assertion on the stores, one that growth would break included.\<close>

lemma triple_count_same:
  assumes "\<And>w. A w \<Longrightarrow> A (w_metrics_update f w)"
  shows "triple B K A (count f) (\<lambda>_. A)"
  unfolding triple_def
proof (intro allI impI)
  fix w r w'
  assume w: "world_ok B K w" "A w" "count f w = (r, w')"
  then have w': "w' = w_metrics_update f w" by (simp add: count_def modifyp_def)
  with assms w(2) have "A w'" by simp
  with w(1) stores_same [of w' w] w' show "world_ok B K w' \<and> w_grows K w w' \<and> (\<forall>x. r = Inr x \<longrightarrow> A w')" by simp
qed

lemma triple_temp_io: "lasting K A \<Longrightarrow> triple B K A temp_io (\<lambda>_. A)"
  by (rule triple_local_unit) (auto simp: temp_io_def split: list.splits option.splits)

lemma triple_authorized: "lasting K A \<Longrightarrow> triple B K A (authorized L st headers access) (\<lambda>_. A)"
  by (rule triple_local_unit) (auto simp: authorized_def zoom_def split: prod.splits)

text \<open>The other requests.\<close>

lemma others_run_ok:
  assumes "world_ok B K w"
  shows "world_ok B K (others_run w) \<and> w_grows K w (others_run w)"
proof (cases "w_env w")
  case Nil
  with assms show ?thesis by (simp add: others_run_def)
next
  case (Cons f fs)
  obtain b m where bm: "f (w_blobs w, w_meta w) = (b, m)" by force
  from Cons have "f \<in> set (w_env w)" by simp
  with assms have "sys_ok B K (f (stores w)) \<and> sys_grows K (stores w) (f (stores w))"
    unfolding world_ok_def by blast
  with bm have "sys_ok B K (b, m)" "sys_grows K (stores w) (b, m)" by (simp_all add: stores_def)
  with assms Cons bm show ?thesis
    by (auto simp: others_run_def world_ok_def w_grows_def stores_def)
qed

lemma triple_on_meta:
  assumes "\<And>w r m. world_ok B K w \<Longrightarrow> A w \<Longrightarrow> p (w_meta w) = (r, m) \<Longrightarrow>
      sys_ok B K (w_blobs w, m) \<and> view_grows (bk_view K (w_meta w)) (bk_view K m) \<and>
      (\<forall>x. r = Inr x \<longrightarrow> Q x (w\<lparr>w_meta := m\<rparr>))"
    and "lasting K A"
  shows "triple B K A (on_meta p) Q"
  unfolding triple_def
proof (intro allI impI)
  fix w r w'
  assume w: "world_ok B K w" "A w" "on_meta p w = (r, w')"
  let ?v = "others_run w"
  from w(3) obtain m where m: "p (w_meta ?v) = (r, m)" "w' = ?v\<lparr>w_meta := m\<rparr>"
    by (auto simp: on_meta_def zoom_def split: prod.splits)
  note v = others_run_ok [OF w(1)]
  with w(2) assms(2) have "A ?v" unfolding lasting_def by blast
  with assms(1) m v have p: "sys_ok B K (w_blobs ?v, m)" "view_grows (bk_view K (w_meta ?v)) (bk_view K m)"
    "\<And>x. r = Inr x \<Longrightarrow> Q x w'" by blast+
  then have "world_ok B K w'" "w_grows K ?v w'"
    using v m by (auto simp: world_ok_def w_grows_def sys_grows_def stores_def)
  with v p(3) show "world_ok B K w' \<and> w_grows K w w' \<and> (\<forall>x. r = Inr x \<longrightarrow> Q x w')"
    by (blast intro: w_grows_trans)
qed

lemma triple_on_blobs:
  assumes "\<And>w r b. world_ok B K w \<Longrightarrow> A w \<Longrightarrow> p (w_blobs w) = (r, b) \<Longrightarrow>
      sys_ok B K (b, w_meta w) \<and>
      (\<forall>d bs. bk_content K (w_blobs w) d = Some bs \<longrightarrow> bk_content K b d = Some bs) \<and>
      (\<forall>x. r = Inr x \<longrightarrow> Q x (w\<lparr>w_blobs := b\<rparr>))"
    and "lasting K A"
  shows "triple B K A (on_blobs p) Q"
  unfolding triple_def
proof (intro allI impI)
  fix w r w'
  assume w: "world_ok B K w" "A w" "on_blobs p w = (r, w')"
  let ?v = "others_run w"
  from w(3) obtain b where b: "p (w_blobs ?v) = (r, b)" "w' = ?v\<lparr>w_blobs := b\<rparr>"
    by (auto simp: on_blobs_def zoom_def split: prod.splits)
  note v = others_run_ok [OF w(1)]
  with w(2) assms(2) have "A ?v" unfolding lasting_def by blast
  with assms(1) b v have p: "sys_ok B K (b, w_meta ?v)"
    "\<forall>d bs. bk_content K (w_blobs ?v) d = Some bs \<longrightarrow> bk_content K b d = Some bs"
    "\<And>x. r = Inr x \<Longrightarrow> Q x w'" by blast+
  then have "world_ok B K w'" "w_grows K ?v w'"
    using v b by (auto simp: world_ok_def w_grows_def sys_grows_def stores_def)
  with v p(3) show "world_ok B K w' \<and> w_grows K w w' \<and> (\<forall>x. r = Inr x \<longrightarrow> Q x w')"
    by (blast intro: w_grows_trans)
qed

end
