(* ===== verification/Oidc_Props.thy ===== *)
theory Oidc_Props
  imports Oidc
begin

text \<open>
  What the authorization code of \<^verbatim>\<open>src/auth.rs\<close> guarantees: who is let in and why, what a
  constructed authorizer looks like, how often an identity provider is asked for its keys,
  and that a provider that is down does not lock out tokens whose key is known.
\<close>

section \<open>Programs of the authorizer\<close>

text \<open>The token library checks the signature and the registered claims it is told to check.\<close>

definition jwt_documented :: "jwt_library \<Rightarrow> (string \<Rightarrow> string \<Rightarrow> jwt_algorithm \<Rightarrow> bool) \<Rightarrow> bool" where
  "jwt_documented L sig_ok \<longleftrightarrow>
     (\<forall>now token key v claims. jl_decode L now token key v = Inr claims \<longrightarrow>
        sig_ok token key (va_algorithm v) \<and>
        (\<exists>iss. json_get claims ''iss'' = Some (JString iss) \<and> iss \<in> set (va_issuer v)))"

lemma refresh_keys_effect:
  assumes "refresh_keys L N self kid s = (r, t)"
  shows "as_now s \<le> as_now t \<and>
    (if refresh_needed L self kid s
     then as_requests t = as_requests s @ [(as_now s, op_jwks_uri self)] \<and>
          ck_attempted_at (keys_of self t) = Some (as_now s)
     else t = s \<and> r = Inr ())"
proof (cases "refresh_needed L self kid s")
  case True
  let ?u = "set_keys self (\<lambda>k. k\<lparr>ck_attempted_at := Some (as_now s)\<rparr>) s"
  obtain q v where f: "fetch_jwks N (op_jwks_uri self) ?u = (q, v)" by force
  then have v: "as_requests v = as_requests s @ [(as_now s, op_jwks_uri self)]" "as_now s \<le> as_now v"
      "ck_attempted_at (keys_of self v) = Some (as_now s)"
    by (auto simp: fetch_jwks_def send_def set_keys_def keys_of_def)
  have "t = v \<or> (\<exists>set. t = set_keys self (\<lambda>k. k\<lparr>ck_set := set, ck_fetched_at := as_now v\<rparr>) v)"
    using assms True f by (cases q) (auto simp: refresh_keys_def bindp_def modifyp_def)
  with True v show ?thesis by (auto simp: set_keys_def keys_of_def)
next
  case False
  with assms show ?thesis by (auto simp: refresh_keys_def)
qed

lemma refresh_failure_keeps_set:
  assumes "refresh_keys L N self kid s = (Inl e, t)"
  shows "ck_set (keys_of self t) = ck_set (keys_of self s)"
  using assms
  by (auto simp: refresh_keys_def prog_simps fetch_jwks_def send_def set_keys_def keys_of_def split: if_splits)

lemma ensure_keys_cases:
  assumes "ensure_keys L N self kid s = (r, t)"
  obtains "t = s" | q where "refresh_keys L N self kid s = (q, t)"
  using assms
  by (cases "refresh_keys L N self kid s")
    (auto simp: ensure_keys_def Let_def split: if_splits sum.splits)

lemma verify_Inr:
  assumes "verify L N self token s = (Inr claims, t)"
  obtains header kid jwk key where "jl_decode_header L token = Inr header" "jh_kid header = Some kid"
    "jh_alg header \<in> set (op_algorithms self)" "jl_find L (ck_set (keys_of self t)) kid = Some jwk"
    "key_usable L jwk (jh_alg header)" "jl_from_jwk L jwk = Inr key"
    "jl_decode L (as_now t) token key (token_validation self (jh_alg header)) = Inr claims"
  using assms unfolding verify_def
  by (auto simp: prog_simps result_simps split: if_splits)

lemma verify_state:
  assumes "verify L N self token s = (r, t)"
  obtains "t = s" | kid q where "refresh_keys L N self kid s = (q, t)"
proof -
  have "t = s \<or> (\<exists>kid q. refresh_keys L N self kid s = (q, t))"
  proof (cases r)
    case (Inl e)
    with assms show ?thesis
      unfolding verify_def
      by (auto simp: prog_simps split: if_splits elim!: ensure_keys_cases)
  next
    case (Inr x)
    with assms show ?thesis
      unfolding verify_def
      by (auto simp: prog_simps split: if_splits elim!: ensure_keys_cases)
  qed
  with that show ?thesis by blast
qed

lemma find_SomeD: "find Q xs = Some x \<Longrightarrow> x \<in> set xs \<and> Q x"
  by (auto simp: find_Some_iff)

lemma authorize_token_namespace:
  "authorize_token L N self token access ns s = (Inr ns', t) \<Longrightarrow> ns' = ns"
  by (auto simp: authorize_token_def authorize_patterns_def prog_simps split: if_splits option.splits)

lemma authorize_Inr:
  assumes "authorize L N self headers access s = (Inr ns, t)"
  shows "headers ''mbx-cache-protocol'' = Some ''1'' \<and> headers ''mbx-cache-namespace'' = Some ns \<and>
    valid_namespace ns \<and>
    ((au_allow_anonymous self \<and> au_grants self = [] \<and> au_oidc self = []) \<or>
     (access = Read \<and> list_ex (\<lambda>p. matches_namespace p ns) (au_anonymous_read_namespaces self)) \<or>
     (\<exists>token. headers ''authorization'' = Some (''Bearer '' @ token) \<and>
        authorize_token L N self token access ns s = (Inr ns, t)))"
proof -
  have protocol: "headers ''mbx-cache-protocol'' = Some ''1''"
    using assms by (simp add: authorize_def throw_def split: if_splits)
  with assms obtain ns0 where ns0: "headers ''mbx-cache-namespace'' = Some ns0" "valid_namespace ns0"
    and rest: "authorize_namespace L N self headers access ns0 s = (Inr ns, t)"
    by (auto simp: authorize_def bindp_Inr_iff liftr_iff ok_or_Inr_iff bind_eq_Some_conv split: if_splits)
  from rest have "ns = ns0 \<and> ((au_allow_anonymous self \<and> au_grants self = [] \<and> au_oidc self = []) \<or>
     (access = Read \<and> list_ex (\<lambda>p. matches_namespace p ns0) (au_anonymous_read_namespaces self)) \<or>
     (\<exists>token. headers ''authorization'' = Some (''Bearer '' @ token) \<and>
        authorize_token L N self token access ns0 s = (Inr ns, t)))"
    unfolding authorize_namespace_def
    by (auto simp: ok_def bindp_Inr_iff liftr_iff ok_or_Inr_iff bind_eq_Some_conv strip_prefix_Some_iff
        dest: authorize_token_namespace split: if_split_asm)
  with protocol ns0 show ?thesis by auto
qed

section \<open>Histories\<close>

text \<open>
  The calls of one provider's \<open>verify\<close> in the order their key refreshes take the lock, with
  time passing in between.
\<close>

inductive verify_history ::
  "jwt_library \<Rightarrow> network \<Rightarrow> oidc_provider \<Rightarrow> auth_state \<Rightarrow> auth_state \<Rightarrow> bool"
  for L N self s where
  start: "verify_history L N self s s"
| idle: "verify_history L N self s t \<Longrightarrow> verify_history L N self s (t\<lparr>as_now := as_now t + d\<rparr>)"
| call: "verify_history L N self s t \<Longrightarrow> verify L N self token t = (r, u) \<Longrightarrow> verify_history L N self s u"

definition spaced :: "nat \<Rightarrow> nat list \<Rightarrow> bool" where
  "spaced gap ts \<longleftrightarrow> sorted_wrt (\<lambda>a b. a + gap \<le> b) ts"

text \<open>The requests sent so far, and when the last of them was.\<close>

definition refresh_log :: "oidc_provider \<Rightarrow> auth_state \<Rightarrow> nat list \<Rightarrow> auth_state \<Rightarrow> bool" where
  "refresh_log self s ts t \<longleftrightarrow>
     as_requests t = as_requests s @ map (\<lambda>x. (x, op_jwks_uri self)) ts \<and>
     spaced (op_min_refresh_interval self) ts \<and> (\<forall>x\<in>set ts. x \<le> as_now t) \<and>
     (ts \<noteq> [] \<longrightarrow> ck_attempted_at (keys_of self t) = Some (last ts))"

lemma spaced_last:
  assumes "spaced gap ts" and "x \<in> set ts"
  shows "x \<le> last ts"
proof -
  from assms(2) have "ts \<noteq> []" by auto
  then obtain us where us: "ts = us @ [last ts]" by (metis append_butlast_last_id)
  have "sorted_wrt (\<lambda>a b. a + gap \<le> b) (us @ [last ts])"
    using assms(1) us by (simp add: spaced_def)
  then have "\<forall>y\<in>set us. y + gap \<le> last ts" by (simp add: sorted_wrt_append)
  moreover have "x \<in> set us \<or> x = last ts" using assms(2) us by (metis Un_iff in_set_conv_decomp set_append set_ConsD append_Nil2 list.set_cases)
  ultimately show ?thesis by fastforce
qed

lemma refresh_log_step:
  assumes "refresh_log self s ts t" and "refresh_keys L N self kid t = (q, u)"
  shows "\<exists>ts'. refresh_log self s ts' u"
proof (cases "refresh_needed L self kid t")
  case True
  with refresh_keys_effect [OF assms(2)] have u: "as_now t \<le> as_now u"
    "as_requests u = as_requests t @ [(as_now t, op_jwks_uri self)]"
    "ck_attempted_at (keys_of self u) = Some (as_now t)" by auto
  have "x + op_min_refresh_interval self \<le> as_now t" if "x \<in> set ts" for x
  proof -
    from that have "last ts \<in> set ts" by (cases ts) auto
    with that assms(1) have "ck_attempted_at (keys_of self t) = Some (last ts)" "last ts \<le> as_now t"
      by (auto simp: refresh_log_def)
    with True have "last ts + op_min_refresh_interval self \<le> as_now t"
      by (auto simp: refresh_needed_def Let_def)
    with spaced_last [of "op_min_refresh_interval self" ts x] that assms(1) show ?thesis
      by (simp add: refresh_log_def)
  qed
  then have "refresh_log self s (ts @ [as_now t]) u"
    using assms(1) u by (fastforce simp: refresh_log_def spaced_def sorted_wrt_append)
  then show ?thesis ..
next
  case False
  with refresh_keys_effect [OF assms(2)] assms(1) show ?thesis by auto
qed

lemma verify_history_log: "verify_history L N self s t \<Longrightarrow> \<exists>ts. refresh_log self s ts t"
proof (induction rule: verify_history.induct)
  case start
  have "refresh_log self s [] s" by (simp add: refresh_log_def spaced_def)
  then show ?case ..
next
  case (idle t d)
  then show ?case by (fastforce simp: refresh_log_def keys_of_def)
next
  case (call t token r u)
  from call.hyps(2) show ?case
    by (rule verify_state) (use call.IH refresh_log_step in blast)+
qed

section \<open>Construction\<close>

text \<open>What holds of every authorizer the service builds.\<close>

definition provider_ok :: "oidc_provider \<Rightarrow> bool" where
  "provider_ok p \<longleftrightarrow>
     validate_provider_config (op_config p) = Inr () \<and>
     op_algorithms p \<noteq> [] \<and> set (op_algorithms p) \<subseteq> set DEFAULT_ALGORITHMS \<and>
     op_min_refresh_interval p = 1000 * MIN_JWKS_REFRESH_SECONDS"

definition authorizer_ok :: "authorizer \<Rightarrow> bool" where
  "authorizer_ok self \<longleftrightarrow>
     (\<forall>p\<in>set (au_oidc self). provider_ok p) \<and> distinct (map (oc_issuer \<circ> op_config) (au_oidc self))"

lemma OidcProvider_new_ok:
  assumes "OidcProvider_new L N config s = (Inr p, t)"
  shows "provider_ok p \<and> op_config p = config"
proof -
  from assms obtain advertised as where v: "validate_provider_config config = Inr ()"
    and as: "configured_algorithms (jl_from_str L) (oc_algorithms config) advertised = Inr as"
    and p: "op_config p = config" "op_algorithms p = as" "op_min_refresh_interval p = 1000 * MIN_JWKS_REFRESH_SECONDS"
    by (auto simp: OidcProvider_new_def prog_simps)
  from configured_algorithms_Inr [OF as] v p show ?thesis by (simp add: provider_ok_def)
qed

lemma new_providers_ok:
  "new_providers L N issuers configs s = (Inr ps, t) \<Longrightarrow>
     (\<forall>p\<in>set ps. provider_ok p) \<and> map op_config ps = configs \<and>
     distinct (map oc_issuer configs) \<and> set (map oc_issuer configs) \<inter> issuers = {}"
proof (induction configs arbitrary: issuers ps s)
  case (Cons config configs)
  then obtain p u qs where "oc_issuer config \<notin> issuers" "OidcProvider_new L N config s = (Inr p, u)"
    "new_providers L N (insert (oc_issuer config) issuers) configs u = (Inr qs, t)" "ps = p # qs"
    by (auto simp: prog_simps split: if_splits)
  with Cons.IH [of "insert (oc_issuer config) issuers" u qs] OidcProvider_new_ok show ?case by fastforce
qed (auto simp: prog_simps)

text \<open>A library, a network and a provider for the witnesses: one key, one signed token.\<close>

definition example_jwk :: jwk where
  "example_jwk = \<lparr>jwk_kid = Some ''k1'', jwk_key_algorithm = Some ''RS256'', jwk_public_key_use = Some ''sig'',
                  jwk_key_operations = None, jwk_parameters = ''n,e''\<rparr>"

definition example_claims :: json where
  "example_claims = JObject [(''iss'', JString ''https://idp''), (''team'', JArray [JString ''infra''])]"

definition example_library :: jwt_library where
  "example_library =
     \<lparr>jl_decode_header = (\<lambda>token. if token = ''h.p.s'' then Inr \<lparr>jh_kid = Some ''k1'', jh_alg = RS256\<rparr> else Inl ''bad''),
      jl_from_str = (\<lambda>name. if name = ''RS256'' then Some RS256 else if name = ''HS256'' then Some HS256 else None),
      jl_find = (\<lambda>ks kid. find (\<lambda>k. jwk_kid k = Some kid) ks),
      jl_from_jwk = (\<lambda>k. Inr (jwk_parameters k)),
      jl_decode = (\<lambda>now token key v. if token = ''h.p.s'' \<and> key = ''n,e'' \<and> va_algorithm v = RS256 \<and>
         va_issuer v = [''https://idp''] then Inr example_claims else Inl ''bad''),
      jl_base64_decode = (\<lambda>s. if s = ''p'' then Inr [1] else Inl ''bad''),
      jl_from_slice = (\<lambda>b. if b = [1] then Inr example_claims else Inl ''bad'')\<rparr>"

definition example_network :: network where
  "example_network =
     \<lparr>nw_discovery = (\<lambda>now uri. Inr \<lparr>dd_issuer = ''https://idp'', dd_jwks_uri = ''https://idp/keys'',
         dd_id_token_signing_alg_values_supported = [''HS256'', ''RS256'']\<rparr>),
      nw_jwks = (\<lambda>now uri. if now < 100000 then Inr [example_jwk] else Inl ''connection refused''),
      nw_latency = (\<lambda>now uri. 20)\<rparr>"

definition example_config :: oidc_provider_config where
  "example_config =
     \<lparr>oc_issuer = ''https://idp'', oc_audiences = [''mbx''], oc_discovery_uri = None, oc_jwks_uri = None,
      oc_algorithms = [], oc_jwks_refresh_seconds = 300, oc_clock_skew_seconds = 60,
      oc_rules = [\<lparr>or_claims = [(''team'', One (ScalarString ''infra''))], or_read = [''*''],
                   or_write = [''infra/*'']\<rparr>]\<rparr>"

definition example_parsers :: auth_parsers where
  "example_parsers = \<lparr>pa_grants = (\<lambda>_. Inr []), pa_providers = (\<lambda>_. Inr [example_config]),
                      pa_namespaces = (\<lambda>_. Inr [])\<rparr>"

definition example_provider :: oidc_provider where
  "example_provider = \<lparr>op_config = example_config, op_algorithms = [RS256],
                       op_jwks_uri = ''https://idp/keys'', op_min_refresh_interval = 30000\<rparr>"

definition example_authorizer :: authorizer where
  "example_authorizer = \<lparr>au_grants = [], au_oidc = [example_provider], au_allow_anonymous = False,
                         au_anonymous_read_namespaces = []\<rparr>"

definition example_auth_state :: "nat \<Rightarrow> auth_state" where
  "example_auth_state now =
     \<lparr>as_now = now, as_keys = (\<lambda>_. \<lparr>ck_set = [example_jwk], ck_fetched_at = 40, ck_attempted_at = None\<rparr>),
      as_requests = []\<rparr>"

definition example_headers :: header_map where
  "example_headers = [''mbx-cache-protocol'' \<mapsto> ''1'', ''mbx-cache-namespace'' \<mapsto> ''infra/ci'',
                      ''authorization'' \<mapsto> ''Bearer h.p.s'']"

lemmas example_auth_defs = example_jwk_def example_claims_def example_library_def example_network_def
  example_config_def example_provider_def example_authorizer_def example_auth_state_def

lemma example_library_documented:
  "jwt_documented example_library (\<lambda>token key alg. token = ''h.p.s'' \<and> key = ''n,e'' \<and> alg = RS256)"
  by (auto simp: jwt_documented_def example_library_def example_claims_def json_get_def split: if_splits)

lemma example_authorizer_ok: "authorizer_ok example_authorizer"
  by (simp add: authorizer_ok_def provider_ok_def result_simps example_auth_defs DEFAULT_ALGORITHMS_def
      MIN_JWKS_REFRESH_SECONDS_def)

section \<open>Properties\<close>

text \<open>
  What it means that a provider vouches for the claims of a token: the token names a key that is
  cached for the provider and fit for its algorithm, an asymmetric one; the signature of the token
  verifies under that key; the claims are those the token library decodes from this very token
  with this key, under the provider's audiences, issuer and clock skew at the present time; and
  their issuer is the provider's.
\<close>

definition token_verified ::
  "jwt_library \<Rightarrow> (string \<Rightarrow> string \<Rightarrow> jwt_algorithm \<Rightarrow> bool) \<Rightarrow> oidc_provider \<Rightarrow> string \<Rightarrow> auth_state \<Rightarrow> json \<Rightarrow> bool" where
  "token_verified L sig_ok provider token s claims \<longleftrightarrow>
     (\<exists>header kid jwk key. jl_decode_header L token = Inr header \<and> jh_kid header = Some kid \<and>
        jl_find L (ck_set (keys_of provider s)) kid = Some jwk \<and> key_usable L jwk (jh_alg header) \<and>
        jl_from_jwk L jwk = Inr key \<and>
        jh_alg header \<in> set (op_algorithms provider) \<and> jh_alg header \<in> set DEFAULT_ALGORITHMS \<and>
        sig_ok token key (jh_alg header) \<and>
        jl_decode L (as_now s) token key (token_validation provider (jh_alg header)) = Inr claims \<and>
        json_get claims ''iss'' = Some (JString (oc_issuer (op_config provider))))"

lemma authorize_token_sound:
  assumes "jwt_documented L sig_ok" and "authorizer_ok self"
    and token: "authorize_token L N self token access ns s = (Inr ns, t)"
  shows "(\<exists>grant\<in>set (au_grants self). tg_token grant = token \<and>
        (\<exists>p\<in>set (grant_patterns grant access). matches_namespace p ns)) \<or>
     (\<exists>provider\<in>set (au_oidc self). \<exists>claims. token_verified L sig_ok provider token t claims \<and>
        (\<exists>rule\<in>set (oc_rules (op_config provider)). matches_claims rule claims \<and>
           (\<exists>p\<in>set (rule_patterns rule access). matches_namespace p ns)))"
proof (cases "find (\<lambda>grant. constant_time_eq (as_bytes (tg_token grant)) (as_bytes token)) (au_grants self)")
  case (Some grant)
  then have "grant \<in> set (au_grants self)" "tg_token grant = token"
    by (auto simp: find_Some_iff constant_time_eq_iff)
  moreover have "\<exists>p\<in>set (grant_patterns grant access). matches_namespace p ns"
    using token Some
    by (auto simp: authorize_token_def authorize_patterns_def prog_simps list_ex_iff split: if_splits)
  ultimately show ?thesis by blast
next
  case None
  with token obtain provider claims where p: "provider \<in> set (au_oidc self)"
    and v: "verify L N provider token s = (Inr claims, t)"
    and rule: "list_ex (\<lambda>rule. rule_authorizes rule claims access ns) (oc_rules (op_config provider))"
    by (auto simp: authorize_token_def prog_simps result_simps dest!: find_SomeD split: if_splits)
  obtain header kid jwk key where header: "jl_decode_header L token = Inr header" "jh_kid header = Some kid"
    and k1: "jh_alg header \<in> set (op_algorithms provider)"
    and found: "jl_find L (ck_set (keys_of provider t)) kid = Some jwk" "key_usable L jwk (jh_alg header)"
    and k: "jl_from_jwk L jwk = Inr key"
    "jl_decode L (as_now t) token key (token_validation provider (jh_alg header)) = Inr claims"
    by (rule verify_Inr [OF v])
  have sig: "sig_ok token key (jh_alg header)"
    and iss: "json_get claims ''iss'' = Some (JString (oc_issuer (op_config provider)))"
    using assms(1) k(2) unfolding jwt_documented_def by (fastforce simp: token_validation_def)+
  have alg: "jh_alg header \<in> set DEFAULT_ALGORITHMS"
    using assms(2) p k1 by (auto simp: authorizer_ok_def provider_ok_def)
  have "\<exists>rule\<in>set (oc_rules (op_config provider)). matches_claims rule claims \<and>
      (\<exists>p\<in>set (rule_patterns rule access). matches_namespace p ns)"
    using rule by (auto simp: list_ex_iff rule_authorizes_def)
  moreover have "token_verified L sig_ok provider token t claims"
    unfolding token_verified_def using header k1 found k sig iss alg by blast
  ultimately show ?thesis using p by blast
qed

text \<open>
  C33. Nobody is let in without a reason: a request that is authorized speaks protocol 1, names
  a well-formed namespace, and either the service is configured to be open, or the namespace
  is open for anonymous reads, or the bearer token is a configured one with a matching pattern
  for this access, or it is a token a configured provider vouches for: its signature verifies
  under the provider's own key and an asymmetric algorithm, and one of the provider's rules
  matches the claims the token library decoded from that very token for the provider's audiences,
  issuer and clock skew, and covers the namespace for this access.
\<close>

theorem authorize_sound:
  assumes "jwt_documented L sig_ok" and "authorizer_ok self"
    and "authorize L N self headers access s = (Inr ns, t)"
  shows "headers ''mbx-cache-protocol'' = Some ''1'' \<and> headers ''mbx-cache-namespace'' = Some ns \<and>
    valid_namespace ns \<and>
    ((au_allow_anonymous self \<and> au_grants self = [] \<and> au_oidc self = []) \<or>
     (access = Read \<and> (\<exists>p\<in>set (au_anonymous_read_namespaces self). matches_namespace p ns)) \<or>
     (\<exists>token. headers ''authorization'' = Some (''Bearer '' @ token) \<and>
       ((\<exists>grant\<in>set (au_grants self). tg_token grant = token \<and>
           (\<exists>p\<in>set (grant_patterns grant access). matches_namespace p ns)) \<or>
        (\<exists>provider\<in>set (au_oidc self). \<exists>claims. token_verified L sig_ok provider token t claims \<and>
           (\<exists>rule\<in>set (oc_rules (op_config provider)). matches_claims rule claims \<and>
              (\<exists>p\<in>set (rule_patterns rule access). matches_namespace p ns))))))"
proof -
  let ?anonymous = "au_allow_anonymous self \<and> au_grants self = [] \<and> au_oidc self = []"
  let ?open = "access = Read \<and> list_ex (\<lambda>p. matches_namespace p ns) (au_anonymous_read_namespaces self)"
  note cases = authorize_Inr [OF assms(3)]
  then have head: "headers ''mbx-cache-protocol'' = Some ''1''"
    "headers ''mbx-cache-namespace'' = Some ns" "valid_namespace ns" by blast+
  show ?thesis
  proof (cases "?anonymous \<or> ?open")
    case True
    with head show ?thesis by (auto simp: list_ex_iff)
  next
    case False
    with cases obtain token where token: "headers ''authorization'' = Some (''Bearer '' @ token)"
      "authorize_token L N self token access ns s = (Inr ns, t)" by blast
    from authorize_token_sound [OF assms(1,2) token(2)] token(1) head show ?thesis by blast
  qed
qed

theorem authorize_sound_witness:
  "\<exists>t claims. authorize example_library example_network example_authorizer example_headers Write
        (example_auth_state 1000) = (Inr ''infra/ci'', t) \<and>
      token_verified example_library (\<lambda>token key alg. token = ''h.p.s'' \<and> key = ''n,e'' \<and> alg = RS256)
        example_provider ''h.p.s'' t claims \<and>
      (\<exists>p\<in>set (rule_patterns (hd (oc_rules example_config)) Write). matches_namespace p ''infra/ci'')"
proof -
  have valid: "valid_namespace ''infra/ci''" by code_simp
  have "fst (authorize example_library example_network example_authorizer example_headers Write
      (example_auth_state 1000)) = Inr ''infra/ci''"
    by (simp add: authorize_def authorize_namespace_def authorize_token_def unverified_issuer_def verify_def
        ensure_keys_def rule_authorizes_def matches_claims_def requirement_matches_def matches_namespace_iff
        key_usable_def token_validation_def keys_of_def seconds_def bindp_def liftr_def ensurep_def ok_def
        map_errp_def json_get_def strip_prefix_def example_headers_def example_auth_defs valid)
  then obtain t where run: "authorize example_library example_network example_authorizer example_headers Write
      (example_auth_state 1000) = (Inr ''infra/ci'', t)" by (metis prod.collapse)
  have providers: "au_oidc example_authorizer = [example_provider]" "au_grants example_authorizer = []"
    "op_config example_provider = example_config" "length (oc_rules example_config) = 1"
    by (simp_all add: example_authorizer_def example_provider_def example_config_def)
  then obtain rule where rule: "oc_rules example_config = [rule]" by (auto simp: length_Suc_conv)
  have headers: "example_headers ''authorization'' = Some (''Bearer '' @ token) \<longleftrightarrow> token = ''h.p.s''" for token
    by (auto simp: example_headers_def)
  from authorize_sound [OF example_library_documented example_authorizer_ok run] run show ?thesis
    by (simp add: providers rule headers [simplified]) blast
qed

text \<open>
  C34. An authorizer that was built has valid provider configurations with pairwise different
  issuers, and each provider accepts at least one signing algorithm and only asymmetric ones:
  no configuration and no discovery document makes it accept a shared-secret signature.
\<close>

theorem authorizer_construction:
  assumes "Authorizer_new L N A grants providers anonymous namespaces s = (Inr self, t)"
  shows "authorizer_ok self \<and>
    (\<forall>p\<in>set (au_oidc self). HS256 \<notin> set (op_algorithms p) \<and> HS384 \<notin> set (op_algorithms p) \<and>
       HS512 \<notin> set (op_algorithms p))"
proof -
  from assms obtain configs u where "new_providers L N {} configs u = (Inr (au_oidc self), t)"
    by (auto simp: Authorizer_new_def prog_simps)
  from new_providers_ok [OF this] have ok: "authorizer_ok self"
    by (auto simp: authorizer_ok_def simp flip: map_map)
  then have "set (op_algorithms p) \<subseteq> set DEFAULT_ALGORITHMS" if "p \<in> set (au_oidc self)" for p
    using that by (simp add: authorizer_ok_def provider_ok_def)
  with ok show ?thesis by (fastforce simp: DEFAULT_ALGORITHMS_def)
qed

theorem authorizer_construction_witness:
  "\<exists>self t. Authorizer_new example_library example_network example_parsers None (Some ''[...]'') False None
        (example_auth_state 0) = (Inr self, t) \<and> au_oidc self = [example_provider] \<and> authorizer_ok self"
proof -
  let ?run = "Authorizer_new example_library example_network example_parsers None (Some ''[...]'') False None
        (example_auth_state 0)"
  have "(case fst ?run of Inl e \<Rightarrow> False | Inr self \<Rightarrow> au_oidc self = [example_provider])"
    by (simp add: Authorizer_new_def parse_json_array_def OidcProvider_new_def
        fetch_initial_provider_data_def INITIAL_FETCH_ATTEMPTS_def numeral_3_eq_3
        fetch_provider_data_def send_def fetch_jwks_def validate_provider_config_def configured_algorithms_def
        DEFAULT_ALGORITHMS_def MIN_JWKS_REFRESH_SECONDS_def map_filter_simps bindp_def liftr_def ensurep_def
        ok_def modifyp_def example_parsers_def example_auth_defs)
  then have "\<exists>self t. ?run = (Inr self, t) \<and> au_oidc self = [example_provider]"
    by (cases ?run) (auto split: sum.splits)
  then show ?thesis using authorizer_construction by blast
qed

text \<open>
  C35. However many tokens are presented, with known keys or not, and whether or not the provider
  answers, the requests for its key set are at least the minimum refresh interval apart.
\<close>

theorem key_requests_spaced:
  assumes "verify_history L N self s t"
  shows "\<exists>ts. as_requests t = as_requests s @ map (\<lambda>x. (x, op_jwks_uri self)) ts \<and>
    spaced (op_min_refresh_interval self) ts"
  using verify_history_log [OF assms] by (auto simp: refresh_log_def)

theorem key_requests_spaced_witness:
  "\<exists>t ts. verify_history example_library example_network example_provider (example_auth_state 400000) t \<and>
      as_requests t = map (\<lambda>x. (x, ''https://idp/keys'')) ts \<and> spaced 30000 ts"
proof -
  obtain r u where "verify example_library example_network example_provider ''h.p.s''
      (example_auth_state 400000) = (r, u)" by force
  then have "verify_history example_library example_network example_provider (example_auth_state 400000) u"
    by (rule verify_history.call [OF verify_history.start])
  from key_requests_spaced [OF this] this show ?thesis
    by (auto simp: example_auth_state_def example_provider_def)
qed

text \<open>
  C36. A provider that is down does not lock out a token whose signing key is cached: when the
  refresh of stale keys fails, the token is still checked against the cached key.
\<close>

theorem stale_keys_still_verify:
  assumes "jl_decode_header L token = Inr header" and "jh_kid header = Some kid"
    and "jh_alg header \<in> set (op_algorithms self)"
    and "jl_find L (ck_set (keys_of self s)) kid = Some jwk"
    and "key_usable L jwk (jh_alg header)" and "jl_from_jwk L jwk = Inr key"
    and "refresh_keys L N self kid s = (Inl e, t)"
  shows "\<exists>u. verify L N self token s =
    (jl_decode L (as_now u) token key (token_validation self (jh_alg header)), u)"
proof -
  have "\<exists>u. ensure_keys L N self kid s = (Inr (), u) \<and> (u = s \<or> u = t)"
    using assms(4,7) by (simp add: ensure_keys_def Let_def)
  then obtain u where u: "ensure_keys L N self kid s = (Inr (), u)" "u = s \<or> u = t" by blast
  have "jl_find L (ck_set (keys_of self u)) kid = Some jwk"
    using u(2) assms(4) refresh_failure_keeps_set [OF assms(7)] by auto
  with u(1) assms(1-3,5,6) show ?thesis
    by (simp add: verify_def bindp_def liftr_def ensurep_def ok_def)
qed

theorem stale_keys_still_verify_witness:
  "\<exists>u. verify example_library example_network example_provider ''h.p.s'' (example_auth_state 400000) =
     (Inr example_claims, u)"
proof -
  let ?s = "example_auth_state 400000"
  obtain t where f: "refresh_keys example_library example_network example_provider ''k1'' ?s
      = (Inl ''connection refused'', t)"
    by (auto simp: refresh_keys_def refresh_needed_def keys_of_def seconds_def fetch_jwks_def send_def
        bindp_def modifyp_def set_keys_def example_auth_defs)
  have "\<exists>u. verify example_library example_network example_provider ''h.p.s'' ?s =
      (jl_decode example_library (as_now u) ''h.p.s'' ''n,e'' (token_validation example_provider RS256), u)"
    using stale_keys_still_verify [of example_library "''h.p.s''" "\<lparr>jh_kid = Some ''k1'', jh_alg = RS256\<rparr>"
        "''k1''" example_provider ?s example_jwk "''n,e''", OF _ _ _ _ _ _ f]
    by (simp add: example_auth_defs keys_of_def key_usable_def)
  then show ?thesis
    by (simp add: example_library_def token_validation_def example_provider_def example_config_def)
qed

end
