(* ===== verification/Server_Guarantee.thy ===== *)
theory Server_Guarantee
  imports Server_Invariant Oidc_Props
begin

text \<open>
  The handlers keep the invariant of theory \<^verbatim>\<open>Server_Invariant\<close>, for every pair of back ends
  that satisfies the two interfaces. The locale \<open>cache_server\<close> collects what the handlers rely
  on; its two sublocales give access to the laws of the stores.
\<close>

locale cache_server =
  fixes B :: libraries
    and st :: "('b, 'm) app_state"
    and K :: "('b, 'm) backend"
  assumes blob_laws: "blob_store_laws (st_blobs st) (bk_content K) (bk_foreign K) (verified B)"
    and meta_laws: "metadata_store_laws (st_metadata st) (bk_view K) (bk_inv K)"
    and digests: "digests_documented (lb_protocol B)"
    and hashes: "hashes_documented (lb_hash B)"

sublocale cache_server \<subseteq> bl: blob_store_laws "st_blobs st" "bk_content K" "bk_foreign K" "verified B"
  by (rule blob_laws)

sublocale cache_server \<subseteq> md: metadata_store_laws "st_metadata st" "bk_view K" "bk_inv K"
  by (rule meta_laws)

section \<open>The stores\<close>

lemma sys_ok_meta:
  assumes "sys_ok B K (b, m)" and "bk_inv K m'" and "bk_view K m' = bk_view K m"
  shows "sys_ok B K (b, m')"
  using assms by (auto simp: sys_ok_def)

lemma sys_ok_blobs:
  assumes "sys_ok B K (b, m)" and "all_content (bk_content K) (bk_foreign K) (verified B) b'"
    and grow: "\<And>d bs. bk_content K b d = Some bs \<Longrightarrow> bk_content K b' d = Some bs"
  shows "sys_ok B K (b', m)"
proof -
  have "extends_to h (bk_content K b) h (bk_content K b')" for h
    using grow by (simp add: extends_to_def)
  note mono = result_ok_mono [OF this]
  have "bk_content K b' d \<noteq> None" if "bk_content K b d \<noteq> None" for d
    using that grow by fastforce
  with assms(1,2) mono show ?thesis unfolding sys_ok_def by blast
qed

lemma sys_ok_all_content:
  "sys_ok B K (b, m) \<Longrightarrow> all_content (bk_content K) (bk_foreign K) (verified B) b"
  by (simp add: sys_ok_def)

lemma sys_ok_register:
  assumes "sys_ok B K (b, m)" and "bk_inv K m'" and "bk_view K m' = spec_register ns d (bk_view K m)"
    and "bk_content K b d \<noteq> None"
  shows "sys_ok B K (b, m')"
proof -
  have "extends_to (v_blobs (bk_view K m)) c (v_blobs (bk_view K m')) c" for c
    using assms(3) by (auto simp: extends_to_def spec_register_def)
  note mono = result_ok_mono [OF this]
  from assms mono show ?thesis
    unfolding sys_ok_def by (auto simp: spec_register_def)
qed

lemma world_ok_sys: "world_ok B K w \<Longrightarrow> sys_ok B K (w_blobs w, w_meta w)"
  by (simp add: world_ok_def stores_def)

lemma world_ok_inv: "world_ok B K w \<Longrightarrow> bk_inv K (w_meta w)"
  by (auto simp: world_ok_def stores_def sys_ok_def)

lemma world_ok_held:
  assumes "world_ok B K w" and "(ns, d) \<in> w_held K w"
  obtains bs where "w_content K w d = Some bs" "verified B d bs"
proof -
  from assms obtain bs where "bk_content K (w_blobs w) d = Some bs"
    unfolding world_ok_def stores_def sys_ok_def w_held_def by fastforce
  moreover from this assms(1) have "verified B d bs"
    unfolding world_ok_def stores_def sys_ok_def all_content_def by auto
  ultimately show ?thesis using that by (simp add: w_content_def)
qed

lemma held_simps [simp]:
  "w_held K (w\<lparr>w_blobs := b\<rparr>) = w_held K w" "w_content K (w\<lparr>w_meta := m\<rparr>) = w_content K w"
  "w_content K (w\<lparr>w_blobs := b\<rparr>) = bk_content K b" "w_held K (w\<lparr>w_meta := m\<rparr>) = v_blobs (bk_view K m)"
  by (simp_all add: w_held_def w_content_def)

text \<open>An assertion carried over a store call that leaves the view as it is.\<close>

lemma lastingD: "lasting K A \<Longrightarrow> A w \<Longrightarrow> w_grows K w w' \<Longrightarrow> A w'"
  unfolding lasting_def by blast

lemma lasting_meta_grows:
  "lasting K A \<Longrightarrow> A w \<Longrightarrow> view_grows (bk_view K (w_meta w)) (bk_view K m) \<Longrightarrow> A (w\<lparr>w_meta := m\<rparr>)"
  by (erule lastingD) (auto simp: w_grows_def sys_grows_def stores_def)

lemma lasting_meta_same:
  "lasting K A \<Longrightarrow> A w \<Longrightarrow> bk_view K m = bk_view K (w_meta w) \<Longrightarrow> A (w\<lparr>w_meta := m\<rparr>)"
  by (erule lasting_meta_grows) auto

lemma lasting_blobs_grows:
  "lasting K A \<Longrightarrow> A w \<Longrightarrow> (\<And>d bs. bk_content K (w_blobs w) d = Some bs \<Longrightarrow> bk_content K b d = Some bs) \<Longrightarrow>
     A (w\<lparr>w_blobs := b\<rparr>)"
  by (erule lastingD) (auto simp: w_grows_def sys_grows_def stores_def)

lemma triple_meta_read:
  assumes "\<And>m r m'. bk_inv K m \<Longrightarrow> p m = (r, m') \<Longrightarrow>
      bk_inv K m' \<and> bk_view K m' = bk_view K m \<and> (\<forall>x. r = Inr x \<longrightarrow> Q x (bk_view K m))"
    and "lasting K A"
  shows "triple B K A (on_meta p) (\<lambda>x w. A w \<and> Q x (bk_view K (w_meta w)))"
proof (rule triple_on_meta [OF _ assms(2)], goal_cases)
  case (1 w r m)
  with assms(1) [OF world_ok_inv [OF 1(1)] 1(3)] show ?case
    by (auto intro: sys_ok_meta [OF world_ok_sys] lasting_meta_same [OF assms(2)])
qed

text \<open>Reading: every byte a client is sent comes from verified content of its namespace.\<close>

definition serves_verified ::
  "libraries \<Rightarrow> ('b, 'm) backend \<Rightarrow> ('b, 'm) world \<Rightarrow> header_map \<Rightarrow> digest \<Rightarrow> blob_response \<Rightarrow> bool" where
  "serves_verified B K w headers d resp \<longleftrightarrow>
     (\<exists>ns bs. headers ''mbx-cache-namespace'' = Some ns \<and> (ns, d) \<in> w_held K w \<and>
        w_content K w d = Some bs \<and> verified B d bs \<and> br_content_length resp = dg_size d \<and>
        delivers (br_body resp) bs)"

context cache_server
begin

lemma triple_blob_visible:
  assumes "lasting K A"
  shows "triple B K A (blob_visible st ns d) (\<lambda>v w. A w \<and> (v \<longrightarrow> (ns, d) \<in> w_held K w))"
proof -
  have "triple B K A (on_meta (ms_blob_visible (st_metadata st) ns d))
      (\<lambda>v w. A w \<and> (v = ((ns, d) \<in> v_blobs (bk_view K (w_meta w)))))"
    by (rule triple_meta_read [OF _ assms]) (use md.blob_visible in fastforce)
  then show ?thesis
    unfolding blob_visible_def by (rule triple_weaken [OF triple_map_errp]) (auto simp: w_held_def)
qed

lemma triple_record_access:
  assumes "lasting K A"
  shows "triple B K A (record_blob_access st ns ds) (\<lambda>_. A)"
proof -
  have t: "triple B K A (map_errp internal (on_meta (ms_touch_blobs (st_metadata st) ns ds))) (\<lambda>_ w. A w \<and> True)"
    by (rule triple_map_errp, rule triple_meta_read [OF _ assms]) (use md.touch_blobs in fastforce)
  show ?thesis
    unfolding triple_def
  proof (intro allI impI)
    fix w r w'
    assume w: "world_ok B K w" "A w" "record_blob_access st ns ds w = (r, w')"
    obtain q where "on_meta (ms_touch_blobs (st_metadata st) ns ds) w = (q, w')"
      using w(3) by (cases "on_meta (ms_touch_blobs (st_metadata st) ns ds) w") (auto simp: record_blob_access_def)
    then have "map_errp internal (on_meta (ms_touch_blobs (st_metadata st) ns ds)) w = (map_err internal q, w')"
      by (simp add: map_errp_def)
    with t w(1,2) have "world_ok B K w'" "w_grows K w w'" unfolding triple_def by blast+
    with w(2) assms show "world_ok B K w' \<and> w_grows K w w' \<and> (\<forall>x. r = Inr x \<longrightarrow> A w')"
      unfolding lasting_def by blast
  qed
qed

lemma triple_bs_get:
  assumes "lasting K A" and "\<And>w. A w \<Longrightarrow> (ns, d) \<in> w_held K w"
  shows "triple B K A (on_blobs (bs_get (st_blobs st) d)) (\<lambda>found w. A w \<and>
    (\<exists>blob bs. found = Some blob \<and> w_content K w d = Some bs \<and> verified B d bs \<and>
       bl_size blob = of_nat (length bs) \<and> delivers (bl_stream blob) bs))"
proof (rule triple_on_blobs [OF _ assms(1)], goal_cases)
  case (1 w r b)
  note ext = bl.get_extends [OF 1(3)]
  obtain bs where bs: "w_content K w d = Some bs" "verified B d bs"
    using world_ok_held [OF 1(1) assms(2) [OF 1(2)]] by blast
  have grow: "\<And>e cs. bk_content K (w_blobs w) e = Some cs \<Longrightarrow> bk_content K b e = Some cs"
    using extends_content [OF ext] by blast
  have "sys_ok B K (b, w_meta w)"
    by (rule sys_ok_blobs [OF world_ok_sys [OF 1(1)] bl.all_content_get [OF _ 1(3)] grow])
      (rule sys_ok_all_content [OF world_ok_sys [OF 1(1)]])
  moreover have "\<exists>blob bs. x = Some blob \<and> w_content K (w\<lparr>w_blobs := b\<rparr>) d = Some bs \<and> verified B d bs \<and>
       bl_size blob = of_nat (length bs) \<and> delivers (bl_stream blob) bs" if "r = Inr x" for x
    using bl.get_present [of "w_blobs w" d bs x b] bs 1(3) that grow by (auto simp: w_content_def)
  ultimately show ?case
    using grow lasting_blobs_grows [OF assms(1) 1(2) grow] by auto
qed

lemma triple_store_get:
  assumes "lasting K A" and "\<And>w. A w \<Longrightarrow> (ns, d) \<in> w_held K w"
  shows "triple B K A (store_get st d) (\<lambda>found w. A w \<and>
    (\<exists>blob bs. found = Some blob \<and> w_content K w d = Some bs \<and> verified B d bs \<and>
       bl_size blob = of_nat (length bs) \<and> delivers (bl_stream blob) bs))"
  unfolding store_get_def by (rule triple_map_errp) (rule triple_bs_get [OF assms])

lemma triple_authorized_ns:
  assumes "lasting K A"
  shows "triple B K A (authorized L st headers access)
    (\<lambda>ns w. headers ''mbx-cache-namespace'' = Some ns \<and> A w)"
  by (rule triple_local [OF _ assms])
    (auto simp: authorized_def zoom_def split: prod.splits dest: authorize_Inr)

lemma triple_get_blob:
  "triple B K (\<lambda>_. True) (get_blob B st headers (alg, hash, n))
     (\<lambda>resp w. serves_verified B K w headers \<lparr>dg_algorithm = alg, dg_hash = hash, dg_size = n\<rparr> resp)"
  unfolding get_blob_def
  apply (rule triple_bindp, rule triple_authorized_ns, intro lasting_intros)
  apply (rule triple_bindp, rule triple_liftr)
  apply (rule triple_bindp, rule triple_blob_visible, intro lasting_intros)
  apply (rule triple_bindp, rule triple_ensurep)
  apply (rule triple_bindp, rule triple_record_access, intro lasting_intros)
  apply (rule triple_bindp, rule triple_store_get, intro lasting_intros, blast)
  apply (rule triple_bindp, rule triple_liftr)
  apply (rule triple_bindp, rule triple_count, intro lasting_intros)
  apply (rule triple_ok_post)
  apply (auto simp: serves_verified_def parse_digest_Inr_iff ok_or_Inr_iff verified_def)
  done

end

section \<open>Uploads\<close>

definition fed :: "algorithm \<Rightarrow> upload \<Rightarrow> bytes list" where
  "fed a u = (case a of Blake3 \<Rightarrow> up_blake3 u | Sha256 \<Rightarrow> up_sha256 u)"

text \<open>The size, the hasher and the spooled file of an upload agree.\<close>

definition upload_ok :: "algorithm \<Rightarrow> upload \<Rightarrow> bool" where
  "upload_ok a u \<longleftrightarrow> up_size u = of_nat (length (up_file u)) \<and> concat (fed a u) = up_file u"

lemma upload_ok_new: "upload_ok a new_upload"
  by (cases a) (simp_all add: upload_ok_def new_upload_def fed_def)

lemma upload_ok_write:
  "upload_ok a u \<Longrightarrow>
     upload_ok a ((feed_hasher a chunk u)\<lparr>up_size := up_size u + of_nat (length chunk), up_file := up_file u @ chunk\<rparr>)"
  by (cases a) (simp_all add: upload_ok_def feed_hasher_def fed_def)

lemma upload_verified:
  assumes "hashes_documented (lb_hash B)" and "upload_ok a u"
    and "digest_validate (lb_protocol B) d" and "algorithm_kind (lb_protocol B) d = Inr a"
    and "up_size u = dg_size d" and "actual_hash B a u = dg_hash d"
  shows "verified B d (up_file u)"
proof -
  have "actual_hash B a u = hash_of B a (up_file u)"
    using assms(1,2) by (cases a) (metis (mono_tags, lifting) actual_hash_def hash_of_def
        hashes_documented_def upload_ok_def fed_def algorithm.case)+
  with assms(2-6) show ?thesis by (auto simp: verified_def upload_ok_def)
qed

text \<open>The frame of a pack that is being received agrees with itself.\<close>

definition frame_ok :: "libraries \<Rightarrow> pack_frame option \<Rightarrow> bool" where
  "frame_ok B f \<longleftrightarrow> (\<forall>x. f = Some x \<longrightarrow> digest_validate (lb_protocol B) (pf_digest x) \<and>
     (\<forall>a. algorithm_kind (lb_protocol B) (pf_digest x) = Inr a \<longrightarrow> upload_ok a (pf_upload x)))"

context cache_server
begin

lemma triple_algorithm_of:
  "lasting K A \<Longrightarrow> triple B K A (algorithm_of L d) (\<lambda>a w. algorithm_kind (lb_protocol L) d = Inr a \<and> A w)"
  unfolding algorithm_of_def by (rule triple_weaken [OF triple_liftr]) (auto simp: result_simps)

lemma triple_receive_body:
  assumes "lasting K A" and "algorithm_kind (lb_protocol B) d = Inr a"
  shows "upload_ok a u \<Longrightarrow> triple B K A (receive_body B st d body u) (\<lambda>u w. upload_ok a u \<and> A w)"
proof (induction body arbitrary: u)
  case Nil
  then show ?case by (simp add: triple_ok_post)
next
  case (Cons x xs)
  show ?case
  proof (cases x)
    case (Inl e)
    then show ?thesis by (simp add: triple_throw)
  next
    case (Inr chunk)
    have step: "triple B K (\<lambda>w. algorithm_kind (lb_protocol B) d = Inr a' \<and>
          \<not> (n > dg_size d \<or> n > st_max_blob_bytes st) \<and>
          ok_or (too_large ''blob is too large'') (checked_add (up_size u) (of_nat (length chunk))) = Inr n \<and> A w)
        (receive_body B st d xs ((feed_hasher a' chunk u)\<lparr>up_size := n, up_file := up_file u @ chunk\<rparr>))
        (\<lambda>u w. upload_ok a u \<and> A w)" for a' n
    proof (intro triple_pre)
      assume "algorithm_kind (lb_protocol B) d = Inr a'"
        and "ok_or (too_large ''blob is too large'') (checked_add (up_size u) (of_nat (length chunk))) = Inr n"
      then have "a' = a" and "n = up_size u + of_nat (length chunk)"
        using assms(2) by (auto simp: ok_or_Inr_iff checked_add_Some_iff)
      with Cons.IH [OF upload_ok_write [OF Cons.prems]] show "triple B K A
          (receive_body B st d xs ((feed_hasher a' chunk u)\<lparr>up_size := n, up_file := up_file u @ chunk\<rparr>))
          (\<lambda>u w. upload_ok a u \<and> A w)" by simp
    qed
    show ?thesis
      unfolding Inr receive_body.simps
      by (rule triple_bindp, rule triple_liftr, rule triple_bindp, rule triple_ensurep,
          rule triple_bindp, rule triple_algorithm_of, (intro lasting_intros assms(1)),
          rule triple_bindp, rule triple_temp_io, (intro lasting_intros assms(1)), rule step)
  qed
qed

text \<open>Publishing verified bytes.\<close>

lemma triple_publish_blob:
  assumes "lasting K A" and "verified B d file"
  shows "triple B K A (publish_blob st ns d file) (\<lambda>_ w. (ns, d) \<in> w_held K w \<and> A w)"
proof -
  let ?stored = "\<lambda>w. \<exists>bs. w_content K w d = Some bs"
  have put: "triple B K A (on_blobs (bs_put (st_blobs st) d file)) (\<lambda>_ w. A w \<and> ?stored w)"
  proof (rule triple_on_blobs [OF _ assms(1)], goal_cases)
    case (1 w r b)
    have grow: "\<And>e cs. bk_content K (w_blobs w) e = Some cs \<Longrightarrow> bk_content K b e = Some cs"
      using extends_content [OF bl.put_extends [OF assms(2) 1(3)]] by blast
    have "sys_ok B K (b, w_meta w)"
      by (rule sys_ok_blobs [OF world_ok_sys [OF 1(1)] bl.all_content_put [where Q = "verified B", OF _ assms(2) assms(2) 1(3)] grow])
        (rule sys_ok_all_content [OF world_ok_sys [OF 1(1)]])
    moreover have "bk_content K b d \<noteq> None" if "r = Inr out" for out
      using bl.put_stored [OF assms(2) _ 1(3) [unfolded that]] sys_ok_all_content [OF world_ok_sys [OF 1(1)]]
      unfolding all_content_def by blast
    ultimately show ?case
      using grow lasting_blobs_grows [OF assms(1) 1(2) grow] by auto
  qed
  have lasting: "lasting K (\<lambda>w. A w \<and> ?stored w)" by (intro lasting_intros assms(1))
  have register: "triple B K (\<lambda>w. A w \<and> ?stored w) (on_meta (ms_register_blob (st_metadata st) ns d out))
      (\<lambda>_ w. (ns, d) \<in> w_held K w \<and> A w)" for out
  proof (rule triple_on_meta [OF _ lasting], goal_cases)
    case (1 w r m)
    from md.register_blob [OF world_ok_inv [OF 1(1)] 1(3)]
    have m: "bk_inv K m" "r = Inr () \<longrightarrow> bk_view K m = spec_register ns d (bk_view K (w_meta w))"
      "bk_view K m = bk_view K (w_meta w) \<or> bk_view K m = spec_register ns d (bk_view K (w_meta w))" by auto
    have grows: "view_grows (bk_view K (w_meta w)) (bk_view K m)"
      using m(3) spec_grows(1) view_grows_refl by metis
    have "sys_ok B K (w_blobs w, m)"
      using m(3) sys_ok_meta [OF world_ok_sys [OF 1(1)] m(1)]
        sys_ok_register [OF world_ok_sys [OF 1(1)] m(1)] 1(2) by (auto simp: w_content_def)
    then show ?case
      using grows lasting_meta_grows [OF assms(1) _ grows] 1(2) m(2) by (auto simp: spec_register_def)
  qed
  show ?thesis
    unfolding publish_blob_def
    by (rule triple_bindp, rule triple_map_errp, rule put, rule triple_bindp, rule triple_map_errp,
        rule register, rule triple_bindp, rule triple_count, (intro lasting_intros assms(1)),
        rule triple_ok_post)
qed

lemma valid_digest_algorithm:
  assumes "digest_validate (lb_protocol B) d"
  obtains a where "algorithm_kind (lb_protocol B) d = Inr a"
  using algorithm_kind_valid [OF digests assms] by blast

text \<open>What both kinds of upload do once all bytes have arrived.\<close>

lemma triple_finish_upload:
  assumes "lasting K A" and "digest_validate (lb_protocol B) d"
    and "algorithm_kind (lb_protocol B) d = Inr a" and "upload_ok a u"
  shows "triple B K A (finish_upload B st ns d u mismatch) (\<lambda>_ w. (ns, d) \<in> w_held K w \<and> A w)"
proof -
  have "triple B K (\<lambda>w. \<not> (up_size u \<noteq> dg_size d \<or> actual_hash B a' u \<noteq> dg_hash d) \<and>
      algorithm_kind (lb_protocol B) d = Inr a' \<and> A w)
      (publish_blob st ns d (up_file u)) (\<lambda>_ w. (ns, d) \<in> w_held K w \<and> A w)" for a'
    using upload_verified [OF hashes assms(4,2)] assms(3)
    by (intro triple_pre triple_publish_blob [OF assms(1)]) auto
  then show ?thesis
    unfolding finish_upload_def
    by - (rule triple_bindp, rule triple_temp_io [OF assms(1)], rule triple_bindp,
        rule triple_algorithm_of [OF assms(1)], rule triple_bindp, rule triple_ensurep)
qed

lemma triple_put_blob:
  "triple B K (\<lambda>_. True) (put_blob B st headers (alg, hash, n) body)
     (\<lambda>_ w. \<exists>ns. headers ''mbx-cache-namespace'' = Some ns \<and>
        (ns, \<lparr>dg_algorithm = alg, dg_hash = hash, dg_size = n\<rparr>) \<in> w_held K w)"
proof -
  let ?d = "\<lparr>dg_algorithm = alg, dg_hash = hash, dg_size = n\<rparr>"
  let ?Q = "\<lambda>_ w. \<exists>ns. headers ''mbx-cache-namespace'' = Some ns \<and> (ns, ?d) \<in> w_held K w"
  have upload: "triple B K A (bindp (receive_body B st ?d body new_upload) (\<lambda>u.
      bindp (finish_upload B st ns ?d u m) (\<lambda>outcome. ok (f outcome)))) ?Q"
    if valid: "digest_validate (lb_protocol B) ?d" and ns: "headers ''mbx-cache-namespace'' = Some ns"
      and last: "lasting K A"
    for A ns m and f :: "put_outcome \<Rightarrow> status_code"
  proof -
    obtain a where a: "algorithm_kind (lb_protocol B) ?d = Inr a" using valid_digest_algorithm [OF valid] .
    have "triple B K (\<lambda>w. upload_ok a u \<and> A w) (finish_upload B st ns ?d u m) (\<lambda>_ w. (ns, ?d) \<in> w_held K w \<and> A w)" for u
      by (intro triple_pre triple_finish_upload [OF last valid a])
    then show ?thesis
      by - (rule triple_bindp, rule triple_receive_body [OF last a upload_ok_new], rule triple_bindp,
          assumption, rule triple_ok_post, use ns in blast)
  qed
  have rest: "triple B K (\<lambda>w. \<not> dg_size d > st_max_blob_bytes st \<and>
        parse_digest (lb_protocol B) (alg, hash, n) = Inr d \<and>
        require_immutable_precondition headers = Inr u \<and> headers ''mbx-cache-namespace'' = Some ns \<and> True)
     (bindp temp_io (\<lambda>_. bindp temp_io (\<lambda>_.
      bindp (receive_body B st d body new_upload) (\<lambda>u.
      bindp (finish_upload B st ns d u ''content does not match the requested digest'') (\<lambda>outcome.
       ok (case outcome of PutCreated \<Rightarrow> CREATED | PutAlreadyExists \<Rightarrow> NO_CONTENT)))))) ?Q" for d u ns
  proof (intro triple_pre)
    assume d: "parse_digest (lb_protocol B) (alg, hash, n) = Inr d"
      and ns: "headers ''mbx-cache-namespace'' = Some ns"
    then have eq: "d = ?d" and valid: "digest_validate (lb_protocol B) ?d" by (auto simp: parse_digest_Inr_iff)
    show "triple B K (\<lambda>_. True) (bindp temp_io (\<lambda>_. bindp temp_io (\<lambda>_.
      bindp (receive_body B st d body new_upload) (\<lambda>u.
      bindp (finish_upload B st ns d u ''content does not match the requested digest'') (\<lambda>outcome.
       ok (case outcome of PutCreated \<Rightarrow> CREATED | PutAlreadyExists \<Rightarrow> NO_CONTENT)))))) ?Q"
      unfolding eq
      by (rule triple_bindp [OF triple_temp_io [OF lasting_const]],
          rule triple_bindp [OF triple_temp_io [OF lasting_const]], rule upload [OF valid ns lasting_const])
  qed
  show ?thesis
    unfolding put_blob_def
    by (rule triple_bindp, rule triple_authorized_ns, (intro lasting_intros), rule triple_bindp,
        rule triple_liftr, rule triple_bindp, rule triple_liftr, rule triple_bindp, rule triple_ensurep,
        rule rest)
qed

text \<open>Frames of a pack are written and published like single uploads.\<close>

lemma triple_PackFrame_write:
  assumes "lasting K A" and "frame_ok B (Some f)"
  shows "triple B K A (PackFrame_write B f payload) (\<lambda>f' w. frame_ok B (Some f') \<and> A w)"
proof -
  have "triple B K (\<lambda>w. algorithm_kind (lb_protocol B) (pf_digest f) = Inr a \<and> A w)
      (let u = pf_upload f
       in ok (f\<lparr>pf_upload := (feed_hasher a payload u)\<lparr>up_size := up_size u + of_nat (length payload),
                                                       up_file := up_file u @ payload\<rparr>\<rparr>))
      (\<lambda>f' w. frame_ok B (Some f') \<and> A w)" for a
    using assms(2) upload_ok_write
    by (intro triple_pre) (auto simp: Let_def frame_ok_def intro!: triple_ok_post)
  then show ?thesis
    unfolding PackFrame_write_def
    by - (rule triple_bindp, rule triple_algorithm_of [OF assms(1)], rule triple_bindp,
        rule triple_temp_io, (intro lasting_intros assms(1)))
qed

lemma triple_PackFrame_write_digest:
  assumes "lasting K A" and "frame_ok B (Some f)"
  shows "triple B K A (PackFrame_write B f payload)
    (\<lambda>f' w. (frame_ok B (Some f') \<and> pf_digest f' = pf_digest f) \<and> A w)"
proof -
  have "pf_digest f' = pf_digest f" if "PackFrame_write B f payload w = (Inr f', w')" for f' w w'
    using that by (auto simp: PackFrame_write_def prog_simps Let_def)
  with triple_PackFrame_write [OF assms, of payload] show ?thesis unfolding triple_def by blast
qed

lemma triple_PackFrame_store:
  assumes "lasting K A" and "frame_ok B (Some f)"
  shows "triple B K A (PackFrame_store B st ns f) (\<lambda>_ w. (ns, pf_digest f) \<in> w_held K w \<and> A w)"
proof -
  from assms(2) have valid: "digest_validate (lb_protocol B) (pf_digest f)" by (simp add: frame_ok_def)
  then obtain a where "algorithm_kind (lb_protocol B) (pf_digest f) = Inr a"
    by (rule valid_digest_algorithm)
  with assms triple_finish_upload [OF assms(1) valid] show ?thesis
    unfolding PackFrame_store_def frame_ok_def by blast
qed

end

end
