(* ===== verification/Server_Packs.thy ===== *)
theory Server_Packs
  imports Server_Guarantee
begin

text \<open>
  \<^verbatim>\<open>put_blob_pack\<close>: an accepted pack upload stored every blob it carried, each verified as a
  single upload is. The frames of the body are those of theory \<^verbatim>\<open>Pack_Language\<close>.
\<close>

section \<open>Frames in the event stream\<close>

fun current :: "digest option \<Rightarrow> pack_token list \<Rightarrow> digest option" where
  "current cur [] = cur"
| "current cur (TStarted d # ts) = current (Some d) ts"
| "current cur (TByte b # ts) = current cur ts"
| "current cur (TComplete # ts) = current None ts"

fun completed :: "digest option \<Rightarrow> pack_token list \<Rightarrow> digest list" where
  "completed cur [] = []"
| "completed cur (TStarted d # ts) = completed (Some d) ts"
| "completed cur (TByte b # ts) = completed cur ts"
| "completed cur (TComplete # ts) = (case cur of None \<Rightarrow> [] | Some d \<Rightarrow> [d]) @ completed None ts"

lemma current_append [simp]: "current cur (ts @ us) = current (current cur ts) us"
  by (induction cur ts rule: current.induct) auto

lemma completed_append [simp]:
  "completed cur (ts @ us) = completed cur ts @ completed (current cur ts) us"
  by (induction cur ts rule: completed.induct) auto

lemma current_bytes [simp]: "current cur (map TByte bs) = cur" "completed cur (map TByte bs) = []"
  by (induction bs) auto

lemma completed_frames:
  "completed None (concat (map (frame_tokens P) fs)) = map (frame_digest P) fs \<and>
   current None (concat (map (frame_tokens P) fs)) = None"
  by (induction fs) (auto simp: frame_tokens_def)

text \<open>A digest that starts a frame is well-formed: its hash is the encoding of 32 bytes.\<close>

lemma push_round_started:
  assumes "digests_documented P" and "hex_documented P"
    and "push_round P r rest = Next r' rest' ev" and "Started d \<in> set ev"
  shows "digest_validate P d"
proof (cases "pr_state r")
  case StHeader
  obtain r1 rest1 full where f: "fill r rest HEADER_BYTES = (r1, rest1, full)" by (cases "fill r rest HEADER_BYTES")
  with StHeader assms(3,4) have full: "full" and parsed: "parse_header P r1 = Inr d"
    by (auto simp: push_round_def Let_def split: if_splits sum.splits)
  from fill_length [OF f] full have "length (pr_buffer r1) = HEADER_BYTES" by simp
  then have "length (take 32 (drop 1 (pr_buffer r1))) = 32" by (simp add: HEADER_BYTES_def)
  then have "length (hex_encode P (take 32 (drop 1 (pr_buffer r1)))) = 64"
    "lower_hex_string (hex_encode P (take 32 (drop 1 (pr_buffer r1))))"
    using assms(2) unfolding hex_documented_def by auto
  moreover from parsed obtain a where "dg_algorithm d = algorithm_str P a"
    "dg_hash d = hex_encode P (take 32 (drop 1 (pr_buffer r1)))"
    by (auto simp: parse_header_def result_simps Let_def split: if_splits)
  ultimately show ?thesis
    using assms(1) unfolding digests_documented_def by (cases a) auto
qed (use assms in \<open>auto simp: push_round_def Let_def split: if_splits prod.splits\<close>)

lemma push_loop_started:
  "digests_documented P \<Longrightarrow> hex_documented P \<Longrightarrow> push_loop P r rest events = (r', Inr es) \<Longrightarrow>
     Started d \<in> set es \<Longrightarrow> Started d \<notin> set events \<Longrightarrow> digest_validate P d"
proof (induction P r rest events rule: push_loop.induct)
  case (1 P r rest events)
  show ?case
  proof (cases "push_round P r rest")
    case (Return r1 res)
    with "1.prems" show ?thesis by (subst (asm) push_loop.simps) (auto split: sum.splits)
  next
    case (Next r1 rest1 ev)
    then have loop: "push_loop P r1 rest1 (events @ ev) = (r', Inr es)"
      using "1.prems"(3) by (subst (asm) push_loop.simps) simp
    with "1.IH" [OF Next "1.prems"(1,2) loop "1.prems"(4)] push_round_started [OF "1.prems"(1,2) Next] "1.prems"(5)
    show ?thesis by auto
  qed
qed

lemma push_started:
  "digests_documented P \<Longrightarrow> hex_documented P \<Longrightarrow> push P r chunk = (r', Inr es) \<Longrightarrow>
     Started d \<in> set es \<Longrightarrow> digest_validate P d"
  unfolding push_def by (rule push_loop_started) auto

section \<open>The handler\<close>

definition all_held :: "('b, 'm) backend \<Rightarrow> string \<Rightarrow> digest list \<Rightarrow> ('b, 'm) world \<Rightarrow> bool" where
  "all_held K ns ds w \<longleftrightarrow> (\<forall>d\<in>set ds. (ns, d) \<in> w_held K w)"

lemma lasting_all_held [lasting_intros]: "lasting K (all_held K ns ds)"
  unfolding all_held_def by (intro lasting_intros)

lemma all_held_append [simp]:
  "all_held K ns [] w" "all_held K ns (ds @ es) w \<longleftrightarrow> all_held K ns ds w \<and> all_held K ns es w"
  by (auto simp: all_held_def)

definition progress_ok :: "libraries \<Rightarrow> digest option \<Rightarrow> pack_progress \<Rightarrow> bool" where
  "progress_ok B cur p \<longleftrightarrow> frame_ok B (pp_frame p) \<and> map_option pf_digest (pp_frame p) = cur"

context cache_server
begin

lemma triple_pack_event_step:
  assumes "lasting K A" and "progress_ok B cur p" and "\<And>d. e = Started d \<Longrightarrow> digest_validate (lb_protocol B) d"
  shows "triple B K A (pack_event_step B st ns e p)
    (\<lambda>p' w. progress_ok B (current cur (event_tokens e)) p' \<and> all_held K ns (completed cur (event_tokens e)) w \<and> A w)"
proof (cases e)
  case (Started d)
  with assms(3) have "progress_ok B (Some d) (p\<lparr>pp_frame := Some \<lparr>pf_digest = d, pf_upload = new_upload\<rparr>\<rparr>)"
    by (auto simp: progress_ok_def frame_ok_def upload_ok_new)
  then show ?thesis
    unfolding Started pack_event_step.simps PackFrame_new_def
    by - (rule triple_bindp, rule triple_bindp, rule triple_temp_io [OF assms(1)], rule triple_bindp,
        rule triple_temp_io [OF assms(1)], rule triple_ok, rule triple_ok_post, auto)
next
  case (Payload payload)
  have "triple B K (\<lambda>w. ok_or (internal ''payload outside a blob pack frame'') (pp_frame p) = Inr f \<and> A w)
      (bindp (PackFrame_write B f payload) (\<lambda>f. ok (p\<lparr>pp_frame := Some f\<rparr>)))
      (\<lambda>p' w. progress_ok B cur p' \<and> A w)" for f
  proof (rule triple_pre)
    assume f: "ok_or (internal ''payload outside a blob pack frame'') (pp_frame p) = Inr f"
    then have ok: "frame_ok B (Some f)" and cur: "cur = Some (pf_digest f)"
      using assms(2) by (auto simp: ok_or_Inr_iff progress_ok_def)
    show "triple B K A (bindp (PackFrame_write B f payload) (\<lambda>f. ok (p\<lparr>pp_frame := Some f\<rparr>)))
        (\<lambda>p' w. progress_ok B cur p' \<and> A w)"
      by (rule triple_bindp [OF triple_PackFrame_write_digest [OF assms(1) ok]], rule triple_ok_post)
        (auto simp: progress_ok_def cur)
  qed
  then show ?thesis
    unfolding Payload pack_event_step.simps
    by - (rule triple_bindp [OF triple_liftr], auto)
next
  case Complete
  have "triple B K (\<lambda>w. ok_or (internal ''blob pack frame ended before it began'') (pp_frame p) = Inr f \<and> A w)
      (bindp (PackFrame_store B st ns f) (\<lambda>outcome.
       ok (case outcome of
             PutCreated \<Rightarrow> p\<lparr>pp_frame := None, pp_created := pp_created p + 1\<rparr>
           | PutAlreadyExists \<Rightarrow> p\<lparr>pp_frame := None, pp_existing := pp_existing p + 1\<rparr>)))
      (\<lambda>p' w. progress_ok B None p' \<and> all_held K ns (completed cur [TComplete]) w \<and> A w)" for f
  proof (rule triple_pre)
    assume f: "ok_or (internal ''blob pack frame ended before it began'') (pp_frame p) = Inr f"
    then have ok: "frame_ok B (Some f)" and cur: "cur = Some (pf_digest f)"
      using assms(2) by (auto simp: ok_or_Inr_iff progress_ok_def)
    show "triple B K A (bindp (PackFrame_store B st ns f) (\<lambda>outcome.
       ok (case outcome of
             PutCreated \<Rightarrow> p\<lparr>pp_frame := None, pp_created := pp_created p + 1\<rparr>
           | PutAlreadyExists \<Rightarrow> p\<lparr>pp_frame := None, pp_existing := pp_existing p + 1\<rparr>)))
      (\<lambda>p' w. progress_ok B None p' \<and> all_held K ns (completed cur [TComplete]) w \<and> A w)"
      by (rule triple_bindp [OF triple_PackFrame_store [OF assms(1) ok]], rule triple_ok_post)
        (auto simp: progress_ok_def frame_ok_def cur all_held_def split: put_outcome.splits)
  qed
  then show ?thesis
    unfolding Complete pack_event_step.simps
    by - (rule triple_bindp [OF triple_liftr], auto)
qed

lemma triple_pack_event_steps:
  assumes "\<And>d. Started d \<in> set es \<Longrightarrow> digest_validate (lb_protocol B) d"
  shows "lasting K A \<Longrightarrow> progress_ok B cur p \<Longrightarrow> triple B K A (pack_event_steps B st ns es p)
    (\<lambda>p' w. progress_ok B (current cur (tokens es)) p' \<and> all_held K ns (completed cur (tokens es)) w \<and> A w)"
  using assms
proof (induction es arbitrary: p cur A)
  case Nil
  then show ?case by (auto intro: triple_ok_post)
next
  case (Cons e es)
  let ?cur = "current cur (event_tokens e)"
  let ?A = "\<lambda>w. all_held K ns (completed cur (event_tokens e)) w \<and> A w"
  have last: "lasting K ?A" by (intro lasting_intros Cons.prems(1))
  have "triple B K (\<lambda>w. progress_ok B ?cur p' \<and> ?A w) (pack_event_steps B st ns es p')
      (\<lambda>p' w. progress_ok B (current cur (tokens (e # es))) p' \<and>
         all_held K ns (completed cur (tokens (e # es))) w \<and> A w)" for p'
    by (rule triple_pre, rule triple_weaken [OF Cons.IH [OF last]]) (use Cons.prems(3) in auto)
  then show ?case
    unfolding pack_event_steps.simps
    by - (rule triple_bindp, rule triple_pack_event_step [OF Cons.prems(1,2)], use Cons.prems(3) in auto)
qed

lemma triple_receive_pack:
  assumes "hex_documented (lb_protocol B)"
  shows "lasting K A \<Longrightarrow> progress_ok B cur p \<Longrightarrow> triple B K A (receive_pack B st ns body r p)
    (\<lambda>x w. (\<exists>cs es. body = map Inr cs \<and> feed (lb_protocol B) r cs = (fst x, Inr es) \<and>
       all_held K ns (completed cur (tokens es)) w) \<and> A w)"
proof (induction body arbitrary: r p cur A)
  case Nil
  then show ?case by (auto intro!: triple_ok_post exI [of _ "[]"])
next
  case (Cons x xs)
  show ?case
  proof (cases x)
    case (Inl e)
    then show ?thesis by (simp add: triple_throw)
  next
    case (Inr chunk)
    obtain r' res where push: "push (lb_protocol B) r chunk = (r', res)" by force
    show ?thesis
    proof (cases res)
      case (Inl e)
      then show ?thesis using push Inr by (simp add: triple_throw \<open>x = Inr chunk\<close>)
    next
      case (Inr es)
      note started = push_started [OF digests assms push [unfolded Inr]]
      let ?A = "\<lambda>w. all_held K ns (completed cur (tokens es)) w \<and> A w"
      have last: "lasting K ?A" by (intro lasting_intros Cons.prems(1))
      have "triple B K (\<lambda>w. progress_ok B (current cur (tokens es)) p' \<and> ?A w) (receive_pack B st ns xs r' p')
          (\<lambda>y w. (\<exists>cs fs. x # xs = map Inr cs \<and> feed (lb_protocol B) r cs = (fst y, Inr fs) \<and>
             all_held K ns (completed cur (tokens fs)) w) \<and> A w)" for p'
      proof (rule triple_pre, rule triple_weaken [OF Cons.IH [OF last]], assumption, assumption)
        fix y :: "pack_reader \<times> pack_progress" and w
        assume "(\<exists>cs fs. xs = map Inr cs \<and> feed (lb_protocol B) r' cs = (fst y, Inr fs) \<and>
            all_held K ns (completed (current cur (tokens es)) (tokens fs)) w) \<and> ?A w"
        then obtain cs fs where "xs = map Inr cs" "feed (lb_protocol B) r' cs = (fst y, Inr fs)"
          "all_held K ns (completed (current cur (tokens es)) (tokens fs)) w" "?A w" by blast
        then have "x # xs = map Inr (chunk # cs) \<and> feed (lb_protocol B) r (chunk # cs) = (fst y, Inr (es @ fs)) \<and>
            all_held K ns (completed cur (tokens (es @ fs))) w \<and> A w"
          using push Inr \<open>x = Inr chunk\<close> by simp
        then show "(\<exists>cs fs. x # xs = map Inr cs \<and> feed (lb_protocol B) r cs = (fst y, Inr fs) \<and>
            all_held K ns (completed cur (tokens fs)) w) \<and> A w"
          by (intro conjI exI [of _ "chunk # cs"] exI [of _ "es @ fs"]) simp_all
      qed
      then show ?thesis
        unfolding \<open>x = Inr chunk\<close> receive_pack.simps push Inr
        by simp (rule triple_bindp [OF triple_pack_event_steps [OF started Cons.prems]], auto)
    qed
  qed
qed

lemma triple_put_blob_pack:
  assumes "hex_documented (lb_protocol B)" and "magic_documented (lb_protocol B)"
    and "max_batch_items (lb_protocol B) = 10000" and "unat (st_max_blob_bytes st) < 2 ^ 63"
  shows "triple B K (\<lambda>_. True) (put_blob_pack B st headers body)
    (\<lambda>receipt w. \<exists>ns cs fs. headers ''mbx-cache-namespace'' = Some ns \<and> body = map Inr cs \<and>
       concat cs = pack_stream (lb_protocol B) fs \<and> all_held K ns (map (frame_digest (lb_protocol B)) fs) w)"
proof -
  let ?P = "lb_protocol B"
  let ?new = "\<lambda>db dy. PackReader_new (st_max_blob_bytes st) db dy"
  let ?Q = "\<lambda>receipt w. \<exists>ns cs fs. headers ''mbx-cache-namespace'' = Some ns \<and> body = map Inr cs \<and>
       concat cs = pack_stream ?P fs \<and> all_held K ns (map (frame_digest ?P) fs) w"
  have frames: "\<exists>fs. concat cs = pack_stream ?P fs \<and> completed None (tokens es) = map (frame_digest ?P) fs"
    if dy: "\<not> dy > st_max_blob_bytes st" and db: "\<not> db > of_nat (max_batch_items ?P)"
      and feed: "feed ?P (?new db dy) cs = (r, Inr es)" and fin: "finish r = Inr ()"
    for db dy cs r es
  proof -
    have "unat dy \<le> unat (st_max_blob_bytes st)" using dy by (simp add: word_less_nat_alt)
    then have l1: "unat (st_max_blob_bytes st) + unat dy < 2 ^ 64" using assms(4) by simp
    have "unat db \<le> 10000" using db assms(3) by (simp add: word_less_nat_alt)
    then have l2: "unat db + 1 < 2 ^ 64" by simp
    have "reads_pack ?P (st_max_blob_bytes st) db dy cs r (tokens es)"
      using feed fin by (auto simp: reads_pack_def)
    then obtain fs where "concat cs = pack_stream ?P fs" "tokens es = concat (map (frame_tokens ?P) fs)"
      using reads_pack_iff [OF assms(2) l1 l2] by blast
    then show ?thesis using completed_frames by metis
  qed
  have start: "progress_ok B None \<lparr>pp_frame = None, pp_created = 0, pp_existing = 0\<rparr>"
    by (simp add: progress_ok_def frame_ok_def)
  show ?thesis
    unfolding put_blob_pack_def
    apply (rule triple_bindp, rule triple_authorized_ns, intro lasting_intros)
    apply (rule triple_bindp, rule triple_liftr)
    apply (rule triple_bindp, rule triple_liftr)
    apply (rule triple_bindp, rule triple_ensurep)
    apply (rule triple_bindp, rule triple_ensurep)
    apply (rule triple_bindp, rule triple_receive_pack [OF assms(1) _ start], intro lasting_intros)
    apply (simp only: split_beta)
    apply (rule triple_bindp, rule triple_liftr)
    apply (rule triple_bindp, rule triple_ensurep)
    apply (rule triple_bindp, rule triple_count, intro lasting_intros)
    apply (rule triple_ok_post)
    apply (clarsimp simp: map_err_Inr_iff)
    apply (drule (3) frames)
    apply fastforce
    done
qed

end

end
