(* ===== verification/Server_Trees.thy ===== *)
theory Server_Trees
  imports Server_Packs
begin

text \<open>
  \<^verbatim>\<open>validate_tree\<close>: when it accepts, every directory reachable from the root is a canonical
  directory object held by the namespace, all files it names are held, and the graph has no
  cycle. The walk keeps, for every directory still to be left, that its subdirectories are
  seen or above it on the stack.
\<close>

section \<open>Reading objects\<close>

context cache_server
begin

lemma triple_read_object:
  assumes "lasting K A" and "\<And>w. A w \<Longrightarrow> (ns, d) \<in> w_held K w"
  shows "triple B K A (read_object st d e) (\<lambda>bytes w. w_content K w d = Some bytes \<and> A w)"
  unfolding read_object_def
  apply (rule triple_bindp, rule triple_store_get [OF assms])
   apply assumption
  apply (rule triple_bindp, rule triple_liftr)
  apply (rule triple_weaken [OF triple_liftr])
   apply assumption
  apply (auto simp: ok_or_Inr_iff map_err_Inr_iff dest: delivers_collect)
  done

lemma triple_require_blob:
  assumes "lasting K A"
  shows "triple B K A (require_blob B st ns d label) (\<lambda>_ w. (ns, d) \<in> w_held K w \<and> A w)"
  unfolding require_blob_def
  apply (rule triple_bindp, rule triple_liftr)
  apply (rule triple_bindp, rule triple_blob_visible, intro lasting_intros assms)
  apply (rule triple_weaken [OF triple_ensurep])
   apply assumption
  apply auto
  done

lemma triple_require_blobs:
  assumes "lasting K A"
  shows "triple B K A (for_prog (\<lambda>x. require_blob B st ns (f x) label) xs)
    (\<lambda>_ w. (\<forall>x\<in>set xs. (ns, f x) \<in> w_held K w) \<and> A w)"
  using assms
proof (induction xs arbitrary: A)
  case Nil
  then show ?case by (auto intro: triple_ok_post)
next
  case (Cons x xs)
  have last: "lasting K (\<lambda>w. (ns, f x) \<in> w_held K w \<and> A w)" by (intro lasting_intros Cons.prems)
  show ?case
    unfolding for_prog.simps
    by (rule triple_bindp, rule triple_require_blob [OF Cons.prems],
        rule triple_weaken [OF Cons.IH [OF last]]) auto
qed

text \<open>A directory that was read: what it says, and that its files are held.\<close>

definition directory_read :: "string \<Rightarrow> digest \<Rightarrow> directory \<Rightarrow> ('b, 'm) world \<Rightarrow> bool" where
  "directory_read ns d dir w \<longleftrightarrow>
     (\<exists>bs. w_content K w d = Some bs \<and> directory_object B bs = Some dir) \<and> (ns, d) \<in> w_held K w \<and>
     (\<forall>f\<in>set (dir_files dir). (ns, fn_digest f) \<in> w_held K w)"

lemma triple_read_directory:
  assumes "lasting K A"
  shows "triple B K A (read_directory B st ns d) (\<lambda>dir w. directory_read ns d dir w \<and> A w)"
  unfolding read_directory_def
  apply (rule triple_bindp, rule triple_ensurep)
  apply (rule triple_bindp, rule triple_blob_visible, intro lasting_intros assms)
  apply (rule triple_bindp, rule triple_ensurep)
  apply (rule triple_bindp, rule triple_read_object, intro lasting_intros assms, blast)
  apply (rule triple_bindp, rule triple_liftr)
  apply (rule triple_bindp, rule triple_liftr)
  apply (rule triple_bindp, rule triple_ensurep)
  apply (rule triple_bindp, rule triple_ensurep)
  apply (rule triple_bindp, rule triple_liftr)
  apply (rule triple_bindp, rule triple_require_blobs, intro lasting_intros assms)
  apply (rule triple_ok_post)
  apply (clarsimp simp: directory_read_def map_err_Inr_iff directory_object_def)
  done

end

section \<open>The walk\<close>

text \<open>The stack: below a directory's exit everything it contains is seen or still above.\<close>

fun stack_ok :: "libraries \<Rightarrow> held \<Rightarrow> content \<Rightarrow> string \<Rightarrow> digest set \<Rightarrow> visit list \<Rightarrow> bool" where
  "stack_ok B h c ns avail [] \<longleftrightarrow> True"
| "stack_ok B h c ns avail (Enter e # p) \<longleftrightarrow> stack_ok B h c ns (insert e avail) p"
| "stack_ok B h c ns avail (Exit d # p) \<longleftrightarrow>
     node_ok B h c ns d \<and> children B c d \<subseteq> avail \<and> stack_ok B h c ns (insert d avail) p"

fun visit_digest :: "visit \<Rightarrow> digest" where
  "visit_digest (Enter d) = d"
| "visit_digest (Exit d) = d"

lemma stack_ok_avail:
  "stack_ok B h c ns avail p \<Longrightarrow> avail \<subseteq> avail' \<Longrightarrow> stack_ok B h c ns avail' p"
proof (induction B h c ns avail p arbitrary: avail' rule: stack_ok.induct)
  case (2 B h c ns avail e p)
  then show ?case by (meson insert_mono stack_ok.simps(2))
next
  case (3 B h c ns avail d p)
  then show ?case by (auto intro: "3.IH" [OF _ insert_mono])
qed auto

lemma stack_ok_mono:
  "extends_to h c h' c' \<Longrightarrow> stack_ok B h c ns avail p \<Longrightarrow> stack_ok B h' c' ns avail p"
  by (induction B h c ns avail p rule: stack_ok.induct) (auto simp: children_mono intro: node_ok_mono)

lemma stack_ok_enters:
  "stack_ok B h c ns avail (map Enter ds @ p) \<longleftrightarrow> stack_ok B h c ns (set ds \<union> avail) p"
  by (induction ds arbitrary: avail) (auto simp: insert_commute Un_commute)

definition walk_ok :: "libraries \<Rightarrow> ('b, 'm) backend \<Rightarrow> string \<Rightarrow> digest \<Rightarrow> walk_state \<Rightarrow> ('b, 'm) world \<Rightarrow> bool" where
  "walk_ok B K ns rt s w = (case s of (pending, visiting, seen) \<Rightarrow>
     topological B (w_held K w) (w_content K w) ns seen \<and>
     stack_ok B (w_held K w) (w_content K w) ns (set seen) pending \<and>
     rt \<in> set seen \<union> visit_digest ` set pending)"

lemma lasting_walk_ok [lasting_intros]: "lasting K (walk_ok B K ns rt s)"
  unfolding lasting_def walk_ok_def
  by (auto simp: extends_to_grows intro: topological_mono [OF extends_to_grows] stack_ok_mono [OF extends_to_grows]
      split: prod.splits)

context cache_server
begin

lemma triple_tree_round:
  assumes "lasting K A"
  shows "triple B K (\<lambda>w. walk_ok B K ns rt s w \<and> A w) (tree_round B st ns s)
    (\<lambda>x w. (case x of None \<Rightarrow> tree_closed B (w_held K w) (w_content K w) ns rt
              | Some s' \<Rightarrow> walk_ok B K ns rt s' w) \<and> A w)"
proof (cases "(B, st, ns, s)" rule: tree_round.cases)
  case (1 L t n visiting seen)
  then show ?thesis by (auto simp: walk_ok_def tree_closed_def intro!: triple_ok_post)
next
  case (2 L t n d pending visiting seen)
  then show ?thesis
    by (auto simp: walk_ok_def List.insert_def insert_absorb intro!: triple_ok_post)
next
  case (3 L t n d pending visiting seen)
  then have s: "s = (Enter d # pending, visiting, seen)" by simp
  let ?A = "\<lambda>w. walk_ok B K ns rt s w \<and> A w"
  have last: "lasting K ?A" by (intro lasting_intros assms)
  have enter: "walk_ok B K ns rt (rev (map (\<lambda>node. Enter (dn_digest node)) (dir_directories dir)) @ Exit d # pending,
      d # visiting, seen) w" if w: "directory_read ns d dir w" "walk_ok B K ns rt s w" for dir w
  proof -
    let ?ds = "rev (map dn_digest (dir_directories dir))"
    have "node_ok B (w_held K w) (w_content K w) ns d" "children B (w_content K w) d = set ?ds"
      using w(1) by (auto simp: directory_read_def node_ok_def children_def)
    moreover have "stack_ok B (w_held K w) (w_content K w) ns (insert d (set ?ds \<union> set seen)) pending"
      using w(2) by (auto simp: s walk_ok_def elim: stack_ok_avail)
    ultimately have "stack_ok B (w_held K w) (w_content K w) ns (set seen) (map Enter ?ds @ Exit d # pending)"
      unfolding stack_ok_enters by auto
    moreover have "map Enter ?ds = rev (map (\<lambda>node. Enter (dn_digest node)) (dir_directories dir))"
      by (simp add: rev_map)
    ultimately show ?thesis using w(2) by (auto simp: s walk_ok_def)
  qed
  have skip: "walk_ok B K ns rt (pending, visiting, seen) w" if "walk_ok B K ns rt s w" "d \<in> set seen" for w
    using that by (auto simp: s walk_ok_def insert_absorb)
  show ?thesis
    unfolding s tree_round.simps if_distrib [where f = "\<lambda>h. triple B K _ h _"]
    using skip enter
    by (auto simp: s intro!: triple_ok_post triple_throw triple_bindp [OF triple_read_directory [OF last [unfolded s]]])
qed

lemma tree_loop_sound:
  "world_ok B K w \<Longrightarrow> walk_ok B K ns rt s w \<Longrightarrow> tree_loop B st ns s w = (r, w') \<Longrightarrow>
     world_ok B K w' \<and> w_grows K w w' \<and>
     (r = Inr () \<longrightarrow> tree_closed B (w_held K w') (w_content K w') ns rt)"
proof (induction L \<equiv> B t \<equiv> st ns s w rule: tree_loop.induct)
  case (1 ns s w)
  obtain q v where q: "tree_round B st ns s w = (q, v)" by force
  have round: "world_ok B K v" "w_grows K w v"
    and post: "\<And>x. q = Inr x \<Longrightarrow> (case x of None \<Rightarrow> tree_closed B (w_held K v) (w_content K v) ns rt
              | Some s' \<Rightarrow> walk_ok B K ns rt s' v)"
    using triple_tree_round [OF lasting_const, of ns rt s True] 1(2,3) q unfolding triple_def by auto
  show ?case
  proof (cases q)
    case (Inl e)
    with q 1(4) round show ?thesis by (subst (asm) tree_loop.simps) auto
  next
    case (Inr x)
    show ?thesis
    proof (cases x)
      case None
      with q Inr 1(4) round post [OF Inr] show ?thesis by (subst (asm) tree_loop.simps) auto
    next
      case (Some s')
      with q Inr 1(4) have loop: "tree_loop B st ns s' v = (r, w')" by (subst (asm) tree_loop.simps) auto
      from 1(1) [OF q [symmetric] Inr Some round(1) _ loop] post [OF Inr] Some round(2) show ?thesis
        by (auto intro: w_grows_trans)
    qed
  qed
qed

lemma triple_validate_tree:
  assumes "lasting K A"
  shows "triple B K A (validate_tree B st ns rt)
    (\<lambda>_ w. tree_closed B (w_held K w) (w_content K w) ns rt \<and> A w)"
  unfolding triple_def validate_tree_def
proof (intro allI impI)
  fix w w' :: "('b, 'm) world" and r
  assume w: "world_ok B K w" "A w" "tree_loop B st ns ([Enter rt], [], []) w = (r, w')"
  have "walk_ok B K ns rt ([Enter rt], [], []) w" by (simp add: walk_ok_def)
  with tree_loop_sound [OF w(1) _ w(3)] w(2) assms show "world_ok B K w' \<and> w_grows K w w' \<and>
      (\<forall>x. r = Inr x \<longrightarrow> tree_closed B (w_held K w') (w_content K w') ns rt \<and> A w')"
    unfolding lasting_def by auto
qed

end

section \<open>What a closed tree is\<close>

text \<open>The directory edges of the stored objects.\<close>

definition tree_edges :: "libraries \<Rightarrow> content \<Rightarrow> (digest \<times> digest) set" where
  "tree_edges B content = {(d, e). e \<in> children B content d}"

lemma topological_member:
  "topological B h c ns ds \<Longrightarrow> d \<in> set ds \<Longrightarrow> node_ok B h c ns d \<and> children B c d \<subseteq> set ds"
  by (induction ds) auto

lemma topological_reach:
  assumes "(d, e) \<in> (tree_edges B c)\<^sup>*" and "topological B h c ns ds" and "d \<in> set ds"
  shows "e \<in> set ds"
  using assms(1,3)
proof (induction rule: rtrancl_induct)
  case (step x y)
  with topological_member [OF assms(2)] show ?case by (auto simp: tree_edges_def)
qed

lemma topological_acyclic:
  "topological B h c ns ds \<Longrightarrow> d \<in> set ds \<Longrightarrow> (d, d) \<notin> (tree_edges B c)\<^sup>+"
proof (induction ds)
  case (Cons x ds)
  show ?case
  proof (cases "d \<in> set ds")
    case True
    with Cons show ?thesis by simp
  next
    case False
    show ?thesis
    proof
      assume "(d, d) \<in> (tree_edges B c)\<^sup>+"
      then obtain e where "(d, e) \<in> tree_edges B c" "(e, d) \<in> (tree_edges B c)\<^sup>*" by (auto dest: tranclD)
      moreover from this(1) have "e \<in> set ds" using Cons.prems False by (auto simp: tree_edges_def)
      ultimately have "d \<in> set ds" using topological_reach Cons.prems(1) by fastforce
      with False show False by simp
    qed
  qed
qed simp

lemma tree_closed_reach:
  assumes "tree_closed B h c ns r" and "(r, d) \<in> (tree_edges B c)\<^sup>*"
  shows "node_ok B h c ns d \<and> (d, d) \<notin> (tree_edges B c)\<^sup>+"
proof -
  from assms(1) obtain ds where ds: "r \<in> set ds" "topological B h c ns ds" by (auto simp: tree_closed_def)
  with topological_reach [OF assms(2)] have "d \<in> set ds" by blast
  with ds(2) topological_member topological_acyclic show ?thesis by blast
qed

end
