(* ===== verification/Server_Results.thy ===== *)
theory Server_Results
  imports Server_Trees
begin

text \<open>
  The action handlers keep the invariant: what \<^verbatim>\<open>put_action_result\<close> commits is closed over
  blobs its namespace holds, and \<^verbatim>\<open>put_action_manifest\<close> stores a manifest under its selector
  with the tag of its canonical form.
\<close>

section \<open>Commits and the invariant\<close>

lemma sys_ok_commit:
  assumes "sys_ok B K (b, m)" and "bk_inv K m'"
    and "bk_view K m' = snd (spec_commit ns a r (bk_view K m))"
    and "result_ok B (v_blobs (bk_view K m)) (bk_content K b) ns a r"
  shows "sys_ok B K (b, m')"
proof -
  have same: "v_blobs (bk_view K m') = v_blobs (bk_view K m)"
    "v_manifests (bk_view K m') = v_manifests (bk_view K m)"
    by (simp_all add: assms(3) spec_commit_def split: option.split)
  have results: "v_results (bk_view K m') k = Some x \<Longrightarrow> v_results (bk_view K m) k = Some x \<or> k = (ns, a) \<and> x = r"
    for k x by (auto simp: assms(3) spec_commit_def split: option.splits if_splits)
  have "result_ok B (v_blobs (bk_view K m)) (bk_content K b) ns' a' x"
    if "v_results (bk_view K m') (ns', a') = Some x" for ns' a' x
    using results [OF that] assms(1,4) by (auto simp: sys_ok_def)
  with assms(1,2) same show ?thesis by (auto simp: sys_ok_def)
qed

lemma sys_ok_commit_manifest:
  assumes "sys_ok B K (b, m)" and "bk_inv K m'"
    and "bk_view K m' = snd (spec_commit_manifest ns k e etag mf (bk_view K m))"
    and "manifest_ok B k etag mf"
  shows "sys_ok B K (b, m')"
proof -
  have same: "v_blobs (bk_view K m') = v_blobs (bk_view K m)"
    "v_results (bk_view K m') = v_results (bk_view K m)"
    by (simp_all add: assms(3) spec_commit_manifest_def)
  have manifests: "v_manifests (bk_view K m') x = Some y \<Longrightarrow>
      v_manifests (bk_view K m) x = Some y \<or> x = (ns, k) \<and> y = (etag, mf)"
    for x y by (auto simp: assms(3) spec_commit_manifest_def split: if_splits)
  have "manifest_ok B k' e' mf'" if "v_manifests (bk_view K m') (ns', k') = Some (e', mf')" for ns' k' e' mf'
    using manifests [OF that] assms(1,4) by (auto simp: sys_ok_def)
  with assms(1,2) same show ?thesis by (auto simp: sys_ok_def)
qed

lemma lasting_results [lasting_intros]: "lasting K (\<lambda>w. v_results (bk_view K (w_meta w)) k = Some r)"
  unfolding lasting_def w_grows_def sys_grows_def view_grows_def stores_def snd_conv
  by (metis domI map_le_def)

lemma lasting_result_ok [lasting_intros]: "lasting K (\<lambda>w. result_ok B (w_held K w) (w_content K w) ns a r)"
  unfolding lasting_def using result_ok_mono extends_to_grows by blast

lemma world_ok_result:
  "world_ok B K w \<Longrightarrow> v_results (bk_view K (w_meta w)) (ns, a) = Some r \<Longrightarrow>
     result_ok B (w_held K w) (w_content K w) ns a r"
  by (simp add: world_ok_def stores_def sys_ok_def w_held_def w_content_def)

lemma world_ok_manifest:
  "world_ok B K w \<Longrightarrow> v_manifests (bk_view K (w_meta w)) (ns, k) = Some (e, mf) \<Longrightarrow> manifest_ok B k e mf"
  unfolding world_ok_def stores_def sys_ok_def by blast

lemma set_map_filter: "y \<in> set (List.map_filter f xs) \<longleftrightarrow> (\<exists>x\<in>set xs. f x = Some y)"
  by (induction xs) (auto simp: map_filter_simps split: option.splits)

text \<open>The digests of a batch, each at its first occurrence.\<close>

lemma batch_digests_Inr:
  assumes "batch_digests B ds req = Inr out" and "distinct req"
  shows "out = rev (remdups (rev (req @ ds)))"
  using assms
proof (induction ds arbitrary: req)
  case (Cons d ds)
  let ?req = "if d \<in> set req then req else req @ [d]"
  from Cons.prems(1) have "batch_digests B ds ?req = Inr out"
    by (auto simp: result_simps validate_action_digest_def split: if_splits)
  moreover have "distinct ?req" using Cons.prems(2) by simp
  ultimately have "out = rev (remdups (rev ds @ rev ?req))" using Cons.IH by fastforce
  also have "remdups (rev ds @ rev ?req) = remdups (rev ds @ d # rev req)"
    using remdups_append2 [of "rev ds" "d # rev req"] remdups_append2 [of "rev ds" "rev req"] by (cases "d \<in> set req") simp_all
  finally show ?case by simp
qed (simp add: distinct_remdups_id)

lemma batch_digests_requested: "batch_digests B ds [] = Inr out \<Longrightarrow> out = rev (remdups (rev ds))"
  using batch_digests_Inr by fastforce

lemma batch_sound:
  assumes "world_ok B K w" and "distinct ds"
    and rs: "rs = List.map_filter (\<lambda>a. v_results (bk_view K (w_meta w)) (ns, a)) ds"
  shows "distinct (map ar_action rs) \<and>
    (\<forall>r\<in>set rs. ar_action r \<in> set ds \<and> result_ok B (w_held K w) (w_content K w) ns (ar_action r) r)"
  using assms(2) unfolding rs
proof (induction ds)
  case Nil
  then show ?case by (simp add: map_filter_simps)
next
  case (Cons a ds)
  show ?case
  proof (cases "v_results (bk_view K (w_meta w)) (ns, a)")
    case None
    with Cons show ?thesis by (auto simp: map_filter_simps)
  next
    case (Some r)
    with world_ok_result [OF assms(1) Some]
    have "ar_action r = a" "result_ok B (w_held K w) (w_content K w) ns a r" by (simp_all add: result_ok_def)
    with Cons Some show ?thesis by (auto simp: map_filter_simps)
  qed
qed

context cache_server
begin

section \<open>Descriptors and metadata\<close>

definition object_read :: "string \<Rightarrow> digest \<Rightarrow> json \<Rightarrow> ('b, 'm) world \<Rightarrow> bool" where
  "object_read ns d v w \<longleftrightarrow>
     (\<exists>bs. w_content K w d = Some bs \<and> canonical_object B bs = Some v) \<and> (ns, d) \<in> w_held K w"

lemma lasting_object_read [lasting_intros]: "lasting K (object_read ns d v)"
  unfolding object_read_def by (intro lasting_intros)

lemma triple_read_canonical_object:
  assumes "lasting K A"
  shows "triple B K A (read_canonical_object B st ns d label) (\<lambda>v w. object_read ns d v w \<and> A w)"
  unfolding read_canonical_object_def
  apply (rule triple_bindp, rule triple_liftr)
  apply (rule triple_bindp, rule triple_ensurep)
  apply (rule triple_bindp, rule triple_blob_visible, intro lasting_intros assms)
  apply (rule triple_bindp, rule triple_ensurep)
  apply (rule triple_bindp, rule triple_read_object, intro lasting_intros assms, blast)
  apply (rule triple_bindp, rule triple_liftr)
  apply (rule triple_bindp, rule triple_ensurep)
  apply (rule triple_bindp, rule triple_liftr)
  apply (rule triple_bindp, rule triple_ensurep)
  apply (rule triple_ok_post)
  apply (clarsimp simp: object_read_def map_err_Inr_iff canonical_object_def)
  done

lemma triple_action_descriptor:
  assumes "lasting K A"
  shows "triple B K A (validate_action_descriptor B st ns d)
    (\<lambda>kind w. descriptor_ok B (w_held K w) (w_content K w) ns d kind \<and> A w)"
  unfolding validate_action_descriptor_def
  apply (rule triple_bindp, rule triple_read_canonical_object [OF assms])
  apply (rule triple_weaken [OF triple_liftr])
   apply assumption
  apply (auto simp: object_read_def descriptor_ok_def)
  done

lemma triple_require_output_blobs:
  assumes "lasting K A"
  shows "triple B K A (require_output_blobs B st ns out err kind)
    (\<lambda>_ w. (ns, out) \<in> w_held K w \<and> (ns, err) \<in> w_held K w \<and> A w)"
  unfolding require_output_blobs_def
  apply (rule triple_bindp, rule triple_require_blob [OF assms])
  apply (rule triple_post, rule triple_require_blob, intro lasting_intros assms)
  apply auto
  done

text \<open>The three compiler adapters check their metadata alike.\<close>

definition refs_held :: "string \<Rightarrow> action_kind \<Rightarrow> json \<Rightarrow> ('b, 'm) world \<Rightarrow> bool" where
  "refs_held ns kind v w \<longleftrightarrow>
     (\<exists>refs. metadata_refs B kind v = Inr refs \<and> (\<forall>r\<in>set refs. (ns, r) \<in> w_held K w))"

lemma triple_adapter:
  assumes "lasting K A" and "\<And>m. dec = Inr m \<Longrightarrow> metadata_refs B kind v = Inr [out m, err m]"
  shows "triple B K A (bindp (ensurep c e1) (\<lambda>_. bindp (liftr (map_err f dec)) (\<lambda>m.
      bindp (ensurep (valid m) e2) (\<lambda>_. require_output_blobs B st ns (out m) (err m) name))))
    (\<lambda>_ w. refs_held ns kind v w \<and> A w)"
  apply (rule triple_bindp, rule triple_ensurep)
  apply (rule triple_bindp, rule triple_liftr)
  apply (rule triple_bindp, rule triple_ensurep)
  apply (rule triple_post, rule triple_require_output_blobs, intro lasting_intros assms(1))
  using assms(2) apply (auto simp: refs_held_def map_err_Inr_iff)
  done

lemma triple_adapter_metadata:
  assumes "lasting K A"
  shows "triple B K A (validate_build_script_metadata B st ns v version) (\<lambda>_ w. refs_held ns KindBuildScript v w \<and> A w)"
    and "triple B K A (validate_cc_metadata B st ns v version) (\<lambda>_ w. refs_held ns KindCc v w \<and> A w)"
    and "triple B K A (validate_rustc_metadata B st ns v version) (\<lambda>_ w. refs_held ns KindRustc v w \<and> A w)"
proof -
  show "triple B K A (validate_build_script_metadata B st ns v version) (\<lambda>_ w. refs_held ns KindBuildScript v w \<and> A w)"
    unfolding validate_build_script_metadata_def by (rule triple_adapter [OF assms]) simp
  show "triple B K A (validate_cc_metadata B st ns v version) (\<lambda>_ w. refs_held ns KindCc v w \<and> A w)"
    unfolding validate_cc_metadata_def by (rule triple_adapter [OF assms]) simp
  show "triple B K A (validate_rustc_metadata B st ns v version) (\<lambda>_ w. refs_held ns KindRustc v w \<and> A w)"
    unfolding validate_rustc_metadata_def by (rule triple_adapter [OF assms]) simp
qed

lemma triple_client_metadata:
  assumes "lasting K A"
  shows "triple B K A (validate_client_metadata B st ns d kind)
    (\<lambda>_ w. metadata_ok B (w_held K w) (w_content K w) ns d kind \<and> A w)"
proof -
  let ?pre = "\<lambda>v k ver obj w. k = expected_kind kind \<and>
      ok_or (unprocessable ''client metadata version is required'')
        (Option.bind (json_get v ''version'') as_u64) = Inr ver \<and>
      ok_or (unprocessable ''client metadata kind is required'') (Option.bind (json_get v ''kind'') as_str) = Inr k \<and>
      ok_or (unprocessable ''client metadata must be a JSON object'') (as_object v) = Inr obj \<and>
      object_read ns d v w \<and> A w"
  have last: "lasting K (?pre v k ver obj)" for v k ver obj by (intro lasting_intros assms)
  have fin: "metadata_ok B (w_held K w) (w_content K w) ns d kind \<and> A w"
    if "refs_held ns kind v w \<and> ?pre v k ver obj w" for v k ver obj w
    using that
    by (auto simp: metadata_ok_def refs_held_def object_read_def ok_or_Inr_iff bind_eq_Some_conv as_str_Some_iff)
  have task: "triple B K (?pre v k ver obj) (liftr (validate_task_metadata B v ver))
      (\<lambda>_ w. refs_held ns KindTask v w \<and> ?pre v k ver obj w)" for v k ver obj
    by (rule triple_post [OF triple_liftr]) (auto simp: refs_held_def)
  have body: "triple B K (?pre v k ver obj) (case kind of
          KindTask \<Rightarrow> liftr (validate_task_metadata B v ver)
        | KindBuildScript \<Rightarrow> validate_build_script_metadata B st ns v ver
        | KindCc \<Rightarrow> validate_cc_metadata B st ns v ver
        | KindRustc \<Rightarrow> validate_rustc_metadata B st ns v ver)
      (\<lambda>_ w. metadata_ok B (w_held K w) (w_content K w) ns d kind \<and> A w)" for v k ver obj
  proof (cases kind)
    case KindTask
    show ?thesis unfolding KindTask action_kind.case
      by (rule triple_post [OF task [unfolded KindTask]], rule fin [unfolded KindTask])
  next
    case KindBuildScript
    show ?thesis unfolding KindBuildScript action_kind.case
      by (rule triple_post [OF triple_adapter_metadata(1) [OF last [unfolded KindBuildScript]]],
          rule fin [unfolded KindBuildScript])
  next
    case KindCc
    show ?thesis unfolding KindCc action_kind.case
      by (rule triple_post [OF triple_adapter_metadata(2) [OF last [unfolded KindCc]]], rule fin [unfolded KindCc])
  next
    case KindRustc
    show ?thesis unfolding KindRustc action_kind.case
      by (rule triple_post [OF triple_adapter_metadata(3) [OF last [unfolded KindRustc]]], rule fin [unfolded KindRustc])
  qed
  show ?thesis
    unfolding validate_client_metadata_def
    by (rule triple_bindp, rule triple_read_canonical_object [OF assms], rule triple_bindp, rule triple_liftr,
        rule triple_bindp, rule triple_liftr, rule triple_bindp, rule triple_liftr, rule triple_bindp,
        rule triple_ensurep, rule body)
qed

section \<open>Committing\<close>

lemma triple_commit:
  assumes "lasting K A"
    and "\<And>w. A w \<Longrightarrow> result_ok B (w_held K w) (w_content K w) ns a res"
  shows "triple B K A (on_meta (ms_commit (st_metadata st) ns a res))
    (\<lambda>out w. (out \<noteq> CommitConflict \<longrightarrow> v_results (bk_view K (w_meta w)) (ns, a) = Some res) \<and> A w)"
proof (rule triple_on_meta [OF _ assms(1)], goal_cases)
  case (1 w r m)
  from md.commit [OF world_ok_inv [OF 1(1)] 1(3)] have m: "bk_inv K m"
    "\<And>out. r = Inr out \<Longrightarrow> spec_commit ns a res (bk_view K (w_meta w)) = (out, bk_view K m)"
    "bk_view K m = bk_view K (w_meta w) \<or> bk_view K m = snd (spec_commit ns a res (bk_view K (w_meta w)))" by auto
  have grows: "view_grows (bk_view K (w_meta w)) (bk_view K m)"
    using m(3) spec_grows(2) view_grows_refl by metis
  have "sys_ok B K (w_blobs w, m)"
    using m(3) sys_ok_meta [OF world_ok_sys [OF 1(1)] m(1)]
      sys_ok_commit [OF world_ok_sys [OF 1(1)] m(1)] assms(2) [OF 1(2)]
    by (auto simp: w_held_def w_content_def)
  with grows lasting_meta_grows [OF assms(1) 1(2) grows] show ?case
    using spec_commit_result m(2) by auto
qed

lemma triple_commit_manifest:
  assumes "lasting K A" and "\<And>w. A w \<Longrightarrow> manifest_ok B k etag mf"
  shows "triple B K A (on_meta (ms_commit_manifest (st_metadata st) ns k expected etag mf))
    (\<lambda>out w. (out \<noteq> ManifestPreconditionFailed \<longrightarrow>
        v_manifests (bk_view K (w_meta w)) (ns, k) = Some (etag, mf)) \<and> A w)"
proof (rule triple_on_meta [OF _ assms(1)], goal_cases)
  case (1 w r m)
  from md.commit_manifest [OF world_ok_inv [OF 1(1)] 1(3)] have m: "bk_inv K m"
    "bk_view K m = bk_view K (w_meta w) \<or>
     bk_view K m = snd (spec_commit_manifest ns k expected etag mf (bk_view K (w_meta w)))" by auto
  have grows: "view_grows (bk_view K (w_meta w)) (bk_view K m)"
    using m(2) spec_grows(3) view_grows_refl by metis
  have "sys_ok B K (w_blobs w, m)"
    using m(2) sys_ok_meta [OF world_ok_sys [OF 1(1)] m(1)]
      sys_ok_commit_manifest [OF world_ok_sys [OF 1(1)] m(1)] assms(2) [OF 1(2)] by auto
  moreover have "v_manifests (bk_view K m) (ns, k) = Some (etag, mf)"
    if "r = Inr out" "out \<noteq> ManifestPreconditionFailed" for out
    using md.commit_manifest [OF world_ok_inv [OF 1(1)] 1(3)] spec_commit_manifest_won that by blast
  ultimately show ?case
    using grows lasting_meta_grows [OF assms(1) 1(2) grows] by simp
qed

lemma triple_ok_if_Some:
  assumes "lasting K A" and "\<And>d. x = Some d \<Longrightarrow> triple B K A (f d) (\<lambda>_ w. Q d w \<and> A w)"
  shows "triple B K A (case x of None \<Rightarrow> ok () | Some d \<Rightarrow> f d) (\<lambda>_ w. (\<forall>d. x = Some d \<longrightarrow> Q d w) \<and> A w)"
  using assms(2) by (cases x) (auto intro: triple_ok_post)

lemma triple_put_action_result:
  "triple B K (\<lambda>_. True) (put_action_result B st headers (alg, hash, n) res)
     (\<lambda>_ w. \<exists>ns. headers ''mbx-cache-namespace'' = Some ns \<and>
        v_results (bk_view K (w_meta w)) (ns, \<lparr>dg_algorithm = alg, dg_hash = hash, dg_size = n\<rparr>) = Some res)"
  unfolding put_action_result_def
  apply (rule triple_bindp, rule triple_authorized_ns, intro lasting_intros)
  apply (rule triple_bindp, rule triple_liftr)
  apply (rule triple_bindp, rule triple_liftr)
  apply (rule triple_bindp, rule triple_ensurep)
  apply (rule triple_bindp, rule triple_action_descriptor, intro lasting_intros)
  apply (rule triple_bindp, rule triple_liftr)
  apply (rule triple_bindp, rule triple_ok_if_Some, intro lasting_intros)
   apply (rule triple_client_metadata, intro lasting_intros)
  apply (rule triple_bindp, rule triple_ok_if_Some, intro lasting_intros)
   apply (rule triple_validate_tree, intro lasting_intros)
  apply (rule triple_bindp, rule triple_map_errp, rule triple_commit, intro lasting_intros)
   apply (auto simp: result_ok_def parse_action_digest_Inr_iff)[1]
  apply (rule triple_bindp, rule triple_count, intro lasting_intros)
  subgoal for ns shape action meta kind unit unit' unit'' outcome counted
    by (cases outcome) (auto simp: parse_action_digest_Inr_iff intro: triple_ok_post triple_throw)
  done

section \<open>Manifests and queries\<close>

lemma triple_put_action_manifest:
  "triple B K (\<lambda>_. True) (put_action_manifest B st headers (alg, hash, n) body)
     (\<lambda>resp w. \<exists>ns etag mf. headers ''mbx-cache-namespace'' = Some ns \<and> mp_etag resp = quoted_etag etag \<and>
        v_manifests (bk_view K (w_meta w)) (ns, \<lparr>dg_algorithm = alg, dg_hash = hash, dg_size = n\<rparr>) = Some (etag, mf))"
  unfolding put_action_manifest_def Let_def
  apply (rule triple_bindp, rule triple_authorized_ns, intro lasting_intros)
  apply (rule triple_bindp, rule triple_liftr)
  apply (rule triple_bindp, rule triple_liftr)
  apply (rule triple_bindp, rule triple_liftr)
  apply (rule triple_bindp, rule triple_ensurep)
  apply (rule triple_bindp, rule triple_liftr)
  apply (rule triple_bindp, rule triple_liftr)
  apply (rule triple_bindp, rule triple_map_errp, rule triple_commit_manifest, intro lasting_intros)
   apply (auto simp: manifest_ok_def map_err_Inr_iff)[1]
  subgoal for ns bytes manifest key checked expected canonical outcome
    by (cases outcome) (auto simp: parse_action_digest_Inr_iff intro!: triple_ok_post intro: triple_throw)
  done

lemma triple_missing_blobs:
  "triple B K (\<lambda>_. True) (missing_blobs B st headers request)
     (\<lambda>resp w. \<exists>ns. headers ''mbx-cache-namespace'' = Some ns \<and>
        mi_missing resp = filter (\<lambda>d. (ns, d) \<notin> w_held K w) (mq_digests request))"
proof -
  have visible: "triple B K A (map_errp internal (on_meta (ms_visible_blobs (st_metadata st) ns ds)))
      (\<lambda>vs w. A w \<and> vs = filter (\<lambda>d. (ns, d) \<in> w_held K w) ds)" if "lasting K A" for A ns ds
    unfolding w_held_def
    by (rule triple_map_errp, rule triple_meta_read [OF _ that]) (use md.visible_blobs in blast)
  show ?thesis
    unfolding missing_blobs_def
    apply (rule triple_bindp, rule triple_authorized_ns, intro lasting_intros)
    apply (rule triple_bindp, rule triple_ensurep)
    apply (rule triple_bindp, rule triple_liftr)
    apply (rule triple_bindp, rule visible, intro lasting_intros)
    apply (rule triple_ok_post)
    apply (auto intro: filter_cong)
    done
qed

lemma triple_meta_result:
  assumes "\<And>m r m'. bk_inv K m \<Longrightarrow> p m = (r, m') \<Longrightarrow>
      bk_inv K m' \<and> bk_view K m' = bk_view K m \<and> (\<forall>x. r = Inr x \<longrightarrow> Q x (bk_view K m))"
    and "lasting K A" and "\<And>x w. world_ok B K w \<Longrightarrow> Q x (bk_view K (w_meta w)) \<Longrightarrow> R x w"
  shows "triple B K A (map_errp internal (on_meta p)) (\<lambda>x w. R x w \<and> A w)"
  using triple_map_errp [OF triple_meta_read [OF assms(1,2)]] assms(3) unfolding triple_def by blast

lemma triple_get_action_result:
  "triple B K (\<lambda>_. True) (get_action_result B st headers (alg, hash, n))
     (\<lambda>res w. \<exists>ns. headers ''mbx-cache-namespace'' = Some ns \<and>
        v_results (bk_view K (w_meta w)) (ns, \<lparr>dg_algorithm = alg, dg_hash = hash, dg_size = n\<rparr>) = Some res \<and>
        result_ok B (w_held K w) (w_content K w) ns \<lparr>dg_algorithm = alg, dg_hash = hash, dg_size = n\<rparr> res)"
proof -
  have found: "triple B K A (map_errp internal (on_meta (ms_get (st_metadata st) ns a)))
      (\<lambda>x w. (\<forall>res. x = Some res \<longrightarrow> v_results (bk_view K (w_meta w)) (ns, a) = Some res \<and>
          result_ok B (w_held K w) (w_content K w) ns a res) \<and> A w)"
    if "lasting K A" for A ns a
    by (rule triple_meta_result [where Q = "\<lambda>x v. x = v_results v (ns, a)", OF _ that])
      (use md.get in blast, simp add: world_ok_result)
  show ?thesis
    unfolding get_action_result_def
    apply (rule triple_bindp, rule triple_authorized_ns, intro lasting_intros)
    apply (rule triple_bindp, rule triple_liftr)
    apply (rule triple_bindp, rule found, intro lasting_intros)
    subgoal for ns action found'
      apply (cases found')
       apply (simp, rule triple_bindp, rule triple_count, intro lasting_intros, rule triple_throw)
      apply (simp, rule triple_bindp, rule triple_count, intro lasting_intros, rule triple_ok_post)
      apply (auto simp: parse_action_digest_Inr_iff)
      done
    done
qed

lemma triple_batch_action_results:
  "triple B K (\<lambda>_. True) (batch_action_results B st headers request)
     (\<lambda>resp w. \<exists>ns. headers ''mbx-cache-namespace'' = Some ns \<and> fst resp = lb_action_batch_media_type B \<and>
        snd resp = List.map_filter (\<lambda>a. v_results (bk_view K (w_meta w)) (ns, a)) (rev (remdups (rev (mq_digests request)))))"
proof -
  let ?found = "\<lambda>ns ds rs w. rs = List.map_filter (\<lambda>a. v_results (bk_view K (w_meta w)) (ns, a)) ds"
  have found: "triple B K A (map_errp internal (on_meta (ms_get_batch (st_metadata st) ns ds)))
      (\<lambda>rs w. A w \<and> ?found ns ds rs w)" if "lasting K A" for A ns ds
    by (rule triple_map_errp, rule triple_meta_read [OF _ that]) (use md.get_batch in blast)
  show ?thesis
    unfolding batch_action_results_def
    apply (rule triple_bindp, rule triple_authorized_ns, intro lasting_intros)
    apply (rule triple_bindp, rule triple_ensurep)
    apply (rule triple_bindp, rule triple_liftr)
    apply (rule triple_bindp, rule found, intro lasting_intros)
    apply (rule triple_bindp, rule triple_count_same, simp)
    apply (rule triple_ok_post)
    apply (auto dest!: batch_digests_requested)
    done
qed

lemma triple_get_action_manifest:
  "triple B K (\<lambda>_. True) (get_action_manifest B st headers parts)
     (\<lambda>resp w. mp_status resp = OK \<and> mp_etag resp = quoted_etag (blake3_hash_hex (lb_hash B) (mp_body resp)))"
proof -
  have found: "triple B K A (map_errp internal (on_meta (ms_get_manifest (st_metadata st) ns k)))
      (\<lambda>x w. (\<forall>r. x = Some r \<longrightarrow> manifest_ok B k (mr_etag r) (mr_manifest r)) \<and> A w)"
    if "lasting K A" for A ns k
    by (rule triple_meta_result [where Q = "\<lambda>x v. map_option (\<lambda>r. (mr_etag r, mr_manifest r)) x = v_manifests v (ns, k)",
          OF _ that])
      (use md.get_manifest in blast, use world_ok_manifest in \<open>metis option.simps(9)\<close>)
  show ?thesis
    unfolding get_action_manifest_def
    apply (rule triple_bindp, rule triple_authorized_ns, intro lasting_intros)
    apply (rule triple_bindp, rule triple_liftr)
    apply (rule triple_bindp, rule found, intro lasting_intros)
    apply (rule triple_bindp, rule triple_liftr)
    apply (rule triple_bindp, rule triple_liftr)
    apply (rule triple_ok_post)
    apply (auto simp: manifest_ok_def map_err_Inr_iff ok_or_Inr_iff)
    done
qed

end

end
