(* ===== verification/Pack_Serving.thy ===== *)
theory Pack_Serving
  imports Actions
begin

text \<open>
  \<^verbatim>\<open>src/server.rs\<close>, third part: the handler \<^verbatim>\<open>pack_blobs\<close> and the response stream it
  returns, with the guard that accounts for the stream.

  The stream runs after the handler has answered. Its state \<open>pack_run\<close> holds the chunks
  yielded so far, the guard, and the reads of the combinator \<^verbatim>\<open>buffered\<close>: a window of at most
  16 reads that have been started, and the entries not started yet. When the stream asks for
  the next read, \<open>schedule\<close> says which reads of the window complete meanwhile and in which
  order; the oldest one completes in any case. \<open>demand\<close> is the number of items the client
  reads before it goes away, if it does.
\<close>

section \<open>The request\<close>

definition pack_blob_header :: "libraries \<Rightarrow> digest \<Rightarrow> api_error + bytes" where
  "pack_blob_header B d =
     bind_result (map_err bad_request (hex_decode (lb_protocol B) (dg_hash d))) (\<lambda>hash.
     if length hash \<noteq> 32 then Inl (bad_request ''invalid digest hash length'')
     else
       bind_result (map_err bad_request (algorithm_kind (lb_protocol B) d)) (\<lambda>a.
       Inr ((case a of Blake3 \<Rightarrow> 1 | Sha256 \<Rightarrow> 2) # hash @ to_be_bytes (dg_size d))))"

text \<open>Checking the requested digests, without repetitions, and adding up their sizes.\<close>

fun pack_request ::
  "libraries \<Rightarrow> u64 \<Rightarrow> digest list \<Rightarrow> u64 \<Rightarrow> digest list \<Rightarrow> api_error + u64 \<times> digest list" where
  "pack_request B max_bytes [] total_bytes requested = Inr (total_bytes, requested)"
| "pack_request B max_bytes (d # ds) total_bytes requested =
     bind_result (validate_digest (lb_protocol B) d) (\<lambda>_.
     if d \<in> set requested then pack_request B max_bytes ds total_bytes requested
     else
       bind_result (ok_or (too_large ''blob pack is too large'') (checked_add total_bytes (dg_size d))) (\<lambda>total_bytes.
       if total_bytes > max_bytes then Inl (too_large ''blob pack exceeds the configured size limit'')
       else pack_request B max_bytes ds total_bytes (requested @ [d])))"

text \<open>The frame headers of the visible blobs, the payload bytes and the bytes of the pack.\<close>

fun pack_entries ::
  "libraries \<Rightarrow> digest list \<Rightarrow> u64 \<Rightarrow> u64 \<Rightarrow> (bytes \<times> digest) list
     \<Rightarrow> api_error + u64 \<times> u64 \<times> (bytes \<times> digest) list" where
  "pack_entries B [] payload_bytes bytes entries = Inr (payload_bytes, bytes, entries)"
| "pack_entries B (d # ds) payload_bytes bytes entries =
     bind_result (pack_blob_header B d) (\<lambda>header.
     bind_result (ok_or (too_large ''blob pack is too large'') (checked_add payload_bytes (dg_size d))) (\<lambda>payload_bytes.
     bind_result (ok_or (too_large ''blob pack is too large'')
       (Option.bind (checked_add bytes (of_nat HEADER_BYTES)) (\<lambda>n. checked_add n (dg_size d)))) (\<lambda>bytes.
     pack_entries B ds payload_bytes bytes (entries @ [(header, d)]))))"

record pack_response =
  pk_content_type :: string
  pk_content_length :: u64
  pk_blobs :: u64
  pk_bytes :: u64
  pk_entries :: "(bytes \<times> digest) list"
  pk_guard :: pack_guard

definition on_guard ::
  "(duration \<Rightarrow> pack_guard \<Rightarrow> metrics \<Rightarrow> pack_guard \<times> metrics) \<Rightarrow> pack_guard
     \<Rightarrow> (('b, 'm) world, 'e, pack_guard) prog" where
  "on_guard f g = bindp read_clock (\<lambda>clock w.
     case f clock g (w_metrics w) of (g', ms) \<Rightarrow> (Inr g', w\<lparr>w_metrics := ms\<rparr>))"

definition begin_pack :: "duration \<Rightarrow> u64 \<Rightarrow> u64 \<Rightarrow> u64 \<Rightarrow> (('b, 'm) world, 'e, pack_guard) prog" where
  "begin_pack request_started blobs bytes missing w =
     (case start_pack request_started blobs bytes missing (w_metrics w) of (g, ms) \<Rightarrow> (Inr g, w\<lparr>w_metrics := ms\<rparr>))"

definition drop_guard :: "pack_guard \<Rightarrow> ('b, 'm, unit) handler" where
  "drop_guard g = bindp read_clock (\<lambda>clock. modifyp (w_metrics_update (guard_drop clock g)))"

definition pack_visible_blobs ::
  "('b, 'm) app_state \<Rightarrow> string \<Rightarrow> digest list \<Rightarrow> ('b, 'm, digest list) handler" where
  "pack_visible_blobs st ns requested =
     bindp read_clock (\<lambda>metadata_started w.
       case on_meta (ms_visible_blobs (st_metadata st) ns requested) w of
         (Inr visible, w') \<Rightarrow>
           bindp read_clock (\<lambda>now.
           bindp (count (observe_pack_metadata_query ''success'' (now - metadata_started))) (\<lambda>_. ok visible)) w'
       | (Inl error, w') \<Rightarrow>
           bindp read_clock (\<lambda>now.
           bindp (count (observe_pack_metadata_query ''error'' (now - metadata_started))) (\<lambda>_.
             throw (internal error))) w')"

definition pack_blobs ::
  "libraries \<Rightarrow> ('b, 'm) app_state \<Rightarrow> header_map \<Rightarrow> missing_request \<Rightarrow> ('b, 'm, pack_response) handler" where
  "pack_blobs B st headers request =
     bindp read_clock (\<lambda>request_started.
     bindp (authorized B st headers Read) (\<lambda>ns.
     bindp (ensurep (\<not> length (mq_digests request) > max_batch_items (lb_protocol B))
              (bad_request ''at most 10000 digests may be packed'')) (\<lambda>_.
     bindp (liftr (pack_request B (st_max_blob_bytes st) (mq_digests request) 0 [])) (\<lambda>(total_bytes, requested).
     bindp (pack_visible_blobs st ns requested) (\<lambda>visible.
     bindp (record_blob_access st ns visible) (\<lambda>_.
     bindp (begin_pack request_started (of_nat (length requested)) total_bytes
              (of_nat (length requested - length visible))) (\<lambda>guard.
       case pack_entries B visible 0 (of_nat (length (pack_magic (lb_protocol B)))) [] of
         Inl e \<Rightarrow> bindp (drop_guard guard) (\<lambda>_. throw e)
       | Inr (payload_bytes, bytes, entries) \<Rightarrow>
           ok \<lparr>pk_content_type = lb_pack_media_type B, pk_content_length = bytes,
               pk_blobs = of_nat (length entries), pk_bytes = payload_bytes,
               pk_entries = entries, pk_guard = guard\<rparr>)))))))"

section \<open>The response stream\<close>

definition MAX_PACK_STORAGE_READS :: nat where
  "MAX_PACK_STORAGE_READS = 16"

datatype pack_read = Waiting bytes digest | Arrived "string + bytes \<times> blob"

datatype stop = Failed string | Cancelled

record pack_run =
  rn_guard :: pack_guard
  rn_sent :: "bytes list"
  rn_window :: "pack_read list"
  rn_rest :: "(bytes \<times> digest) list"
  rn_schedule :: "nat list list"
  rn_demand :: "nat option"

type_synonym ('b, 'm, 'a) streaming = "(('b, 'm) world \<times> pack_run, stop, 'a) prog"

definition on_world :: "(('b, 'm) world, stop, 'a) prog \<Rightarrow> ('b, 'm, 'a) streaming" where
  "on_world m = zoom fst (\<lambda>f (w, r). (f w, r)) m"

definition on_run :: "(pack_run, stop, 'a) prog \<Rightarrow> ('b, 'm, 'a) streaming" where
  "on_run m = zoom snd (\<lambda>f (w, r). (w, f r)) m"

text \<open>\<^verbatim>\<open>yield\<close>: the client gets a chunk, and may be gone before it asks for the next one.\<close>

definition yield_chunk :: "bytes \<Rightarrow> ('b, 'm, unit) streaming" where
  "yield_chunk c = on_run (\<lambda>r.
     let r' = r\<lparr>rn_sent := rn_sent r @ [c]\<rparr>
     in (if rn_demand r = Some (length (rn_sent r')) then Inl Cancelled else Inr (), r'))"

definition with_guard ::
  "(duration \<Rightarrow> pack_guard \<Rightarrow> metrics \<Rightarrow> pack_guard \<times> metrics) \<Rightarrow> ('b, 'm, unit) streaming" where
  "with_guard f = (\<lambda>(w, r). case on_guard f (rn_guard r) w of
       (Inr g, w') \<Rightarrow> (Inr (), (w', r\<lparr>rn_guard := g\<rparr>))
     | (Inl e, w') \<Rightarrow> (Inl e, (w', r)))"

text \<open>\<^verbatim>\<open>pack_guard.error()\<close> and the end of the stream with an error.\<close>

definition fail_pack :: "string \<Rightarrow> ('b, 'm, 'a) streaming" where
  "fail_pack e = bindp (with_guard guard_error) (\<lambda>_. throw (Failed e))"

text \<open>One storage read, as the futures of the window run it, and what it reports.\<close>

definition observe_read :: "string \<Rightarrow> duration \<Rightarrow> 'a \<Rightarrow> (('b, 'm) world, 'e, 'a) prog" where
  "observe_read label begun y =
     bindp read_clock (\<lambda>now.
     bindp (modifyp (w_metrics_update (observe_pack_storage_get label (now - begun)))) (\<lambda>_. ok y))"

definition read_entry ::
  "('b, 'm) app_state \<Rightarrow> bytes \<Rightarrow> digest \<Rightarrow> (('b, 'm) world, 'e, string + bytes \<times> blob) prog" where
  "read_entry st header d =
     bindp read_clock (\<lambda>begun w.
       case on_blobs (bs_get (st_blobs st) d) w of
         (Inr found, w') \<Rightarrow>
           (case found of
              Some blob \<Rightarrow>
                observe_read ''hit'' begun
                  (if bl_size blob \<noteq> dg_size d then Inl ''stored blob size does not match its digest''
                   else Inr (header, blob))
            | None \<Rightarrow> observe_read ''missing'' begun (Inl ''visible blob is missing from storage'')) w'
       | (Inl e, w') \<Rightarrow> observe_read ''error'' begun (Inl e) w')"

text \<open>A read of the window completes; nothing happens when it already has, or is not there.\<close>

definition complete_read :: "('b, 'm) app_state \<Rightarrow> nat \<Rightarrow> ('b, 'm, unit) streaming" where
  "complete_read st i = (\<lambda>(w, r).
     if i < length (rn_window r) then
       (case rn_window r ! i of
          Arrived _ \<Rightarrow> (Inr (), (w, r))
        | Waiting header d \<Rightarrow> (case read_entry st header d w of
            (Inl e, w') \<Rightarrow> (Inl e, (w', r))
          | (Inr x, w') \<Rightarrow> (Inr (), (w', r\<lparr>rn_window := (rn_window r)[i := Arrived x]\<rparr>))))
     else (Inr (), (w, r)))"

definition fill_window :: "pack_run \<Rightarrow> pack_run" where
  "fill_window r =
     (let n = MAX_PACK_STORAGE_READS - length (rn_window r)
      in r\<lparr>rn_window := rn_window r @ map (\<lambda>(header, d). Waiting header d) (take n (rn_rest r)),
            rn_rest := drop n (rn_rest r)\<rparr>)"

text \<open>\<^verbatim>\<open>reads.next()\<close>: start reads, let some complete, wait for the oldest and hand it over.\<close>

definition next_read :: "('b, 'm) app_state \<Rightarrow> ('b, 'm, (string + bytes \<times> blob) option) streaming" where
  "next_read st =
     bindp (on_run (modifyp fill_window)) (\<lambda>_.
     bindp (on_run (\<lambda>r. (Inr (case rn_schedule r of [] \<Rightarrow> [] | is # _ \<Rightarrow> is),
                         r\<lparr>rn_schedule := tl (rn_schedule r)\<rparr>))) (\<lambda>is.
     bindp (for_prog (complete_read st) (is @ [0])) (\<lambda>_.
       on_run (\<lambda>r. case rn_window r of
           Arrived x # rest \<Rightarrow> (Inr (Some x), r\<lparr>rn_window := rest\<rparr>)
         | _ \<Rightarrow> (Inr None, r)))))"

text \<open>The chunks of one blob, and the checks of their total length.\<close>

fun serve_chunks :: "u64 \<Rightarrow> stream \<Rightarrow> u64 \<Rightarrow> ('b, 'm, unit) streaming" where
  "serve_chunks blob_size [] streamed =
     (if streamed \<noteq> blob_size then fail_pack ''stored blob stream is shorter than advertised'' else ok ())"
| "serve_chunks blob_size (Inl e # chunks) streamed = fail_pack e"
| "serve_chunks blob_size (Inr chunk # chunks) streamed =
     (case checked_add streamed (of_nat (length chunk)) of
        None \<Rightarrow> fail_pack ''stored blob stream is too large''
      | Some streamed \<Rightarrow>
          if streamed > blob_size then fail_pack ''stored blob stream is larger than advertised''
          else
            bindp (on_world (modifyp (w_metrics_update (add_served_bytes (of_nat (length chunk)))))) (\<lambda>_.
            bindp (yield_chunk chunk) (\<lambda>_.
              serve_chunks blob_size chunks streamed)))"

definition serve_entry :: "bytes \<Rightarrow> blob \<Rightarrow> ('b, 'm, unit) streaming" where
  "serve_entry header blob =
     bindp (yield_chunk header) (\<lambda>_.
     bindp (serve_chunks (bl_size blob) (bl_stream blob) 0) (\<lambda>_.
       on_world (modifyp (w_metrics_update (inc_blob_hit \<circ> blob_served)))))"

text \<open>One round of the loop over the reads: whether there was one.\<close>

definition serve_round :: "('b, 'm) app_state \<Rightarrow> ('b, 'm, bool) streaming" where
  "serve_round st =
     bindp (next_read st) (\<lambda>entry.
       case entry of
         None \<Rightarrow> ok False
       | Some (Inl e) \<Rightarrow> fail_pack e
       | Some (Inr (header, blob)) \<Rightarrow> bindp (serve_entry header blob) (\<lambda>_. ok True))"

definition unserved :: "pack_run \<Rightarrow> nat" where
  "unserved r = length (rn_window r) + length (rn_rest r)"

text \<open>Each round with a read takes one read off, and nothing else does.\<close>

definition leaves_reads :: "nat \<Rightarrow> ('b, 'm, 'a) streaming \<Rightarrow> bool" where
  "leaves_reads n p \<longleftrightarrow> (\<forall>w r x w' r'. p (w, r) = (x, (w', r')) \<longrightarrow> unserved r' + n = unserved r)"

lemma leaves_reads_bindp:
  "leaves_reads m p \<Longrightarrow> (\<And>x. leaves_reads 0 (f x)) \<Longrightarrow> m = 0 \<Longrightarrow> leaves_reads 0 (bindp p f)"
  unfolding leaves_reads_def bindp_def by (fastforce split: prod.splits sum.splits)

lemma leaves_reads_prims [simp]:
  "leaves_reads 0 (ok x)" "leaves_reads 0 (throw e)" "leaves_reads 0 (on_world m)"
  "leaves_reads 0 (yield_chunk c)" "leaves_reads 0 (with_guard f)" "leaves_reads 0 (complete_read st i)"
  "leaves_reads 0 (on_run (modifyp fill_window))"
  by (auto simp: leaves_reads_def ok_def throw_def on_world_def on_run_def zoom_def yield_chunk_def
      with_guard_def complete_read_def unserved_def fill_window_def modifyp_def Let_def
      split: prod.splits sum.splits if_splits pack_read.splits)

lemma leaves_reads_fail [simp]: "leaves_reads 0 (fail_pack e)"
  unfolding fail_pack_def by (rule leaves_reads_bindp) auto

lemma leaves_reads_chunks [simp]: "leaves_reads 0 (serve_chunks n chunks k)"
  by (induction n chunks k rule: serve_chunks.induct) (auto intro!: leaves_reads_bindp split: option.split)

lemma leaves_reads_completions [simp]: "leaves_reads 0 (for_prog (complete_read st) is)"
  by (induction "is") (auto intro!: leaves_reads_bindp)

lemma leaves_reads_entry [simp]: "leaves_reads 0 (serve_entry header blob)"
  unfolding serve_entry_def by (auto intro!: leaves_reads_bindp)

lemma leaves_readsD: "leaves_reads 0 p \<Longrightarrow> p (w, r) = (x, (w', r')) \<Longrightarrow> unserved r' = unserved r"
  unfolding leaves_reads_def by fastforce

lemma next_read_takes:
  assumes "next_read st (w, r) = (Inr (Some x), (w', r'))"
  shows "unserved r' < unserved r"
proof -
  define r0 where "r0 = (fill_window r)\<lparr>rn_schedule := tl (rn_schedule (fill_window r))\<rparr>"
  obtain "is" v r1 where c: "for_prog (complete_read st) is (w, r0) = (Inr (), (v, r1))"
    and r1: "rn_window r1 = Arrived x # rn_window r'" "rn_rest r' = rn_rest r1"
    using assms
    by (auto simp: next_read_def prog_simps on_run_def zoom_def modifyp_def r0_def simp del: for_prog.simps
        split: prod.splits list.splits pack_read.splits)
  from leaves_readsD [OF leaves_reads_completions c] r1 show ?thesis
    by (simp add: r0_def unserved_def fill_window_def Let_def)
qed

lemma serve_round_True:
  assumes "serve_round st s = (Inr True, t)"
  obtains header blob u v where "next_read st s = (Inr (Some (Inr (header, blob))), u)"
    and "serve_entry header blob u = (Inr (), t)"
proof -
  from assms obtain entry u where n: "next_read st s = (Inr entry, u)"
    and e: "(case entry of None \<Rightarrow> ok False | Some (Inl e) \<Rightarrow> fail_pack e
      | Some (Inr (header, blob)) \<Rightarrow> bindp (serve_entry header blob) (\<lambda>_. ok True)) u = (Inr True, t)"
    unfolding serve_round_def prog_simps by blast
  from e obtain header blob where "entry = Some (Inr (header, blob))" "serve_entry header blob u = (Inr (), t)"
    by (auto simp: prog_simps fail_pack_def split: option.splits sum.splits)
  with n that show ?thesis by blast
qed

lemma serve_round_takes:
  assumes "serve_round st (w, r) = (Inr True, (w', r'))"
  shows "unserved r' < unserved r"
proof -
  obtain header blob v r1 where "next_read st (w, r) = (Inr (Some (Inr (header, blob))), (v, r1))"
    and "serve_entry header blob (v, r1) = (Inr (), (w', r'))"
    using serve_round_True [OF assms] by (metis prod.collapse)
  with next_read_takes leaves_readsD [OF leaves_reads_entry] show ?thesis by metis
qed

function serve_reads :: "('b, 'm) app_state \<Rightarrow> ('b, 'm, unit) streaming" where
  "serve_reads st s =
     (case serve_round st s of
        (Inl e, t) \<Rightarrow> (Inl e, t)
      | (Inr False, t) \<Rightarrow> (Inr (), t)
      | (Inr True, t) \<Rightarrow> serve_reads st t)"
  by pat_completeness auto
termination
proof (relation "measure (\<lambda>(st, s). unserved (snd s))", goal_cases)
  case (2 st s x t b)
  then have "serve_round st (fst s, snd s) = (Inr True, (fst t, snd t))" by simp
  from serve_round_takes [OF this] show ?case by simp
qed simp

declare serve_reads.simps [simp del]

text \<open>The body of the stream, and its end: the guard is dropped however it ends.\<close>

definition pack_stream_body :: "libraries \<Rightarrow> ('b, 'm) app_state \<Rightarrow> ('b, 'm, unit) streaming" where
  "pack_stream_body B st =
     bindp (with_guard record_first_byte) (\<lambda>_.
     bindp (yield_chunk (pack_magic (lb_protocol B))) (\<lambda>_.
     bindp (serve_reads st) (\<lambda>_.
       with_guard guard_complete)))"

definition new_run :: "pack_response \<Rightarrow> nat list list \<Rightarrow> nat option \<Rightarrow> pack_run" where
  "new_run resp schedule demand =
     \<lparr>rn_guard = pk_guard resp, rn_sent = [], rn_window = [], rn_rest = pk_entries resp,
      rn_schedule = schedule, rn_demand = demand\<rparr>"

text \<open>What the client receives, and whether the stream ended as it should.\<close>

definition stream_pack ::
  "libraries \<Rightarrow> ('b, 'm) app_state \<Rightarrow> pack_response \<Rightarrow> nat list list \<Rightarrow> nat option \<Rightarrow> ('b, 'm) world
     \<Rightarrow> (stop + unit) \<times> bytes list \<times> ('b, 'm) world" where
  "stream_pack B st resp schedule demand w =
     (case (if demand = Some 0 then throw Cancelled else pack_stream_body B st) (w, new_run resp schedule demand) of
        (x, (w', r)) \<Rightarrow> (x, rn_sent r, snd (drop_guard (rn_guard r) w')))"

end
