(* ===== verification/Server_Serving.thy ===== *)
theory Server_Serving
  imports Server_Results Pack_Serving "HOL-Library.Sublist"
begin

text \<open>
  What \<^verbatim>\<open>pack_blobs\<close> serves. The handler computes frame headers and exact lengths for the
  blobs its namespace holds; the response stream then yields a prefix of exactly that pack,
  and all of it when it ends without an error, in whatever order the reads of its window
  complete. Every stream is accounted for under exactly one outcome.
\<close>

section \<open>Effects that leave the stores alone\<close>

lemma read_clock_run:
  "\<exists>t w'. read_clock w = (Inr t, w') \<and> w_blobs w' = w_blobs w \<and> w_meta w' = w_meta w \<and> w_env w' = w_env w \<and>
     w_metrics w' = w_metrics w"
  by (simp add: read_clock_def Let_def)

lemma on_guard_run: "\<exists>g' v. on_guard f g w = (Inr g', v)"
  by (simp add: on_guard_def bindp_def read_clock_def Let_def split: prod.split)

lemma triple_read_clock: "lasting K A \<Longrightarrow> triple B K A read_clock (\<lambda>_. A)"
  by (rule triple_local_unit) (auto simp: read_clock_def Let_def)

lemma triple_modify_metrics: "lasting K A \<Longrightarrow> triple B K A (modifyp (w_metrics_update f)) (\<lambda>_. A)"
  by (rule triple_local_unit) (auto simp: modifyp_def)

lemma triple_drop_guard: "lasting K A \<Longrightarrow> triple B K A (drop_guard g) (\<lambda>_. A)"
  unfolding drop_guard_def by (rule triple_bindp, erule triple_read_clock) (rule triple_modify_metrics)

lemma triple_begin_pack: "lasting K A \<Longrightarrow> triple B K A (begin_pack s n k m) (\<lambda>_. A)"
  by (rule triple_local_unit) (auto simp: begin_pack_def split: prod.splits)

lemma triple_on_guard: "lasting K A \<Longrightarrow> triple B K A (on_guard f g) (\<lambda>_. A)"
  unfolding on_guard_def
  by (rule triple_bindp, erule triple_read_clock, rule triple_local_unit) (auto split: prod.splits)

lemma triple_observe_read: "lasting K A \<Longrightarrow> triple B K A (observe_read label t y) (\<lambda>z w. z = y \<and> A w)"
  unfolding observe_read_def
  by (rule triple_bindp, erule triple_read_clock, rule triple_bindp, erule triple_modify_metrics) (rule triple_ok)

text \<open>A program that handles the failure of another.\<close>

lemma triple_try:
  assumes "triple B K A m Q" and "lasting K A"
    and "\<And>v. triple B K (Q v) (f v) R" and "\<And>e. triple B K A (g e) R"
  shows "triple B K A (\<lambda>w. case m w of (Inr v, w') \<Rightarrow> f v w' | (Inl e, w') \<Rightarrow> g e w') R"
  unfolding triple_def
proof (intro allI impI)
  fix w r w'
  assume w: "world_ok B K w" "A w" "(case m w of (Inr v, w') \<Rightarrow> f v w' | (Inl e, w') \<Rightarrow> g e w') = (r, w')"
  obtain q u where q: "m w = (q, u)" by force
  with assms(1,2) w(1,2) have u: "world_ok B K u" "w_grows K w u" "A u" "\<And>v. q = Inr v \<Longrightarrow> Q v u"
    unfolding triple_def lasting_def by blast+
  show "world_ok B K w' \<and> w_grows K w w' \<and> (\<forall>x. r = Inr x \<longrightarrow> R x w')"
  proof (cases q)
    case (Inl e)
    with w(3) q have "g e u = (r, w')" by simp
    with assms(4) u show ?thesis unfolding triple_def by (blast intro: w_grows_trans)
  next
    case (Inr v)
    with w(3) q have "f v u = (r, w')" by simp
    with assms(3) u Inr show ?thesis unfolding triple_def by (blast intro: w_grows_trans)
  qed
qed

section \<open>Requests and entries\<close>

lemma pack_request_Inr:
  assumes "pack_request B mx ds total_bytes requested = Inr (n, out)" and "distinct requested"
  shows "distinct out \<and> set out = set requested \<union> set ds \<and> (\<forall>d\<in>set ds. digest_validate (lb_protocol B) d)"
  using assms
proof (induction ds arbitrary: total_bytes requested)
  case (Cons d ds)
  show ?case
  proof (cases "d \<in> set requested")
    case True
    with Cons.prems have "pack_request B mx ds total_bytes requested = Inr (n, out)" "digest_validate (lb_protocol B) d"
      by (auto simp: result_simps)
    with Cons.IH Cons.prems(2) True show ?thesis by fastforce
  next
    case False
    with Cons.prems obtain m where "pack_request B mx ds m (requested @ [d]) = Inr (n, out)"
      "digest_validate (lb_protocol B) d"
      by (auto simp: result_simps split: if_splits)
    with Cons.IH [of m "requested @ [d]"] Cons.prems(2) False show ?thesis by auto
  qed
qed simp

lemma pack_request_total:
  assumes "pack_request B mx ds total_bytes requested = Inr (n, out)"
    and "(\<Sum>d\<leftarrow>requested. unat (dg_size d)) = unat total_bytes" and "total_bytes \<le> mx"
  shows "(\<Sum>d\<leftarrow>out. unat (dg_size d)) \<le> unat mx"
  using assms
proof (induction ds arbitrary: total_bytes requested)
  case (Cons d ds)
  show ?case
  proof (cases "d \<in> set requested")
    case True
    with Cons.prems(1) have "pack_request B mx ds total_bytes requested = Inr (n, out)" by (auto simp: result_simps)
    with Cons.IH Cons.prems(2,3) show ?thesis by blast
  next
    case False
    with Cons.prems obtain m where "pack_request B mx ds m (requested @ [d]) = Inr (n, out)"
      "checked_add total_bytes (dg_size d) = Some m" "m \<le> mx"
      by (auto simp: result_simps split: if_splits)
    with Cons.IH [of m "requested @ [d]"] Cons.prems(2) checked_add_unat show ?thesis by fastforce
  qed
qed (simp add: word_le_nat_alt)

lemma sum_list_filter_le: "(\<Sum>x\<leftarrow>filter p xs. f x) \<le> (\<Sum>x\<leftarrow>xs. f x :: nat)"
  by (induction xs) auto

text \<open>The header of a frame is the one the reader of theory \<^verbatim>\<open>Pack_Language\<close> expects.\<close>

definition entry_header :: "libraries \<Rightarrow> bytes \<times> digest \<Rightarrow> bool" where
  "entry_header B e \<longleftrightarrow> (case e of (header, d) \<Rightarrow>
     \<exists>a raw. header = frame_tag a # raw @ to_be_bytes (dg_size d) \<and> length raw = 32 \<and>
       hex_decode (lb_protocol B) (dg_hash d) = Inr raw \<and> algorithm_kind (lb_protocol B) d = Inr a)"

lemma frame_tag_case: "(case a of Blake3 \<Rightarrow> 1 | Sha256 \<Rightarrow> 2) = frame_tag a"
  by (cases a) simp_all

lemma pack_blob_header_Inr: "pack_blob_header B d = Inr header \<Longrightarrow> entry_header B (header, d)"
  by (auto simp: pack_blob_header_def entry_header_def frame_tag_case result_simps split: if_splits)

lemma pack_entries_Inr:
  assumes "pack_entries B ds payload bytes entries = Inr (n, m, out)"
  shows "\<exists>new. out = entries @ new \<and> map snd new = ds \<and> (\<forall>e\<in>set new. entry_header B e) \<and>
    unat n = unat payload + (\<Sum>d\<leftarrow>ds. unat (dg_size d)) \<and>
    unat m = unat bytes + (\<Sum>d\<leftarrow>ds. HEADER_BYTES + unat (dg_size d))"
  using assms
proof (induction ds arbitrary: payload bytes entries)
  case (Cons d ds)
  then obtain header p b where h: "pack_blob_header B d = Inr header"
    and p: "checked_add payload (dg_size d) = Some p"
    and b: "Option.bind (checked_add bytes (of_nat HEADER_BYTES)) (\<lambda>n. checked_add n (dg_size d)) = Some b"
    and rest: "pack_entries B ds p b (entries @ [(header, d)]) = Inr (n, m, out)"
    by (auto simp: result_simps)
  from p have "unat p = unat payload + unat (dg_size d)" by (auto simp: checked_add_Some_iff unat_add_bounded)
  moreover from b have "unat b = unat bytes + HEADER_BYTES + unat (dg_size d)"
    by (auto simp: bind_eq_Some_conv checked_add_Some_iff unat_add_bounded HEADER_BYTES_def)
  ultimately show ?case
    using Cons.IH [OF rest] pack_blob_header_Inr [OF h] by fastforce
qed simp

text \<open>What a response announces: the held blobs it will carry and their exact lengths.\<close>

definition announces ::
  "libraries \<Rightarrow> ('b, 'm) backend \<Rightarrow> string \<Rightarrow> pack_response \<Rightarrow> ('b, 'm) world \<Rightarrow> bool" where
  "announces B K ns resp w \<longleftrightarrow>
     distinct (map snd (pk_entries resp)) \<and>
     (\<forall>e\<in>set (pk_entries resp). entry_header B e \<and> digest_validate (lb_protocol B) (snd e) \<and> (ns, snd e) \<in> w_held K w) \<and>
     unat (pk_bytes resp) = (\<Sum>e\<leftarrow>pk_entries resp. unat (dg_size (snd e))) \<and>
     unat (pk_content_length resp) =
       length (pack_magic (lb_protocol B)) + (\<Sum>e\<leftarrow>pk_entries resp. HEADER_BYTES + unat (dg_size (snd e)))"

lemma entries_announced:
  assumes "magic_documented (lb_protocol B)"
    and "pack_request B mx ds 0 [] = Inr (k, requested)" and "visible = filter p requested"
    and "\<forall>d\<in>set visible. (ns, d) \<in> w_held K w"
    and "pack_entries B visible 0 (of_nat (length (pack_magic (lb_protocol B)))) [] = Inr (n, m, entries)"
    and "pk_entries resp = entries" and "pk_bytes resp = n" and "pk_content_length resp = m"
  shows "set (map snd (pk_entries resp)) \<subseteq> set ds \<and> pk_bytes resp \<le> mx \<and> announces B K ns resp w"
proof -
  have "(\<Sum>d\<leftarrow>visible. unat (dg_size d)) \<le> unat mx"
    using pack_request_total [OF assms(2)] sum_list_filter_le [where p = p and xs = requested and f = "\<lambda>d. unat (dg_size d)"]
    by (simp add: assms(3))
  note bound = this
  have req: "distinct requested" "set requested = set ds" "\<forall>d\<in>set ds. digest_validate (lb_protocol B) d"
    using pack_request_Inr [OF assms(2)] by auto
  have magic: "unat (of_nat (length (pack_magic (lb_protocol B))) :: u64) = length (pack_magic (lb_protocol B))"
    using magic_documented_length [OF assms(1)] by simp
  have entries: "map snd entries = visible" "\<forall>e\<in>set entries. entry_header B e"
    "unat n = (\<Sum>d\<leftarrow>visible. unat (dg_size d))"
    "unat m = length (pack_magic (lb_protocol B)) + (\<Sum>d\<leftarrow>visible. HEADER_BYTES + unat (dg_size d))"
    using pack_entries_Inr [OF assms(5)] magic by auto
  have snds: "snd e \<in> set visible" if "e \<in> set entries" for e
    using that entries(1) by force
  have sums: "(\<Sum>d\<leftarrow>visible. f d) = (\<Sum>e\<leftarrow>entries. f (snd e))" for f :: "digest \<Rightarrow> nat"
    unfolding entries(1) [symmetric] by (simp add: comp_def)
  show ?thesis
    unfolding announces_def assms(6-8) entries(1) entries(3,4) sums
    using req snds assms(3,4) entries(2,3) bound by (auto simp: word_le_nat_alt)
qed

lemma lasting_announces [lasting_intros]: "lasting K (announces B K ns resp)"
  unfolding announces_def by (intro lasting_intros)

context cache_server
begin

lemma triple_pack_visible_blobs:
  assumes "lasting K A" and "\<And>w. A w \<Longrightarrow> H \<subseteq> w_held K w"
  shows "triple B K A (pack_visible_blobs st ns requested)
    (\<lambda>vs w. ((\<exists>p. vs = filter p requested) \<and> (\<forall>d\<in>set requested. (ns, d) \<in> H \<longrightarrow> d \<in> set vs)) \<and>
       (\<forall>d\<in>set vs. (ns, d) \<in> w_held K w) \<and> A w)"
proof -
  let ?Q = "\<lambda>vs w. ((\<exists>p. vs = filter p requested) \<and> (\<forall>d\<in>set requested. (ns, d) \<in> H \<longrightarrow> d \<in> set vs)) \<and>
    (\<forall>d\<in>set vs. (ns, d) \<in> w_held K w) \<and> A w"
  have last: "lasting K (?Q vs)" for vs by (intro lasting_intros assms(1))
  have "triple B K A (on_meta (ms_visible_blobs (st_metadata st) ns requested))
      (\<lambda>vs w. A w \<and> vs = filter (\<lambda>d. (ns, d) \<in> v_blobs (bk_view K (w_meta w))) requested)"
    by (rule triple_meta_read [OF _ assms(1)]) (use md.visible_blobs in blast)
  then have query: "triple B K A (on_meta (ms_visible_blobs (st_metadata st) ns requested)) ?Q"
    by (rule triple_post) (use assms(2) in \<open>auto simp: w_held_def\<close>)
  show ?thesis
    unfolding pack_visible_blobs_def
    apply (rule triple_bindp, rule triple_read_clock [OF assms(1)])
    apply (rule triple_try [OF query assms(1)])
     apply (rule triple_bindp, rule triple_read_clock [OF last])
     apply (rule triple_bindp, rule triple_count [OF last])
     apply (rule triple_ok_post, assumption)
    apply (rule triple_bindp, rule triple_read_clock [OF assms(1)])
    apply (rule triple_bindp, rule triple_count [OF assms(1)])
    apply (rule triple_throw)
    done
qed

lemma triple_pack_answer:
  assumes "magic_documented (lb_protocol B)"
  shows "triple B K (\<lambda>w. (\<exists>k. pack_request B mx ds 0 [] = Inr (k, requested)) \<and>
      ((\<exists>p. visible = filter p requested) \<and> (\<forall>d\<in>set requested. (ns, d) \<in> H \<longrightarrow> d \<in> set visible)) \<and>
      (\<forall>d\<in>set visible. (ns, d) \<in> w_held K w) \<and> headers ''mbx-cache-namespace'' = Some ns)
    (case pack_entries B visible 0 (of_nat (length (pack_magic (lb_protocol B)))) [] of
       Inl e \<Rightarrow> bindp (drop_guard guard) (\<lambda>_. throw e)
     | Inr (payload_bytes, bytes, entries) \<Rightarrow>
         ok \<lparr>pk_content_type = lb_pack_media_type B, pk_content_length = bytes,
             pk_blobs = of_nat (length entries), pk_bytes = payload_bytes,
             pk_entries = entries, pk_guard = guard\<rparr>)
    (\<lambda>resp w. \<exists>ns. headers ''mbx-cache-namespace'' = Some ns \<and>
        set (map snd (pk_entries resp)) \<subseteq> set ds \<and>
        (\<forall>d\<in>set ds. (ns, d) \<in> H \<longrightarrow> d \<in> snd ` set (pk_entries resp)) \<and> pk_bytes resp \<le> mx \<and>
        pk_blobs resp = of_nat (length (pk_entries resp)) \<and> announces B K ns resp w)"
proof (cases "pack_entries B visible 0 (of_nat (length (pack_magic (lb_protocol B)))) []")
  case (Inl e)
  show ?thesis
    unfolding Inl sum.case by (rule triple_bindp, rule triple_drop_guard, intro lasting_intros, rule triple_throw)
next
  case (Inr x)
  obtain n m es where x: "x = (n, m, es)" by (cases x)
  show ?thesis
    unfolding Inr sum.case x prod.case
  proof (rule triple_ok_post, elim conjE exE)
    fix w k p
    assume h: "pack_request B mx ds 0 [] = Inr (k, requested)" "visible = filter p requested"
      "\<forall>d\<in>set visible. (ns, d) \<in> w_held K w"
      "\<forall>d\<in>set requested. (ns, d) \<in> H \<longrightarrow> d \<in> set visible" "headers ''mbx-cache-namespace'' = Some ns"
    let ?resp = "\<lparr>pk_content_type = lb_pack_media_type B, pk_content_length = m,
             pk_blobs = of_nat (length es), pk_bytes = n, pk_entries = es, pk_guard = guard\<rparr>"
    have "set (map snd (pk_entries ?resp)) \<subseteq> set ds \<and> pk_bytes ?resp \<le> mx \<and> announces B K ns ?resp w"
      by (rule entries_announced [OF assms h(1-3)]) (simp_all add: Inr [unfolded x])
    moreover have "set requested = set ds" "map snd es = visible"
      using pack_request_Inr [OF h(1)] pack_entries_Inr [OF Inr [unfolded x]] by auto
    then have "\<forall>d\<in>set ds. (ns, d) \<in> H \<longrightarrow> d \<in> snd ` set es" using h(4) by (metis list.set_map)
    ultimately show "\<exists>ns. headers ''mbx-cache-namespace'' = Some ns \<and>
        set (map snd (pk_entries ?resp)) \<subseteq> set ds \<and>
        (\<forall>d\<in>set ds. (ns, d) \<in> H \<longrightarrow> d \<in> snd ` set (pk_entries ?resp)) \<and> pk_bytes ?resp \<le> mx \<and>
        pk_blobs ?resp = of_nat (length (pk_entries ?resp)) \<and> announces B K ns ?resp w" using h(5) by auto
  qed
qed

lemma triple_pack_blobs:
  assumes "magic_documented (lb_protocol B)"
  shows "triple B K (\<lambda>w. \<forall>x\<in>H. x \<in> w_held K w) (pack_blobs B st headers request)
     (\<lambda>resp w. \<exists>ns. headers ''mbx-cache-namespace'' = Some ns \<and>
        set (map snd (pk_entries resp)) \<subseteq> set (mq_digests request) \<and>
        (\<forall>d\<in>set (mq_digests request). (ns, d) \<in> H \<longrightarrow> d \<in> snd ` set (pk_entries resp)) \<and> pk_bytes resp \<le> st_max_blob_bytes st \<and>
        pk_blobs resp = of_nat (length (pk_entries resp)) \<and> announces B K ns resp w)"
  unfolding pack_blobs_def
  apply (rule triple_bindp, rule triple_read_clock, intro lasting_intros)
  apply (rule triple_bindp, rule triple_authorized_ns, intro lasting_intros)
  apply (rule triple_bindp, rule triple_ensurep)
  apply (rule triple_bindp, rule triple_liftr)
  apply (simp only: split_beta)
  apply (rule triple_bindp, rule triple_pack_visible_blobs [where H = H], intro lasting_intros, blast)
  apply (rule triple_bindp, rule triple_record_access, intro lasting_intros)
  apply (rule triple_bindp, rule triple_begin_pack, intro lasting_intros)
  apply (rule triple_weaken [OF triple_pack_answer [where H = H, OF assms]])
   apply (auto simp: prod_eq_iff)
  done

end

section \<open>The stream\<close>

text \<open>
  \<open>flows B K F P p Q\<close> is the triple for streaming programs: \<open>F\<close> is a lasting fact about the
  stores, \<open>P\<close> and \<open>Q\<close> speak of the stream's own state, \<open>Q\<close> also when the stream stops.
\<close>

definition flows ::
  "libraries \<Rightarrow> ('b, 'm) backend \<Rightarrow> (('b, 'm) world \<Rightarrow> bool) \<Rightarrow> (pack_run \<Rightarrow> bool) \<Rightarrow> ('b, 'm, 'a) streaming
     \<Rightarrow> (stop + 'a \<Rightarrow> pack_run \<Rightarrow> bool) \<Rightarrow> bool" where
  "flows B K F P p Q \<longleftrightarrow>
     (\<forall>w r x w' r'. world_ok B K w \<and> F w \<and> P r \<and> p (w, r) = (x, (w', r')) \<longrightarrow>
        world_ok B K w' \<and> w_grows K w w' \<and> F w' \<and> Q x r')"

lemma flows_bindp:
  assumes "flows B K F P m Q" and "\<And>v. flows B K F (Q (Inr v)) (f v) R"
    and "\<And>e r. Q (Inl e) r \<Longrightarrow> R (Inl e) r"
  shows "flows B K F P (bindp m f) R"
  unfolding flows_def
proof (intro allI impI, elim conjE)
  fix w r x w' r'
  assume h: "world_ok B K w" "F w" "P r" "bindp m f (w, r) = (x, (w', r'))"
  obtain q v s where q: "m (w, r) = (q, (v, s))" by (metis prod.collapse)
  with assms(1) h have v: "world_ok B K v" "w_grows K w v" "F v" "Q q s" unfolding flows_def by blast+
  show "world_ok B K w' \<and> w_grows K w w' \<and> F w' \<and> R x r'"
  proof (cases q)
    case (Inl e)
    with q h(4) v assms(3) show ?thesis by auto
  next
    case (Inr y)
    with q h(4) have "f y (v, s) = (x, (w', r'))" by simp
    with assms(2) [of y] v Inr show ?thesis unfolding flows_def by (blast intro: w_grows_trans)
  qed
qed

lemma flows_post: "flows B K F P p Q \<Longrightarrow> (\<And>x r. Q x r \<Longrightarrow> Q' x r) \<Longrightarrow> flows B K F P p Q'"
  unfolding flows_def by blast

lemma flows_pre: "flows B K F P p Q \<Longrightarrow> (\<And>r. P' r \<Longrightarrow> P r) \<Longrightarrow> flows B K F P' p Q"
  unfolding flows_def by blast

lemma flows_ex: "(\<And>a. flows B K F (P a) p Q) \<Longrightarrow> flows B K F (\<lambda>r. \<exists>a. P a r) p Q"
  unfolding flows_def by blast

lemma flows_when: "(b \<Longrightarrow> flows B K F P p Q) \<Longrightarrow> flows B K F (\<lambda>r. b \<and> P r) p Q"
  unfolding flows_def by blast

lemma flows_ok: "(\<And>r. P r \<Longrightarrow> Q (Inr v) r) \<Longrightarrow> flows B K F P (ok v) Q"
  by (auto simp: flows_def ok_def)

lemma flows_throw: "(\<And>r. P r \<Longrightarrow> Q (Inl e) r) \<Longrightarrow> flows B K F P (throw e) Q"
  by (auto simp: flows_def throw_def)

lemma flows_on_run:
  "(\<And>r x r'. P r \<Longrightarrow> m r = (x, r') \<Longrightarrow> Q x r') \<Longrightarrow> flows B K F P (on_run m) Q"
  by (auto simp: flows_def on_run_def zoom_def split: prod.splits)

lemma flows_on_world:
  assumes "triple B K F m (\<lambda>_. F)" and "lasting K F" and "\<And>x r. P r \<Longrightarrow> Q x r"
  shows "flows B K F P (on_world m) Q"
  unfolding flows_def
proof (intro allI impI, elim conjE)
  fix w r x w' r'
  assume h: "world_ok B K w" "F w" "P r" "on_world m (w, r) = (x, (w', r'))"
  from h(4) have "m w = (x, w')" "r' = r" by (auto simp: on_world_def zoom_def split: prod.splits)
  moreover from this assms(1) h(1,2) have "world_ok B K w' \<and> w_grows K w w'" unfolding triple_def by blast
  ultimately show "world_ok B K w' \<and> w_grows K w w' \<and> F w' \<and> Q x r'"
    using assms(2,3) h(2,3) unfolding lasting_def by blast
qed

text \<open>Chunks and guards move nothing but the chunks sent and the guard.\<close>

definition same_reads :: "pack_run \<Rightarrow> pack_run \<Rightarrow> bool" where
  "same_reads r r' \<longleftrightarrow> rn_window r' = rn_window r \<and> rn_rest r' = rn_rest r"

lemma flows_with_guard:
  assumes "lasting K F" and "\<And>r g. P r \<Longrightarrow> Q (Inr ()) (r\<lparr>rn_guard := g\<rparr>)"
  shows "flows B K F P (with_guard f) Q"
  unfolding flows_def
proof (intro allI impI, elim conjE)
  fix w r x w' r'
  assume h: "world_ok B K w" "F w" "P r" "with_guard f (w, r) = (x, (w', r'))"
  obtain g v where g: "on_guard f (rn_guard r) w = (Inr g :: stop + pack_guard, v)"
    using on_guard_run [of f "rn_guard r" w] by blast
  with h(4) have x: "x = Inr ()" "w' = v" "r' = r\<lparr>rn_guard := g\<rparr>" by (auto simp: with_guard_def)
  from g triple_on_guard [OF assms(1), of B f "rn_guard r"] h(1,2)
  have "world_ok B K v \<and> w_grows K w v \<and> F v" unfolding triple_def by blast
  with x assms(2) [OF h(3)] show "world_ok B K w' \<and> w_grows K w w' \<and> F w' \<and> Q x r'" by blast
qed

lemma flows_fail:
  assumes "lasting K F" and "\<And>r g. P r \<Longrightarrow> Q (Inl (Failed e)) (r\<lparr>rn_guard := g\<rparr>)"
  shows "flows B K F P (fail_pack e) Q"
  unfolding fail_pack_def
  by (rule flows_bindp [OF flows_with_guard [where Q = "\<lambda>x r. \<exists>y s g. x = Inr y \<and> P s \<and> r = s\<lparr>rn_guard := g\<rparr>"]])
    (use assms in \<open>auto intro: flows_throw\<close>)

lemma flows_yield:
  assumes "\<And>r s x. P r \<Longrightarrow> same_reads r s \<Longrightarrow> rn_sent s = rn_sent r @ [c] \<Longrightarrow> x = Inl Cancelled \<or> x = Inr () \<Longrightarrow> Q x s"
  shows "flows B K F P (yield_chunk c) Q"
  unfolding yield_chunk_def
  by (rule flows_on_run) (use assms in \<open>auto simp: Let_def same_reads_def split: if_splits\<close>)

text \<open>The bytes of the frames, for the content \<open>C\<close> of the blobs.\<close>

definition entry_bytes :: "(digest \<Rightarrow> bytes) \<Rightarrow> bytes \<times> digest \<Rightarrow> bytes" where
  "entry_bytes C e = fst e @ C (snd e)"

lemma flows_chunks:
  assumes last: "lasting K F" and "delivers chunks bs"
  shows "flows B K F (\<lambda>r. same_reads base r \<and> concat (rn_sent r) = S) (serve_chunks n chunks k)
    (\<lambda>x r. same_reads base r \<and> (\<exists>p. prefix p bs \<and> concat (rn_sent r) = S @ p \<and> (x = Inr () \<longrightarrow> p = bs)))"
  using assms(2)
proof (induction n chunks k arbitrary: bs S rule: serve_chunks.induct)
  case (1 n k)
  then show ?case
    by (auto intro!: flows_ok flows_fail [OF last] simp: same_reads_def)
next
  case (2 n e chunks k)
  show ?case unfolding serve_chunks.simps by (rule flows_fail [OF last]) (auto simp: same_reads_def)
next
  case (3 n chunk chunks k)
  let ?Q = "\<lambda>x r. same_reads base r \<and> (\<exists>p. prefix p bs \<and> concat (rn_sent r) = S @ p \<and> (x = Inr () \<longrightarrow> p = bs))"
  let ?P = "\<lambda>r. same_reads base r \<and> concat (rn_sent r) = S"
  have stop: "flows B K F ?P (fail_pack e) ?Q" for e
    by (rule flows_fail [OF last]) (auto simp: same_reads_def)
  from "3.prems" obtain rest where bs: "bs = chunk @ rest" "delivers chunks rest"
    by (metis append_take_drop_id delivers.simps(3))
  have more: "flows B K F ?P
      (bindp (on_world (modifyp (w_metrics_update (add_served_bytes (of_nat (length chunk))))))
        (\<lambda>_. bindp (yield_chunk chunk) (\<lambda>_. serve_chunks n chunks m))) ?Q"
    if "checked_add k (of_nat (length chunk)) = Some m" "\<not> m > n" for m
  proof (rule flows_bindp [where Q = "\<lambda>_. ?P"])
    show "flows B K F ?P (on_world (modifyp (w_metrics_update (add_served_bytes (of_nat (length chunk)))))) (\<lambda>_. ?P)"
      by (rule flows_on_world [OF triple_modify_metrics [OF last] last])
    let ?M = "\<lambda>x r. same_reads base r \<and> concat (rn_sent r) = S @ chunk \<and> (x = Inl Cancelled \<or> x = Inr ())"
    show "flows B K F ?P (bindp (yield_chunk chunk) (\<lambda>_. serve_chunks n chunks m)) ?Q" for v
    proof (rule flows_bindp [where Q = ?M])
      show "flows B K F ?P (yield_chunk chunk) ?M" by (rule flows_yield) (auto simp: same_reads_def)
      show "flows B K F (?M (Inr u)) (serve_chunks n chunks m) ?Q" for u
        using "3.IH" [OF that bs(2), of "S @ chunk"]
        by (rule flows_pre [OF flows_post]) (auto simp: bs(1))
    qed (auto simp: bs(1))
  qed auto
  show ?case
    using stop more by (auto split: option.split)
qed

lemma flows_entry:
  assumes last: "lasting K F" and "delivers (bl_stream blob) bs"
  shows "flows B K F (\<lambda>r. same_reads base r \<and> concat (rn_sent r) = S) (serve_entry header blob)
    (\<lambda>x r. same_reads base r \<and>
       (\<exists>p. prefix p (header @ bs) \<and> concat (rn_sent r) = S @ p \<and> (x = Inr () \<longrightarrow> p = header @ bs)))"
    (is "flows B K F ?P _ ?Q")
  unfolding serve_entry_def
proof (rule flows_bindp)
  let ?M = "\<lambda>x r. same_reads base r \<and> concat (rn_sent r) = S @ header \<and> (x = Inl Cancelled \<or> x = Inr ())"
  show "flows B K F ?P (yield_chunk header) ?M" by (rule flows_yield) (auto simp: same_reads_def)
  show "flows B K F (?M (Inr u)) (bindp (serve_chunks (bl_size blob) (bl_stream blob) 0)
      (\<lambda>_. on_world (modifyp (w_metrics_update (inc_blob_hit \<circ> blob_served))))) ?Q" for u
  proof (rule flows_pre, rule flows_bindp [OF flows_chunks [OF assms, where S = "S @ header" and base = base]])
    show "flows B K F (\<lambda>r. same_reads base r \<and> (\<exists>p. prefix p bs \<and> concat (rn_sent r) = (S @ header) @ p \<and>
          (Inr v = Inr () \<longrightarrow> p = bs))) (on_world (modifyp (w_metrics_update (inc_blob_hit \<circ> blob_served)))) ?Q" for v
      by (rule flows_on_world [OF triple_modify_metrics [OF last] last]) auto
  qed auto
qed auto

section \<open>The window of reads\<close>

fun read_ok :: "(digest \<Rightarrow> bytes) \<Rightarrow> bytes \<times> digest \<Rightarrow> pack_read \<Rightarrow> bool" where
  "read_ok C e (Waiting header d) \<longleftrightarrow> e = (header, d)"
| "read_ok C e (Arrived (Inl _)) \<longleftrightarrow> True"
| "read_ok C e (Arrived (Inr (header, blob))) \<longleftrightarrow>
     header = fst e \<and> delivers (bl_stream blob) (C (snd e))"

text \<open>The entries handed over, those in the window and those not started make up the pack.\<close>

definition carries :: "(digest \<Rightarrow> bytes) \<Rightarrow> (bytes \<times> digest) list \<Rightarrow> (bytes \<times> digest) list \<Rightarrow> pack_run \<Rightarrow> bool" where
  "carries C entries served r \<longleftrightarrow>
     (\<exists>ws. entries = served @ ws @ rn_rest r \<and> list_all2 (read_ok C) ws (rn_window r))"

definition contents_fixed ::
  "('b, 'm) backend \<Rightarrow> string \<Rightarrow> (digest \<Rightarrow> bytes) \<Rightarrow> (bytes \<times> digest) list \<Rightarrow> ('b, 'm) world \<Rightarrow> bool" where
  "contents_fixed K ns C entries w \<longleftrightarrow>
     (\<forall>e\<in>set entries. (ns, snd e) \<in> w_held K w \<and> w_content K w (snd e) = Some (C (snd e)))"

lemma lasting_contents_fixed: "lasting K (contents_fixed K ns C entries)"
  unfolding contents_fixed_def by (intro lasting_intros)

lemma carries_same: "same_reads r s \<Longrightarrow> carries C entries served s = carries C entries served r"
  by (simp add: same_reads_def carries_def)

lemma carries_fill: "carries C entries served r \<Longrightarrow> carries C entries served (fill_window r)"
proof -
  assume "carries C entries served r"
  then obtain ws where ws: "entries = served @ ws @ rn_rest r" "list_all2 (read_ok C) ws (rn_window r)"
    by (auto simp: carries_def)
  let ?n = "MAX_PACK_STORAGE_READS - length (rn_window r)"
  have "list_all2 (read_ok C) es (map (\<lambda>(h, d). Waiting h d) es)" for es
    by (simp add: list_all2_conv_all_nth split_beta)
  with ws have "list_all2 (read_ok C) (ws @ take ?n (rn_rest r)) (rn_window (fill_window r))"
    by (simp add: fill_window_def Let_def list_all2_appendI)
  moreover from ws(1) have "entries = served @ (ws @ take ?n (rn_rest r)) @ rn_rest (fill_window r)"
    by (simp add: fill_window_def Let_def)
  ultimately show ?thesis unfolding carries_def by blast
qed

lemma fill_window_empty: "rn_window (fill_window r) = [] \<Longrightarrow> rn_rest (fill_window r) = []"
  by (auto simp: fill_window_def Let_def MAX_PACK_STORAGE_READS_def)

lemma read_entry_total: "\<exists>y v. read_entry st header d w = (Inr y, v)"
  by (simp add: read_entry_def observe_read_def bindp_def read_clock_def Let_def modifyp_def ok_def
      split: prod.split sum.split option.split)

text \<open>The pack with some of its frames.\<close>

definition pack_so_far :: "(digest \<Rightarrow> bytes) \<Rightarrow> bytes \<Rightarrow> (bytes \<times> digest) list \<Rightarrow> bytes" where
  "pack_so_far C magic served = magic @ concat (map (entry_bytes C) served)"

context cache_server
begin

lemma triple_read_entry:
  "triple B K (\<lambda>w. (ns, d) \<in> w_held K w \<and> w_content K w d = Some bs) (read_entry st header d)
     (\<lambda>y w. \<forall>h blob. y = Inr (h, blob) \<longrightarrow> h = header \<and> delivers (bl_stream blob) bs)"
proof -
  let ?A = "\<lambda>w. (ns, d) \<in> w_held K w \<and> w_content K w d = Some bs"
  let ?Q = "\<lambda>found w. ?A w \<and> (\<exists>blob bs. found = Some blob \<and> w_content K w d = Some bs \<and> verified B d bs \<and>
       bl_size blob = of_nat (length bs) \<and> delivers (bl_stream blob) bs)"
  have A: "lasting K ?A" by (intro lasting_intros)
  have get: "triple B K ?A (on_blobs (bs_get (st_blobs st) d)) ?Q"
    by (rule triple_bs_get [OF A]) blast
  have Q: "lasting K (?Q found)" for found by (intro lasting_intros)
  show ?thesis
    unfolding read_entry_def
    apply (rule triple_bindp, rule triple_read_clock [OF A])
    apply (rule triple_try [OF get A])
    subgoal for begun found
      by (cases found; simp only: option.case; rule triple_post [OF triple_observe_read [OF Q]]; auto split: if_splits)
    apply (rule triple_post [OF triple_observe_read [OF A]], simp)
    done
qed

lemma flows_complete_read:
  "flows B K (contents_fixed K ns C entries) (\<lambda>r. carries C entries served r \<and> concat (rn_sent r) = S) (complete_read st i)
     (\<lambda>x r. x = Inr () \<and> carries C entries served r \<and> concat (rn_sent r) = S)"
  unfolding flows_def
proof (intro allI impI, elim conjE)
  fix w r x w' r'
  let ?F = "contents_fixed K ns C entries"
  assume h: "world_ok B K w" "?F w" "carries C entries served r" "concat (rn_sent r) = S"
    and run: "complete_read st i (w, r) = (x, (w', r'))"
  show "world_ok B K w' \<and> w_grows K w w' \<and> ?F w' \<and> x = Inr () \<and> carries C entries served r' \<and> concat (rn_sent r') = S"
  proof (cases "\<exists>header d. i < length (rn_window r) \<and> rn_window r ! i = Waiting header d")
    case False
    with run have "x = Inr () \<and> w' = w \<and> r' = r"
      by (auto simp: complete_read_def split: if_splits pack_read.splits)
    with h show ?thesis by simp
  next
    case True
    then obtain header d where i: "i < length (rn_window r)" "rn_window r ! i = Waiting header d" by blast
    obtain y v where y: "read_entry st header d w = (Inr y :: stop + (string + bytes \<times> blob), v)"
      using read_entry_total by blast
    with run i have x: "x = Inr ()" "w' = v" "r' = r\<lparr>rn_window := (rn_window r)[i := Arrived y]\<rparr>"
      by (auto simp: complete_read_def)
    from h(3) obtain ws where ws: "entries = served @ ws @ rn_rest r" "list_all2 (read_ok C) ws (rn_window r)"
      by (auto simp: carries_def)
    with i have e: "ws ! i = (header, d)" "i < length ws"
      by (auto simp: list_all2_conv_all_nth dest: spec [of _ i])
    then have "(header, d) \<in> set entries" using ws(1) by (metis in_set_conv_decomp nth_mem in_set_conv_nth append_assoc Un_iff set_append)
    with h(2) have "(ns, d) \<in> w_held K w \<and> w_content K w d = Some (C d)" by (auto simp: contents_fixed_def)
    with triple_read_entry [of ns d "C d" header] h(1) y
    have v: "world_ok B K v" "w_grows K w v"
      "\<And>h blob. y = Inr (h, blob) \<Longrightarrow> h = header \<and> delivers (bl_stream blob) (C d)"
      unfolding triple_def by blast+
    then have "read_ok C (ws ! i) (Arrived y)" using e(1) by (cases y) auto
    with ws(2) have "list_all2 (read_ok C) ws ((rn_window r)[i := Arrived y])"
      using i(1) by (simp add: list_all2_conv_all_nth nth_list_update)
    with ws(1) x have "carries C entries served r'" by (auto simp: carries_def)
    moreover have "?F v" using lastingD [OF lasting_contents_fixed h(2) v(2)] .
    ultimately show ?thesis using x v(1,2) h(4) by simp
  qed
qed

lemma flows_completions:
  "flows B K (contents_fixed K ns C entries) (\<lambda>r. carries C entries served r \<and> concat (rn_sent r) = S)
     (for_prog (complete_read st) is) (\<lambda>x r. x = Inr () \<and> carries C entries served r \<and> concat (rn_sent r) = S)"
proof (induction "is")
  case Nil
  show ?case by (simp, rule flows_ok) auto
next
  case (Cons i "is")
  show ?case
    by (simp, rule flows_bindp [OF flows_complete_read]) (auto intro: flows_pre [OF Cons.IH])
qed

text \<open>The oldest read has completed when it is handed over.\<close>

lemma completions_shape:
  "for_prog (complete_read st) is (w, r) = (Inr (), (w', r')) \<Longrightarrow>
     length (rn_window r') = length (rn_window r) \<and> rn_rest r' = rn_rest r"
proof (induction "is" arbitrary: w r)
  case (Cons i "is")
  then obtain v s where "complete_read st i (w, r) = (Inr (), (v, s))"
    "for_prog (complete_read st) is (v, s) = (Inr (), (w', r'))"
    by (auto simp: prog_simps)
  moreover from this(1) have "length (rn_window s) = length (rn_window r) \<and> rn_rest s = rn_rest r"
    by (auto simp: complete_read_def split: if_splits pack_read.splits sum.splits prod.splits)
  ultimately show ?case using Cons.IH by metis
qed (simp add: ok_def)

lemma for_prog_append: "for_prog f (xs @ ys) s = bindp (for_prog f xs) (\<lambda>_. for_prog f ys) s"
  by (induction xs arbitrary: s) (auto simp: bindp_def ok_def split: prod.splits sum.splits)

lemma complete_first:
  assumes "complete_read st 0 (w, r) = (Inr (), (v, s))" and "rn_window r \<noteq> []"
  shows "\<exists>y. rn_window s = Arrived y # tl (rn_window r)"
  using assms by (cases "rn_window r") (auto simp: complete_read_def split: pack_read.splits sum.splits prod.splits)

lemma flows_next_read:
  "flows B K (contents_fixed K ns C entries) (\<lambda>r. carries C entries served r \<and> concat (rn_sent r) = S) (next_read st)
     (\<lambda>x r. concat (rn_sent r) = S \<and> (case x of
          Inl e \<Rightarrow> False
        | Inr None \<Rightarrow> served = entries
        | Inr (Some y) \<Rightarrow> (\<exists>e. read_ok C e (Arrived y) \<and> carries C entries (served @ [e]) r)))"
  unfolding flows_def
proof (intro allI impI, elim conjE)
  fix w r x w' r'
  let ?F = "contents_fixed K ns C entries"
  assume h: "world_ok B K w" "?F w" "carries C entries served r" "concat (rn_sent r) = S"
    and run: "next_read st (w, r) = (x, (w', r'))"
  define r1 where "r1 = (fill_window r)\<lparr>rn_schedule := tl (rn_schedule (fill_window r))\<rparr>"
  define s where "s = (case rn_schedule (fill_window r) of [] \<Rightarrow> [] | is # _ \<Rightarrow> is)"
  have r1: "carries C entries served r1" "concat (rn_sent r1) = S"
    using carries_fill [OF h(3)] h(4) by (simp_all add: r1_def carries_def fill_window_def Let_def)
  obtain q v r2 where c: "for_prog (complete_read st) (s @ [0]) (w, r1) = (q, (v, r2))" by (metis prod.collapse)
  with flows_completions h(1,2) r1 have v: "world_ok B K v" "w_grows K w v" "?F v"
    "q = Inr ()" "carries C entries served r2" "concat (rn_sent r2) = S"
    unfolding flows_def by blast+
  have x: "(x, (w', r')) = (case rn_window r2 of
      Arrived y # rest \<Rightarrow> (Inr (Some y), (v, r2\<lparr>rn_window := rest\<rparr>)) | _ \<Rightarrow> (Inr None, (v, r2)))"
    using run c v(4)
    by (auto simp: next_read_def on_run_def zoom_def modifyp_def bindp_def r1_def [symmetric] s_def [symmetric]
        split: list.splits pack_read.splits)
  have shape: "length (rn_window r2) = length (rn_window r1)" "rn_rest r2 = rn_rest r1"
    using completions_shape [of "s @ [0]" w r1 v r2] c v(4) by auto
  from v(5) obtain ws where ws: "entries = served @ ws @ rn_rest r2" "list_all2 (read_ok C) ws (rn_window r2)"
    by (auto simp: carries_def)
  show "world_ok B K w' \<and> w_grows K w w' \<and> ?F w' \<and> concat (rn_sent r') = S \<and> (case x of
          Inl e \<Rightarrow> False
        | Inr None \<Rightarrow> served = entries
        | Inr (Some y) \<Rightarrow> (\<exists>e. read_ok C e (Arrived y) \<and> carries C entries (served @ [e]) r'))"
  proof (cases "rn_window r1 = []")
    case True
    with shape have "rn_window r2 = []" "rn_rest r2 = []"
      using fill_window_empty [of r] by (auto simp: r1_def)
    with x v ws show ?thesis by auto
  next
    case False
    from c v(4) obtain u r3 where r3: "for_prog (complete_read st) s (w, r1) = (Inr (), (u, r3))"
      "complete_read st 0 (u, r3) = (Inr (), (v, r2))"
      by (auto simp: for_prog_append prog_simps)
    with completions_shape False have "rn_window r3 \<noteq> []" by fastforce
    with complete_first [OF r3(2)] obtain y rest where win: "rn_window r2 = Arrived y # rest" by blast
    with ws(2) obtain e ws' where "ws = e # ws'" "read_ok C e (Arrived y)" "list_all2 (read_ok C) ws' rest"
      by (auto simp: list_all2_Cons2)
    with x v ws(1) win show ?thesis by (cases e) (auto simp: carries_def)
  qed
qed

section \<open>The whole pack\<close>

lemma carries_prefix:
  "carries C entries served r \<Longrightarrow> prefix (pack_so_far C magic served) (pack_so_far C magic entries)"
  by (auto simp: carries_def pack_so_far_def)

lemma carries_prefix_within:
  assumes "carries C entries (served @ [e]) r" and "prefix p (entry_bytes C e)"
  shows "prefix (pack_so_far C magic served @ p) (pack_so_far C magic entries)"
proof -
  have "prefix (pack_so_far C magic served @ p) (pack_so_far C magic (served @ [e]))"
    using assms(2) by (simp add: pack_so_far_def)
  with carries_prefix [OF assms(1)] show ?thesis by (metis prefix_order.trans)
qed

lemma flows_round:
  "flows B K (contents_fixed K ns C entries)
     (\<lambda>r. carries C entries served r \<and> concat (rn_sent r) = pack_so_far C magic served) (serve_round st)
     (\<lambda>x r. prefix (concat (rn_sent r)) (pack_so_far C magic entries) \<and>
        (x = Inr False \<longrightarrow> concat (rn_sent r) = pack_so_far C magic entries) \<and>
        (x = Inr True \<longrightarrow> (\<exists>e. carries C entries (served @ [e]) r \<and>
           concat (rn_sent r) = pack_so_far C magic (served @ [e]))))"
  (is "flows B K ?F ?P _ ?Q")
proof -
  let ?S = "pack_so_far C magic served"
  let ?N = "\<lambda>x r. concat (rn_sent r) = ?S \<and> (case x of
          Inl e \<Rightarrow> False
        | Inr None \<Rightarrow> served = entries
        | Inr (Some y) \<Rightarrow> (\<exists>e. read_ok C e (Arrived y) \<and> carries C entries (served @ [e]) r))"
  have none: "flows B K ?F (?N (Inr None)) (ok False) ?Q"
    by (rule flows_ok) auto
  have failed: "flows B K ?F (?N (Inr (Some (Inl e)))) (fail_pack e) ?Q" for e
    by (rule flows_fail [OF lasting_contents_fixed])
      (use carries_prefix_within [where p = "[]"] in \<open>auto simp: carries_same\<close>)
  have core: "flows B K ?F (\<lambda>r. same_reads base r \<and> concat (rn_sent r) = ?S)
        (bindp (serve_entry header blob) (\<lambda>_. ok True)) ?Q"
    if e: "read_ok C e (Arrived (Inr (header, blob)))" "carries C entries (served @ [e]) base" for header blob base e
  proof -
    from e have bytes: "header @ C (snd e) = entry_bytes C e" "delivers (bl_stream blob) (C (snd e))"
      by (auto simp: entry_bytes_def)
    have within: "prefix (?S @ p) (pack_so_far C magic entries)" if "prefix p (entry_bytes C e)" for p
      using carries_prefix_within e that by blast
    have whole: "?S @ entry_bytes C e = pack_so_far C magic (served @ [e])"
      by (simp add: pack_so_far_def)
    have still: "carries C entries (served @ [e]) r" if "same_reads base r" for r
      using e that by (simp add: carries_same)
    show ?thesis
    proof (rule flows_bindp [OF flows_entry [OF lasting_contents_fixed bytes(2)], unfolded bytes(1)],
        rule flows_ok, goal_cases)
      case (1 v r)
      then have "concat (rn_sent r) = pack_so_far C magic (served @ [e])" using whole bytes(1) by auto
      with 1 within [of "entry_bytes C e"] still whole show ?case
        by (intro conjI impI exI [of _ e]) auto
    next
      case (2 err r)
      with within bytes(1) show ?case by auto
    qed
  qed
  have found: "flows B K ?F (?N (Inr (Some (Inr (header, blob))))) (bindp (serve_entry header blob) (\<lambda>_. ok True)) ?Q"
    for header blob
    unfolding flows_def
  proof (intro allI impI, elim conjE)
    fix w r x w' r'
    assume h: "world_ok B K w" "?F w" "concat (rn_sent r) = ?S"
      "case Inr (Some (Inr (header, blob))) of Inl e \<Rightarrow> False | Inr None \<Rightarrow> served = entries
        | Inr (Some y) \<Rightarrow> (\<exists>e. read_ok C e (Arrived y) \<and> carries C entries (served @ [e]) r)"
      "bindp (serve_entry header blob) (\<lambda>_. ok True) (w, r) = (x, (w', r'))"
    then obtain e where "read_ok C e (Arrived (Inr (header, blob)))" "carries C entries (served @ [e]) r" by auto
    note step = core [OF this, unfolded flows_def, rule_format, of w r x w' r']
    have "same_reads r r" by (simp add: same_reads_def)
    with step h(1,2,3,5) show "world_ok B K w' \<and> w_grows K w w' \<and> ?F w' \<and> ?Q x r'" by blast
  qed
  show ?thesis
    unfolding serve_round_def
    by (rule flows_bindp [OF flows_next_read]) (use none failed found in \<open>auto split: option.split sum.split\<close>)
qed

lemma flows_reads:
  "flows B K (contents_fixed K ns C entries)
     (\<lambda>r. \<exists>served. carries C entries served r \<and> concat (rn_sent r) = pack_so_far C magic served) (serve_reads st)
     (\<lambda>x r. prefix (concat (rn_sent r)) (pack_so_far C magic entries) \<and>
        (x = Inr () \<longrightarrow> concat (rn_sent r) = pack_so_far C magic entries))"
proof -
  let ?F = "contents_fixed K ns C entries"
  have main: "world_ok B K (fst s) \<Longrightarrow> ?F (fst s) \<Longrightarrow> carries C entries served (snd s) \<Longrightarrow>
      concat (rn_sent (snd s)) = pack_so_far C magic served \<Longrightarrow> serve_reads st s = (x, t) \<Longrightarrow>
      world_ok B K (fst t) \<and> w_grows K (fst s) (fst t) \<and> ?F (fst t) \<and>
      prefix (concat (rn_sent (snd t))) (pack_so_far C magic entries) \<and>
      (x = Inr () \<longrightarrow> concat (rn_sent (snd t)) = pack_so_far C magic entries)" for s x t served
  proof (induction "unserved (snd s)" arbitrary: s served rule: less_induct)
    case less
    obtain q u where q: "serve_round st s = (q, u)" by (cases "serve_round st s")
    then have "serve_round st (fst s, snd s) = (q, (fst u, snd u))" by simp
    with flows_round [of ns C entries served magic] less.prems(1-4)
    have u: "world_ok B K (fst u)" "w_grows K (fst s) (fst u)" "?F (fst u)"
      "prefix (concat (rn_sent (snd u))) (pack_so_far C magic entries)"
      "q = Inr False \<Longrightarrow> concat (rn_sent (snd u)) = pack_so_far C magic entries"
      "q = Inr True \<Longrightarrow> \<exists>e. carries C entries (served @ [e]) (snd u) \<and>
           concat (rn_sent (snd u)) = pack_so_far C magic (served @ [e])"
      unfolding flows_def by blast+
    show ?case
    proof (cases "q = Inr True")
      case True
      with u(6) obtain e where e: "carries C entries (served @ [e]) (snd u)"
        "concat (rn_sent (snd u)) = pack_so_far C magic (served @ [e])" by blast
      have "unserved (snd u) < unserved (snd s)"
        using serve_round_takes [of st "fst s" "snd s" "fst u" "snd u"] q True by simp
      moreover have "serve_reads st u = (x, t)"
        using less.prems(5) q True by (simp add: serve_reads.simps [of st s])
      ultimately show ?thesis
        using less.hyps [OF _ u(1,3) e] u(2) by (blast intro: w_grows_trans)
    next
      case False
      with less.prems(5) q have "t = u" "x = Inr () \<Longrightarrow> q = Inr False"
        by (auto simp: serve_reads.simps [of st s] split: sum.splits bool.splits)
      with u show ?thesis by auto
    qed
  qed
  show ?thesis
    unfolding flows_def
  proof (intro allI impI, elim conjE exE)
    fix w r x w' r' served
    assume "world_ok B K w" "?F w" "carries C entries served r" "concat (rn_sent r) = pack_so_far C magic served"
      "serve_reads st (w, r) = (x, (w', r'))"
    with main [of "(w, r)" served x "(w', r')"] show "world_ok B K w' \<and> w_grows K w w' \<and> ?F w' \<and>
        prefix (concat (rn_sent r')) (pack_so_far C magic entries) \<and>
        (x = Inr () \<longrightarrow> concat (rn_sent r') = pack_so_far C magic entries)" by simp
  qed
qed

lemma flows_body:
  "flows B K (contents_fixed K ns C entries)
     (\<lambda>r. rn_window r = [] \<and> rn_rest r = entries \<and> rn_sent r = []) (pack_stream_body B st)
     (\<lambda>x r. prefix (concat (rn_sent r)) (pack_so_far C (pack_magic (lb_protocol B)) entries) \<and>
        (x = Inr () \<longrightarrow> concat (rn_sent r) = pack_so_far C (pack_magic (lb_protocol B)) entries))"
  (is "flows B K ?F ?P _ ?Q")
proof -
  let ?magic = "pack_magic (lb_protocol B)"
  let ?M = "\<lambda>x r. rn_window r = [] \<and> rn_rest r = entries \<and> rn_sent r = [?magic]"
  have reads: "flows B K ?F (?M v) (serve_reads st) ?Q" for v
    by (rule flows_pre [OF flows_reads]) (auto simp: carries_def pack_so_far_def intro!: exI [of _ "[]"])
  show ?thesis
    unfolding pack_stream_body_def
  proof (rule flows_bindp [where Q = "\<lambda>_. ?P"], goal_cases)
    case 1
    show ?case by (rule flows_with_guard [OF lasting_contents_fixed]) simp
  next
    case (2 v)
    show ?case
    proof (rule flows_bindp [where Q = ?M], goal_cases)
      case 1
      show ?case by (rule flows_yield) (auto simp: same_reads_def)
    next
      case (2 v)
      show ?case
        by (rule flows_bindp [OF reads], rule flows_with_guard [OF lasting_contents_fixed]) auto
    qed (auto simp: pack_so_far_def)
  qed (auto simp: pack_so_far_def)
qed

end

text \<open>The frames a response announces, for given contents.\<close>

definition entry_frame :: "libraries \<Rightarrow> (digest \<Rightarrow> bytes) \<Rightarrow> digest \<Rightarrow> frame" where
  "entry_frame B C d =
     (case algorithm_kind (lb_protocol B) d of Inr a \<Rightarrow> a | Inl _ \<Rightarrow> Blake3,
      case hex_decode (lb_protocol B) (dg_hash d) of Inr raw \<Rightarrow> raw | Inl _ \<Rightarrow> [], C d)"

lemma entry_bytes_frame:
  "entry_header B (header, d) \<Longrightarrow> dg_size d = of_nat (length (C d)) \<Longrightarrow>
     entry_bytes C (header, d) = frame_bytes (entry_frame B C d)"
  by (auto simp: entry_header_def entry_bytes_def entry_frame_def)

lemma pack_so_far_stream:
  assumes "\<forall>e\<in>set entries. entry_header B e \<and> dg_size (snd e) = of_nat (length (C (snd e)))"
  shows "pack_so_far C (pack_magic (lb_protocol B)) entries =
    pack_stream (lb_protocol B) (map (entry_frame B C \<circ> snd) entries)"
proof -
  have "map (entry_bytes C) entries = map frame_bytes (map (entry_frame B C \<circ> snd) entries)"
    using assms entry_bytes_frame by (fastforce simp: map_eq_conv)
  then show ?thesis by (simp only: pack_so_far_def pack_stream_def)
qed

lemma entry_frame_digest:
  assumes "digests_documented (lb_protocol B)" and "hex_documented (lb_protocol B)"
    and "digest_validate (lb_protocol B) d" and "dg_size d = of_nat (length (C d))"
  shows "frame_digest (lb_protocol B) (entry_frame B C d) = d"
proof -
  obtain a where a: "algorithm_kind (lb_protocol B) d = Inr a" "dg_algorithm d = algorithm_str (lb_protocol B) a"
    using algorithm_kind_valid [OF assms(1,3)] by blast
  obtain raw where "hex_decode (lb_protocol B) (dg_hash d) = Inr raw" "hex_encode (lb_protocol B) raw = dg_hash d"
    using hex_decode_valid [OF assms(1-3)] by blast
  with a assms(4) show ?thesis by (cases d) (simp add: entry_frame_def)
qed

lemma entry_frame_payload [simp]: "frame_payload (entry_frame B C d) = C d"
  by (simp add: entry_frame_def)

lemma frame_bytes_length:
  "length (fst (snd f)) = 32 \<Longrightarrow> length (frame_bytes f) = HEADER_BYTES + length (frame_payload f)"
  by (cases f) (simp add: HEADER_BYTES_def)

text \<open>A list of frames is what a response announces: its blobs, their contents, its lengths.\<close>

definition pack_of ::
  "libraries \<Rightarrow> ('b, 'm) backend \<Rightarrow> pack_response \<Rightarrow> ('b, 'm) world \<Rightarrow> frame list \<Rightarrow> bool" where
  "pack_of B K resp w fs \<longleftrightarrow>
     map (frame_digest (lb_protocol B)) fs = map snd (pk_entries resp) \<and>
     (\<forall>f\<in>set fs. w_content K w (frame_digest (lb_protocol B) f) = Some (frame_payload f) \<and> length (fst (snd f)) = 32) \<and>
     payload_total fs = unat (pk_bytes resp) \<and>
     length (pack_stream (lb_protocol B) fs) = unat (pk_content_length resp)"

lemma pack_of_announced:
  assumes "digests_documented (lb_protocol B)" and "hex_documented (lb_protocol B)"
    and "announces B K ns resp w" and "contents_fixed K ns C (pk_entries resp) w"
    and exact: "\<And>e. e \<in> set (pk_entries resp) \<Longrightarrow> length (C (snd e)) = unat (dg_size (snd e))"
  shows "pack_of B K resp w (map (entry_frame B C \<circ> snd) (pk_entries resp))" (is "pack_of B K resp w ?fs")
proof -
  let ?P = "lb_protocol B"
  have e: "entry_header B e" "digest_validate ?P (snd e)" "w_content K w (snd e) = Some (C (snd e))"
    if "e \<in> set (pk_entries resp)" for e
    using assms(3,4) that by (auto simp: announces_def contents_fixed_def)
  have d: "frame_digest ?P (entry_frame B C (snd e)) = snd e" if "e \<in> set (pk_entries resp)" for e
    by (rule entry_frame_digest [OF assms(1,2) e(2) [OF that]]) (simp add: exact [OF that])
  have raw: "length (fst (snd (entry_frame B C (snd e)))) = 32" if "e \<in> set (pk_entries resp)" for e
    using e(1) [OF that] by (auto simp: entry_header_def entry_frame_def split: prod.splits)
  have "payload_total ?fs = (\<Sum>e\<leftarrow>pk_entries resp. unat (dg_size (snd e)))"
    unfolding payload_total_def map_map comp_def entry_frame_payload
    by (rule arg_cong [where f = sum_list], rule map_cong) (simp_all add: exact)
  moreover have "length (pack_stream ?P ?fs) =
      length (pack_magic ?P) + (\<Sum>e\<leftarrow>pk_entries resp. HEADER_BYTES + unat (dg_size (snd e)))"
    unfolding pack_stream_def length_append length_concat map_map comp_def
    by (rule arg_cong [where f = "(+) (length (pack_magic ?P))"], rule arg_cong [where f = sum_list], rule map_cong)
      (simp_all add: frame_bytes_length raw exact)
  ultimately show ?thesis
    using assms(3) d e(3) raw by (auto simp: pack_of_def announces_def)
qed

context cache_server
begin

text \<open>Everything announced is stored; a choice of its contents.\<close>

lemma announced_contents:
  assumes w: "world_ok B K w" and an: "announces B K ns resp w"
  defines "C \<equiv> \<lambda>d. the (w_content K w d)"
  shows "contents_fixed K ns C (pk_entries resp) w"
    and "\<And>e. e \<in> set (pk_entries resp) \<Longrightarrow> w_content K w (snd e) = Some (C (snd e)) \<and> verified B (snd e) (C (snd e))"
proof -
  show content: "w_content K w (snd e) = Some (C (snd e)) \<and> verified B (snd e) (C (snd e))"
    if "e \<in> set (pk_entries resp)" for e
  proof -
    have "(ns, snd e) \<in> w_held K w" using an that by (simp add: announces_def)
    then obtain bs where "w_content K w (snd e) = Some bs" "verified B (snd e) bs"
      using world_ok_held [OF w] by blast
    then show ?thesis by (simp add: C_def)
  qed
  then show "contents_fixed K ns C (pk_entries resp) w"
    using an by (auto simp: announces_def contents_fixed_def)
qed

lemma stream_pack_flows:
  assumes w: "world_ok B K w" and fixed: "contents_fixed K ns C (pk_entries resp) w"
    and run: "stream_pack B st resp schedule demand w = (x, sent, w')"
  shows "world_ok B K w' \<and> w_grows K w w' \<and>
    prefix (concat sent) (pack_so_far C (pack_magic (lb_protocol B)) (pk_entries resp)) \<and>
    (x = Inr () \<longrightarrow> concat sent = pack_so_far C (pack_magic (lb_protocol B)) (pk_entries resp))"
proof -
  let ?E = "pk_entries resp" and ?P = "lb_protocol B"
  obtain y v r where body: "(if demand = Some 0 then throw Cancelled else pack_stream_body B st)
      (w, new_run resp schedule demand) = (y, (v, r))" by (metis prod.collapse)
  with run have x: "x = y" "sent = rn_sent r" "w' = snd (drop_guard (rn_guard r) v)"
    by (auto simp: stream_pack_def)
  have "flows B K (contents_fixed K ns C ?E) (\<lambda>r. rn_window r = [] \<and> rn_rest r = ?E \<and> rn_sent r = [])
      (if demand = Some 0 then throw Cancelled else pack_stream_body B st)
      (\<lambda>x r. prefix (concat (rn_sent r)) (pack_so_far C (pack_magic ?P) ?E) \<and>
        (x = Inr () \<longrightarrow> concat (rn_sent r) = pack_so_far C (pack_magic ?P) ?E))"
    by (auto intro: flows_throw flows_body)
  note step = this [unfolded flows_def, rule_format, of w "new_run resp schedule demand" y v r]
  from step body w fixed have v: "world_ok B K v" "w_grows K w v"
    "prefix (concat (rn_sent r)) (pack_so_far C (pack_magic ?P) ?E)"
    "y = Inr () \<longrightarrow> concat (rn_sent r) = pack_so_far C (pack_magic ?P) ?E"
    by (simp_all add: new_run_def)
  have "world_ok B K w' \<and> w_grows K v w'"
    using triple_drop_guard [of K "\<lambda>_. True" B "rn_guard r"] v(1) x(3) lasting_const
    unfolding triple_def by (metis prod.collapse)
  then show ?thesis using v x(1,2) w_grows_trans [OF v(2)] by blast
qed

lemma stream_pack_sound:
  assumes "hex_documented (lb_protocol B)" and w: "world_ok B K w"
    and an: "announces B K ns resp w"
    and small: "\<And>e bs. e \<in> set (pk_entries resp) \<Longrightarrow> w_content K w (snd e) = Some bs \<Longrightarrow> length bs < 2 ^ 64"
    and run: "stream_pack B st resp schedule demand w = (x, sent, w')"
  shows "\<exists>fs. pack_of B K resp w fs \<and> prefix (concat sent) (pack_stream (lb_protocol B) fs) \<and>
       (x = Inr () \<longrightarrow> concat sent = pack_stream (lb_protocol B) fs)"
proof -
  let ?E = "pk_entries resp"
  let ?C = "\<lambda>d. the (w_content K w d)"
  note contents = announced_contents [OF w an]
  have exact: "length (?C (snd e)) = unat (dg_size (snd e))" if "e \<in> set ?E" for e
    using contents(2) [OF that] small [OF that] by (auto simp: verified_def unat_of_nat)
  have sizes: "\<forall>e\<in>set ?E. entry_header B e \<and> dg_size (snd e) = of_nat (length (?C (snd e)))"
    using an exact by (auto simp: announces_def)
  have "pack_of B K resp w (map (entry_frame B ?C \<circ> snd) ?E)"
    by (rule pack_of_announced [OF digests assms(1) an contents(1) exact])
  then show ?thesis
    using stream_pack_flows [OF w contents(1) run] unfolding pack_so_far_stream [OF sizes] by blast
qed

end

section \<open>Packs the reader accepts\<close>

lemma pack_blobs_batch:
  "pack_blobs B st headers request w = (Inr resp, w') \<Longrightarrow> length (mq_digests request) \<le> max_batch_items (lb_protocol B)"
  by (auto simp: pack_blobs_def bindp_Inr_iff ensurep_iff split: if_splits)

lemma payload_le_total: "f \<in> set fs \<Longrightarrow> length (frame_payload f) \<le> payload_total fs"
  unfolding payload_total_def by (simp add: member_le_sum_list)

text \<open>What a response announces is within the limits it announces.\<close>

lemma pack_of_within_limits:
  assumes "pack_of B K resp w fs" and "pk_blobs resp = of_nat (length (pk_entries resp))"
    and "length (pk_entries resp) < 2 ^ 64" and "pk_bytes resp \<le> mx"
  shows "within_limits mx (pk_blobs resp) (pk_bytes resp) fs"
proof -
  have len: "length fs = length (pk_entries resp)"
    using assms(1) unfolding pack_of_def by (metis length_map)
  have "length (frame_payload f) \<le> unat mx" if "f \<in> set fs" for f
    using payload_le_total [OF that] assms(1,4) by (auto simp: pack_of_def word_le_nat_alt)
  then have "frame_fits mx f" if "f \<in> set fs" for f
    using assms(1) that by (cases f) (auto simp: pack_of_def)
  then show ?thesis
    using assms len by (auto simp: within_limits_def pack_of_def unat_of_nat)
qed

end
