(* ===== verification/Pack_Accounts.thy ===== *)
theory Pack_Accounts
  imports Pack_Serving
begin

text \<open>
  The metrics of pack streams: the gauge of streams in flight goes up by one when
  \<^verbatim>\<open>pack_blobs\<close> answers and down by one when the stream it returned ends, and the end is
  counted under exactly one outcome, the one that happened.
\<close>

section \<open>What counts\<close>

definition quiet :: "metrics \<Rightarrow> metrics \<Rightarrow> bool" where
  "quiet ms ms' \<longleftrightarrow> gauge_value pack_in_flight ms' = gauge_value pack_in_flight ms \<and>
     (\<forall>l. counter_total pack_requests l ms' = counter_total pack_requests l ms)"

definition tallied :: "string \<Rightarrow> metrics \<Rightarrow> metrics \<Rightarrow> bool" where
  "tallied end_label ms ms' \<longleftrightarrow> gauge_value pack_in_flight ms' = gauge_value pack_in_flight ms - 1 \<and>
     (\<forall>l. counter_total pack_requests l ms' =
        counter_total pack_requests l ms + (if l = end_label then 1 else 0))"

lemma quiet_refl [simp]: "quiet ms ms"
  by (simp add: quiet_def)

lemma quiet_trans: "quiet u v \<Longrightarrow> quiet v w \<Longrightarrow> quiet u w"
  by (simp add: quiet_def)

lemma tallied_quiet: "quiet u v \<Longrightarrow> tallied l v w \<Longrightarrow> tallied l u w"
  by (simp add: quiet_def tallied_def)

lemma quiet_calls [simp]:
  "quiet ms (add_served_bytes n ms)" "quiet ms (observe_pack_storage_get l d ms)"
  "quiet ms (observe_pack_metadata_query l d ms)" "quiet ms (inc_blob_hit ms)" "quiet ms (blob_served ms)"
  by (simp_all add: quiet_def metrics_defs)

lemma quiet_hit_served [simp]: "quiet ms (inc_blob_hit (blob_served ms))"
  by (simp add: quiet_def metrics_defs)

lemma tallied_finish:
  "\<not> pg_finished g \<Longrightarrow> guard_finish l clock g ms = (g', ms') \<Longrightarrow> pg_finished g' \<and> tallied l ms ms'"
  by (auto simp: guard_finish_def tallied_def)

lemma guard_methods:
  "\<not> pg_finished g \<Longrightarrow> guard_error clock g ms = (g', ms') \<Longrightarrow> pg_finished g' \<and> tallied ''error'' ms ms'"
  "\<not> pg_finished g \<Longrightarrow> guard_complete clock g ms = (g', ms') \<Longrightarrow> pg_finished g' \<and> tallied ''completed'' ms ms'"
  "\<not> pg_finished g \<Longrightarrow> tallied ''cancelled'' ms (guard_drop clock g ms)"
  "pg_finished g \<Longrightarrow> guard_drop clock g ms = ms"
  "record_first_byte clock g ms = (g', ms') \<Longrightarrow> pg_finished g' = pg_finished g \<and> quiet ms ms'"
  by (auto simp: guard_error_def guard_complete_def guard_drop_def tallied_def guard_finish_def
      record_first_byte_def quiet_def split: if_splits)

section \<open>Streaming programs\<close>

text \<open>A running stream leaves the accounts alone, unless it fails: then it has been counted.\<close>

definition accounts :: "('b, 'm, 'a) streaming \<Rightarrow> bool" where
  "accounts p \<longleftrightarrow> (\<forall>w r x w' r'. p (w, r) = (x, (w', r')) \<and> \<not> pg_finished (rn_guard r) \<longrightarrow>
     (case x of
        Inl (Failed _) \<Rightarrow> pg_finished (rn_guard r') \<and> tallied ''error'' (w_metrics w) (w_metrics w')
      | _ \<Rightarrow> \<not> pg_finished (rn_guard r') \<and> quiet (w_metrics w) (w_metrics w')))"

lemma accounts_bindp: "accounts m \<Longrightarrow> (\<And>x. accounts (f x)) \<Longrightarrow> accounts (bindp m f)"
  unfolding accounts_def
proof (intro allI impI, elim conjE)
  fix w r x w' r'
  assume m: "\<forall>w r x w' r'. m (w, r) = (x, (w', r')) \<and> \<not> pg_finished (rn_guard r) \<longrightarrow>
     (case x of Inl (Failed _) \<Rightarrow> pg_finished (rn_guard r') \<and> tallied ''error'' (w_metrics w) (w_metrics w')
      | _ \<Rightarrow> \<not> pg_finished (rn_guard r') \<and> quiet (w_metrics w) (w_metrics w'))"
    and f: "\<And>x. \<forall>w r y w' r'. f x (w, r) = (y, (w', r')) \<and> \<not> pg_finished (rn_guard r) \<longrightarrow>
     (case y of Inl (Failed _) \<Rightarrow> pg_finished (rn_guard r') \<and> tallied ''error'' (w_metrics w) (w_metrics w')
      | _ \<Rightarrow> \<not> pg_finished (rn_guard r') \<and> quiet (w_metrics w) (w_metrics w'))"
    and run: "bindp m f (w, r) = (x, (w', r'))" "\<not> pg_finished (rn_guard r)"
  obtain q v s where q: "m (w, r) = (q, (v, s))" by (metis prod.collapse)
  note mq = m [rule_format, of w r q v s]
  show "case x of Inl (Failed _) \<Rightarrow> pg_finished (rn_guard r') \<and> tallied ''error'' (w_metrics w) (w_metrics w')
      | _ \<Rightarrow> \<not> pg_finished (rn_guard r') \<and> quiet (w_metrics w) (w_metrics w')"
  proof (cases q)
    case (Inl e)
    with q run mq show ?thesis by auto
  next
    case (Inr y)
    with q run have fy: "f y (v, s) = (x, (w', r'))" by simp
    from mq q run(2) Inr have s: "\<not> pg_finished (rn_guard s)" "quiet (w_metrics w) (w_metrics v)" by auto
    with f [of y, rule_format, of v s x w' r'] fy show ?thesis
      by (auto split: sum.splits stop.splits intro: quiet_trans tallied_quiet)
  qed
qed

lemma read_clock_metrics: "w_metrics (snd (read_clock w)) = w_metrics w"
  by (simp add: read_clock_def Let_def)

lemma on_blobs_metrics: "w_metrics (snd (on_blobs p w)) = w_metrics w"
  by (auto simp: on_blobs_def zoom_def others_run_def split: list.splits prod.splits)

lemma on_meta_metrics: "w_metrics (snd (on_meta p w)) = w_metrics w"
  by (auto simp: on_meta_def zoom_def others_run_def split: list.splits prod.splits)

lemma on_guard_metrics:
  "on_guard f g w = (x, w') \<Longrightarrow> \<exists>clock g'. x = Inr g' \<and> f clock g (w_metrics w) = (g', w_metrics w')"
  by (auto simp: on_guard_def bindp_def read_clock_def Let_def split: prod.splits)

lemma read_entry_quiet:
  assumes "read_entry st header d w = (x, w')"
  shows "\<exists>y. x = Inr y" and "quiet (w_metrics w) (w_metrics w')"
  using assms on_blobs_metrics [of "bs_get (st_blobs st) d" "snd (read_clock w)"]
  by (auto simp: read_entry_def observe_read_def bindp_def read_clock_def Let_def modifyp_def ok_def
      split: prod.splits sum.splits option.splits)

lemma accounts_prims [simp]:
  "accounts (ok v)" "accounts (throw Cancelled)" "accounts (yield_chunk c)"
  by (auto simp: accounts_def ok_def throw_def yield_chunk_def on_run_def zoom_def Let_def)

lemma accounts_on_run:
  "(\<And>r x r'. m r = (x, r') \<Longrightarrow> (\<exists>v. x = Inr v) \<and> rn_guard r' = rn_guard r) \<Longrightarrow> accounts (on_run m)"
  unfolding accounts_def on_run_def zoom_def by (fastforce split: prod.splits)

lemma accounts_on_world:
  "(\<And>ms. quiet ms (f ms)) \<Longrightarrow> accounts (on_world (modifyp (w_metrics_update f)))"
  by (auto simp: accounts_def on_world_def zoom_def modifyp_def)

lemma with_guard_run:
  assumes "with_guard f (w, r) = (x, (w', r'))"
  shows "\<exists>clock g. x = Inr () \<and> r' = r\<lparr>rn_guard := g\<rparr> \<and> f clock (rn_guard r) (w_metrics w) = (g, w_metrics w')"
proof -
  obtain y v where y: "on_guard f (rn_guard r) w = (y :: stop + pack_guard, v)" by force
  from on_guard_metrics [OF y] obtain clock g where g: "y = Inr g" "f clock (rn_guard r) (w_metrics w) = (g, w_metrics v)"
    by blast
  with assms y show ?thesis by (auto simp: with_guard_def)
qed

lemma accounts_first_byte [simp]: "accounts (with_guard record_first_byte)"
  unfolding accounts_def using with_guard_run guard_methods(5) by fastforce

lemma accounts_fail [simp]: "accounts (fail_pack e)"
  unfolding accounts_def
proof (intro allI impI, elim conjE)
  fix w r x w' r'
  assume run: "fail_pack e (w, r) = (x, (w', r'))" and g: "\<not> pg_finished (rn_guard r)"
  obtain y v s where y: "with_guard guard_error (w, r) = (y, (v, s))" by (metis prod.collapse)
  from with_guard_run [OF y] obtain clock h where h: "y = Inr ()" "s = r\<lparr>rn_guard := h\<rparr>"
    "guard_error clock (rn_guard r) (w_metrics w) = (h, w_metrics v)" by blast
  with run y have "x = Inl (Failed e)" "w' = v" "r' = s" by (auto simp: fail_pack_def throw_def)
  with h guard_methods(1) [OF g h(3)] show "case x of
      Inl (Failed _) \<Rightarrow> pg_finished (rn_guard r') \<and> tallied ''error'' (w_metrics w) (w_metrics w')
    | _ \<Rightarrow> \<not> pg_finished (rn_guard r') \<and> quiet (w_metrics w) (w_metrics w')" by simp
qed

lemma accounts_complete_read [simp]: "accounts (complete_read st i)"
  unfolding accounts_def
proof (intro allI impI, elim conjE)
  fix w r x w' r'
  assume run: "complete_read st i (w, r) = (x, (w', r'))" and g: "\<not> pg_finished (rn_guard r)"
  have "\<exists>v. x = Inr v \<and> rn_guard r' = rn_guard r \<and> quiet (w_metrics w) (w_metrics w')"
    using run
    by (auto simp: complete_read_def split: if_splits pack_read.splits prod.splits sum.splits
        dest: read_entry_quiet)
  with g show "case x of
      Inl (Failed _) \<Rightarrow> pg_finished (rn_guard r') \<and> tallied ''error'' (w_metrics w) (w_metrics w')
    | _ \<Rightarrow> \<not> pg_finished (rn_guard r') \<and> quiet (w_metrics w) (w_metrics w')" by auto
qed

lemma accounts_completions [simp]: "accounts (for_prog (complete_read st) is)"
  by (induction "is") (auto intro!: accounts_bindp)

lemma accounts_next_read [simp]: "accounts (next_read st)"
  unfolding next_read_def
  by (intro accounts_bindp accounts_on_run)
    (auto simp: modifyp_def fill_window_def Let_def split: list.splits pack_read.splits)

lemma accounts_chunks [simp]: "accounts (serve_chunks n chunks k)"
  by (induction n chunks k rule: serve_chunks.induct)
    (auto intro!: accounts_bindp accounts_on_world split: option.split)

lemma accounts_entry [simp]: "accounts (serve_entry header blob)"
  unfolding serve_entry_def by (auto intro!: accounts_bindp accounts_on_world)

lemma accounts_round [simp]: "accounts (serve_round st)"
  unfolding serve_round_def by (auto intro!: accounts_bindp split: option.split sum.split)

lemma accountsD:
  assumes "accounts p" and "p (w, r) = (x, (w', r'))" and "\<not> pg_finished (rn_guard r)"
  shows "case x of
      Inl (Failed _) \<Rightarrow> pg_finished (rn_guard r') \<and> tallied ''error'' (w_metrics w) (w_metrics w')
    | _ \<Rightarrow> \<not> pg_finished (rn_guard r') \<and> quiet (w_metrics w) (w_metrics w')"
  using assms unfolding accounts_def by blast

lemma accounts_reads [simp]: "accounts (serve_reads st)"
proof -
  have "serve_reads st (w, r) = (x, (w', r')) \<Longrightarrow> \<not> pg_finished (rn_guard r) \<Longrightarrow>
    (case x of
      Inl (Failed _) \<Rightarrow> pg_finished (rn_guard r') \<and> tallied ''error'' (w_metrics w) (w_metrics w')
    | _ \<Rightarrow> \<not> pg_finished (rn_guard r') \<and> quiet (w_metrics w) (w_metrics w'))" for w r x w' r'
  proof (induction "unserved r" arbitrary: w r rule: less_induct)
    case less
    obtain q v s where q: "serve_round st (w, r) = (q, (v, s))" by (metis prod.collapse)
    note round = accountsD [OF accounts_round q less.prems(2)]
    show ?case
    proof (cases "q = Inr True")
      case True
      with q less.prems(1) have next_run: "serve_reads st (v, s) = (x, (w', r'))"
        by (simp add: serve_reads.simps [of st "(w, r)"])
      from True round have s: "\<not> pg_finished (rn_guard s)" "quiet (w_metrics w) (w_metrics v)" by auto
      have "unserved s < unserved r" using serve_round_takes q True by blast
      from less.hyps [OF this next_run s(1)] s(2) show ?thesis
        by (auto split: sum.splits stop.splits intro: quiet_trans tallied_quiet)
    next
      case False
      with q less.prems(1) round show ?thesis
        by (auto simp: serve_reads.simps [of st "(w, r)"] split: sum.splits bool.splits)
    qed
  qed
  then show ?thesis unfolding accounts_def by blast
qed

section \<open>The end of a stream\<close>

fun end_label :: "stop + unit \<Rightarrow> string" where
  "end_label (Inr _) = ''completed''"
| "end_label (Inl (Failed _)) = ''error''"
| "end_label (Inl Cancelled) = ''cancelled''"

lemma drop_guard_metrics: "\<exists>clock. w_metrics (snd (drop_guard g w)) = guard_drop clock g (w_metrics w)"
  by (auto simp: drop_guard_def bindp_def read_clock_def Let_def modifyp_def)

lemma stream_body_accounts:
  assumes "pack_stream_body B st (w, r) = (x, (v, s))" and "\<not> pg_finished (rn_guard r)"
  shows "if x = Inl Cancelled then \<not> pg_finished (rn_guard s) \<and> quiet (w_metrics w) (w_metrics v)
    else pg_finished (rn_guard s) \<and> tallied (end_label x) (w_metrics w) (w_metrics v)"
proof -
  let ?before = "bindp (with_guard record_first_byte) (\<lambda>_. bindp (yield_chunk (pack_magic (lb_protocol B))) (\<lambda>_. serve_reads st))"
  have body: "pack_stream_body B st (w, r) = bindp ?before (\<lambda>_. with_guard guard_complete) (w, r)"
    by (auto simp: pack_stream_body_def bindp_def split: prod.splits sum.splits)
  obtain y u q where y: "?before (w, r) = (y, (u, q))" by (metis prod.collapse)
  have "accounts ?before" by (auto intro!: accounts_bindp)
  note before = accountsD [OF this y assms(2)]
  show ?thesis
  proof (cases y)
    case (Inl e)
    with body y assms(1) before show ?thesis by (auto split: stop.splits)
  next
    case (Inr z)
    with body y assms(1) have fin: "with_guard guard_complete (u, q) = (x, (v, s))" by simp
    from Inr before have q: "\<not> pg_finished (rn_guard q)" "quiet (w_metrics w) (w_metrics u)" by auto
    from with_guard_run [OF fin] guard_methods(2) [OF q(1)] q(2) show ?thesis
      by (auto intro: tallied_quiet)
  qed
qed

lemma stream_pack_accounts:
  assumes "stream_pack B st resp schedule demand w = (x, sent, w')" and "\<not> pg_finished (pk_guard resp)"
  shows "tallied (end_label x) (w_metrics w) (w_metrics w')"
proof -
  let ?r = "new_run resp schedule demand"
  obtain y v s where run: "(if demand = Some 0 then throw Cancelled else pack_stream_body B st) (w, ?r) = (y, (v, s))"
    by (metis prod.collapse)
  with assms(1) have x: "x = y" "w' = snd (drop_guard (rn_guard s) v)" by (auto simp: stream_pack_def)
  obtain clock where w': "w_metrics w' = guard_drop clock (rn_guard s) (w_metrics v)"
    using drop_guard_metrics [of "rn_guard s" v] x(2) by blast
  have "if x = Inl Cancelled then \<not> pg_finished (rn_guard s) \<and> quiet (w_metrics w) (w_metrics v)
    else pg_finished (rn_guard s) \<and> tallied (end_label x) (w_metrics w) (w_metrics v)"
    using run x(1) stream_body_accounts [of B st w ?r y v s] assms(2)
    by (auto simp: throw_def new_run_def split: if_splits)
  then show ?thesis
    using w' guard_methods(3,4) by (auto intro: tallied_quiet split: if_splits)
qed

text \<open>Answering puts one stream in flight; a refused request leaves none behind.\<close>

definition begun :: "metrics \<Rightarrow> metrics \<Rightarrow> bool" where
  "begun ms ms' \<longleftrightarrow> gauge_value pack_in_flight ms' = gauge_value pack_in_flight ms + 1 \<and>
     (\<forall>l. counter_total pack_requests l ms' = counter_total pack_requests l ms)"

definition hushed :: "(('b, 'm) world, 'e, 'a) prog \<Rightarrow> bool" where
  "hushed h \<longleftrightarrow> (\<forall>w x w'. h w = (x, w') \<longrightarrow> quiet (w_metrics w) (w_metrics w'))"

definition answers :: "('b, 'm, pack_response) handler \<Rightarrow> bool" where
  "answers h \<longleftrightarrow> (\<forall>w x w'. h w = (x, w') \<longrightarrow>
     (case x of
        Inr resp \<Rightarrow> \<not> pg_finished (pk_guard resp) \<and> begun (w_metrics w) (w_metrics w')
      | Inl _ \<Rightarrow> gauge_value pack_in_flight (w_metrics w') = gauge_value pack_in_flight (w_metrics w)))"

lemma hushed_bindp: "hushed m \<Longrightarrow> (\<And>x. hushed (f x)) \<Longrightarrow> hushed (bindp m f)"
  unfolding hushed_def bindp_def by (fastforce split: prod.splits sum.splits intro: quiet_trans)

lemma answers_bindp: "hushed m \<Longrightarrow> (\<And>x. answers (f x)) \<Longrightarrow> answers (bindp m f)"
  unfolding answers_def
proof (intro allI impI)
  fix w x w'
  assume m: "hushed m" and run: "bindp m f w = (x, w')"
    and f: "\<And>x. \<forall>w y w'. f x w = (y, w') \<longrightarrow> (case y of
        Inr resp \<Rightarrow> \<not> pg_finished (pk_guard resp) \<and> begun (w_metrics w) (w_metrics w')
      | Inl _ \<Rightarrow> gauge_value pack_in_flight (w_metrics w') = gauge_value pack_in_flight (w_metrics w))"
  obtain q v where q: "m w = (q, v)" by force
  with m have v: "quiet (w_metrics w) (w_metrics v)" unfolding hushed_def by blast
  show "case x of
        Inr resp \<Rightarrow> \<not> pg_finished (pk_guard resp) \<and> begun (w_metrics w) (w_metrics w')
      | Inl _ \<Rightarrow> gauge_value pack_in_flight (w_metrics w') = gauge_value pack_in_flight (w_metrics w)"
  proof (cases q)
    case (Inl e)
    with q run v show ?thesis by (auto simp: quiet_def)
  next
    case (Inr y)
    with q run have "f y v = (x, w')" by simp
    with f [of y, rule_format, of v x w'] v show ?thesis by (auto simp: quiet_def begun_def split: sum.splits)
  qed
qed

lemma hushed_prims [simp]:
  "hushed read_clock" "hushed (ok v)" "hushed (throw e)" "hushed (liftr r)" "hushed (ensurep b e)"
  "hushed (on_meta p)" "hushed (authorized B st headers access)" "hushed (record_blob_access st ns ds)"
  "hushed (count (observe_pack_metadata_query l d))"
proof -
  show "hushed (on_meta p)"
    unfolding hushed_def by (metis on_meta_metrics quiet_refl snd_conv)
  show "hushed (record_blob_access st ns ds)"
    unfolding hushed_def record_blob_access_def by (auto simp: on_meta_metrics)
qed (auto simp: hushed_def read_clock_def Let_def ok_def throw_def liftr_def ensurep_def authorized_def zoom_def
    count_def modifyp_def split: prod.splits)

lemma hushed_try:
  "hushed m \<Longrightarrow> (\<And>v. hushed (f v)) \<Longrightarrow> (\<And>e. hushed (g e)) \<Longrightarrow>
     hushed (\<lambda>w. case m w of (Inr v, w') \<Rightarrow> f v w' | (Inl e, w') \<Rightarrow> g e w')"
  unfolding hushed_def by (fastforce split: prod.splits sum.splits intro: quiet_trans)

lemma hushed_pack_visible_blobs [simp]: "hushed (pack_visible_blobs st ns requested)"
  unfolding pack_visible_blobs_def by (intro hushed_bindp hushed_try) simp_all

lemma answers_begin:
  "answers (bindp (begin_pack s n k m) (\<lambda>guard.
     case r of Inl e \<Rightarrow> bindp (drop_guard guard) (\<lambda>_. throw e)
     | Inr (pb, b, es) \<Rightarrow> ok \<lparr>pk_content_type = ty, pk_content_length = b, pk_blobs = of_nat (length es), pk_bytes = pb,
                              pk_entries = es, pk_guard = guard\<rparr>))"
  unfolding answers_def
proof (intro allI impI)
  fix w x w'
  let ?finish = "\<lambda>guard. case r of Inl e \<Rightarrow> bindp (drop_guard guard) (\<lambda>_. throw e)
     | Inr (pb, b, es) \<Rightarrow> ok \<lparr>pk_content_type = ty, pk_content_length = b, pk_blobs = of_nat (length es), pk_bytes = pb,
                              pk_entries = es, pk_guard = guard\<rparr>"
  assume run: "bindp (begin_pack s n k m) ?finish w = (x, w')"
  obtain g ms where g: "start_pack s n k m (w_metrics w) = (g, ms)" by force
  then have gm: "\<not> pg_finished g" "begun (w_metrics w) ms" by (auto simp: start_pack_def begun_def)
  from run g have fin: "?finish g (w\<lparr>w_metrics := ms\<rparr>) = (x, w')" by (simp add: begin_pack_def bindp_def)
  show "case x of
        Inr resp \<Rightarrow> \<not> pg_finished (pk_guard resp) \<and> begun (w_metrics w) (w_metrics w')
      | Inl _ \<Rightarrow> gauge_value pack_in_flight (w_metrics w') = gauge_value pack_in_flight (w_metrics w)"
  proof (cases r)
    case (Inl e)
    obtain q v where q: "drop_guard g (w\<lparr>w_metrics := ms\<rparr>) = (q, v)" by force
    with fin Inl have "w' = v" "\<exists>e. x = Inl e" by (auto simp: bindp_def throw_def split: sum.splits)
    moreover obtain clock where "w_metrics v = guard_drop clock g ms"
      using drop_guard_metrics [of g "w\<lparr>w_metrics := ms\<rparr>"] q by auto
    ultimately show ?thesis
      using guard_methods(3) [OF gm(1), of ms clock] gm(2) by (auto simp: tallied_def begun_def)
  next
    case (Inr y)
    with fin gm show ?thesis by (auto simp: ok_def split: prod.splits)
  qed
qed

lemma answers_pack_blobs: "answers (pack_blobs B st headers request)"
  unfolding pack_blobs_def split_beta
  by (intro answers_bindp hushed_prims hushed_pack_visible_blobs answers_begin [unfolded split_beta])

end
