(* ===== verification/Router.thy ===== *)
theory Router
  imports Pack_Serving
begin

text \<open>
  \<^verbatim>\<open>src/server.rs\<close>, fourth part: the routing table with its limits on request bodies, the
  answers that depend on nothing stored (\<^verbatim>\<open>status\<close>, \<^verbatim>\<open>capabilities\<close>, \<^verbatim>\<open>metrics\<close>), error
  responses, and \<open>serve\<close>, which runs the handler of a request. A \<open>request\<close> is what the
  framework hands to the handler: path parameters, JSON bodies and body streams, the latter
  after decompression and under the limit of the route.
\<close>

section \<open>Routes\<close>

datatype http_method = GET | PUT | POST

datatype endpoint =
    Ep_status | Ep_capabilities | Ep_get_blob | Ep_put_blob | Ep_put_blob_pack | Ep_missing_blobs
  | Ep_pack_blobs | Ep_get_action_result | Ep_put_action_result | Ep_batch_action_results
  | Ep_get_action_manifest | Ep_put_action_manifest | Ep_metrics

text \<open>A route: its path, its methods, and the limit on its request body, where the router sets one.\<close>

record route =
  rt_path :: string
  rt_methods :: "(http_method \<times> endpoint) list"
  rt_limit :: "nat option"

text \<open>Sizes are 64 bits wide; \<^verbatim>\<open>saturating_add\<close> and \<^verbatim>\<open>saturating_mul\<close> stop at the largest.\<close>

definition usize_max :: nat where
  "usize_max = 2 ^ 64 - 1"

definition saturating_add :: "nat \<Rightarrow> nat \<Rightarrow> nat" where
  "saturating_add a b = min (a + b) usize_max"

definition saturating_mul :: "nat \<Rightarrow> nat \<Rightarrow> nat" where
  "saturating_mul a b = min (a * b) usize_max"

definition body_limit :: "('b, 'm) app_state \<Rightarrow> nat" where
  "body_limit st = unat (st_max_blob_bytes st)"

definition pack_limit :: "libraries \<Rightarrow> ('b, 'm) app_state \<Rightarrow> nat" where
  "pack_limit B st =
     saturating_add (saturating_add (body_limit st) (length (pack_magic (lb_protocol B))))
       (saturating_mul HEADER_BYTES (max_batch_items (lb_protocol B)))"

definition router :: "libraries \<Rightarrow> ('b, 'm) app_state \<Rightarrow> route list" where
  "router B st =
     [\<lparr>rt_path = ''/v1/status'', rt_methods = [(GET, Ep_status)], rt_limit = None\<rparr>,
      \<lparr>rt_path = ''/v1/capabilities'', rt_methods = [(GET, Ep_capabilities)], rt_limit = None\<rparr>,
      \<lparr>rt_path = ''/v1/blobs/{algorithm}/{hash}/{size}'',
       rt_methods = [(GET, Ep_get_blob), (PUT, Ep_put_blob)], rt_limit = Some (body_limit st)\<rparr>,
      \<lparr>rt_path = ''/v1/blobs:pack-upload'', rt_methods = [(POST, Ep_put_blob_pack)],
       rt_limit = Some (pack_limit B st)\<rparr>,
      \<lparr>rt_path = ''/v1/blobs:missing'', rt_methods = [(POST, Ep_missing_blobs)], rt_limit = None\<rparr>,
      \<lparr>rt_path = ''/v1/blobs:pack'', rt_methods = [(POST, Ep_pack_blobs)], rt_limit = None\<rparr>,
      \<lparr>rt_path = ''/v1/action-results/{algorithm}/{hash}/{size}'',
       rt_methods = [(GET, Ep_get_action_result), (PUT, Ep_put_action_result)], rt_limit = None\<rparr>,
      \<lparr>rt_path = ''/v1/action-results:batch'', rt_methods = [(POST, Ep_batch_action_results)], rt_limit = None\<rparr>,
      \<lparr>rt_path = ''/v1/action-manifests/{algorithm}/{hash}/{size}'',
       rt_methods = [(GET, Ep_get_action_manifest), (PUT, Ep_put_action_manifest)], rt_limit = None\<rparr>,
      \<lparr>rt_path = ''/metrics'', rt_methods = [(GET, Ep_metrics)], rt_limit = None\<rparr>]"

section \<open>Answers that depend on nothing stored\<close>

definition status_body :: "libraries \<Rightarrow> json" where
  "status_body B = JObject [(''status'', JString ''ok''), (''protocol'', JNumber (PosInt (lb_protocol_version B)))]"

record action_kind_capability =
  ak_action_schema :: u64
  ak_metadata_schema :: u64

record capability_features =
  cf_action_manifests :: bool
  cf_batch :: bool
  cf_action_batch :: bool
  cf_blob_packs :: bool
  cf_blob_pack_uploads :: bool

record capability_limits =
  cl_max_batch_items :: u64
  cl_max_inline_blob_bytes :: u64
  cl_max_blob_bytes :: u64
  cl_max_pack_bytes :: u64

text \<open>The fields the service assigns; everything else keeps the protocol crate's default.\<close>

record capabilities_record =
  ca_protocol :: "u64 \<times> u64"
  ca_digest_algorithms :: "string list"
  ca_compressors :: "string list"
  ca_action_kinds :: "(string \<times> action_kind_capability) list"
  ca_features :: capability_features
  ca_limits :: capability_limits

definition capabilities :: "libraries \<Rightarrow> ('b, 'm) app_state \<Rightarrow> capabilities_record" where
  "capabilities B st =
     \<lparr>ca_protocol = (lb_protocol_version B, 0),
      ca_digest_algorithms = [''blake3'', ''sha256''],
      ca_compressors = [''identity'', ''zstd''],
      ca_action_kinds =
        [(''build-script'', \<lparr>ak_action_schema = 2, ak_metadata_schema = 1\<rparr>),
         (''cc'', \<lparr>ak_action_schema = 1, ak_metadata_schema = 1\<rparr>),
         (''rustc'', \<lparr>ak_action_schema = 1, ak_metadata_schema = 1\<rparr>),
         (''task'', \<lparr>ak_action_schema = 1, ak_metadata_schema = 1\<rparr>)],
      ca_features = \<lparr>cf_action_manifests = True, cf_batch = True, cf_action_batch = True,
                     cf_blob_packs = True, cf_blob_pack_uploads = True\<rparr>,
      ca_limits = \<lparr>cl_max_batch_items = of_nat (max_batch_items (lb_protocol B)),
                   cl_max_inline_blob_bytes = 1048576,
                   cl_max_blob_bytes = st_max_blob_bytes st,
                   cl_max_pack_bytes = st_max_blob_bytes st\<rparr>\<rparr>"

record metrics_response =
  mx_content_type :: string
  mx_body :: string

definition metrics_page :: "libraries \<Rightarrow> ('b, 'm, metrics_response) handler" where
  "metrics_page B w =
     bindp (liftr (map_err internal (lb_encode_metrics B (w_metrics w)))) (\<lambda>body.
       ok \<lparr>mx_content_type = ''application/openmetrics-text; version=1.0.0; charset=utf-8'', mx_body = body\<rparr>) w"

section \<open>Error responses\<close>

record error_response =
  er_status :: status_code
  er_body :: json
  er_protocol_header :: "string option"

definition into_response :: "api_error \<Rightarrow> error_response" where
  "into_response self =
     \<lparr>er_status = ae_status self, er_body = JObject [(''error'', JString (ae_message self))],
      er_protocol_header = (if ae_advertise_protocol self then Some ''1'' else None)\<rparr>"

section \<open>Requests\<close>

type_synonym digest_path = "string \<times> string \<times> u64"

text \<open>
  The response stream of \<^verbatim>\<open>pack_blobs\<close> is part of its request here: the schedule of its reads
  and the number of items the client takes are parameters.
\<close>

datatype request =
    Status
  | Get_capabilities
  | Get_blob digest_path
  | Put_blob digest_path stream
  | Put_blob_pack stream
  | Missing_blobs missing_request
  | Pack_blobs missing_request "nat list list" "nat option"
  | Get_action_result digest_path
  | Put_action_result digest_path action_result
  | Batch_action_results missing_request
  | Get_action_manifest digest_path
  | Put_action_manifest digest_path stream
  | Get_metrics

datatype response =
    Status_answer json
  | Capabilities_answer capabilities_record
  | Blob_answer blob_response
  | Status_only status_code
  | Receipt_answer "string \<times> blob_pack_receipt"
  | Missing_answer missing_response
  | Pack_answer pack_response "bytes list" "stop + unit"
  | Result_answer action_result
  | Batch_answer "string \<times> action_result list"
  | Manifest_answer manifest_response
  | Metrics_answer metrics_response

definition run_pack_stream ::
  "libraries \<Rightarrow> ('b, 'm) app_state \<Rightarrow> nat list list \<Rightarrow> nat option \<Rightarrow> pack_response \<Rightarrow> ('b, 'm, response) handler" where
  "run_pack_stream B st schedule demand resp w =
     (case stream_pack B st resp schedule demand w of (x, sent, w') \<Rightarrow> (Inr (Pack_answer resp sent x), w'))"

fun serve :: "libraries \<Rightarrow> ('b, 'm) app_state \<Rightarrow> header_map \<Rightarrow> request \<Rightarrow> ('b, 'm, response) handler" where
  "serve B st headers Status = ok (Status_answer (status_body B))"
| "serve B st headers Get_capabilities = ok (Capabilities_answer (capabilities B st))"
| "serve B st headers (Get_blob parts) = bindp (get_blob B st headers parts) (\<lambda>x. ok (Blob_answer x))"
| "serve B st headers (Put_blob parts body) = bindp (put_blob B st headers parts body) (\<lambda>x. ok (Status_only x))"
| "serve B st headers (Put_blob_pack body) = bindp (put_blob_pack B st headers body) (\<lambda>x. ok (Receipt_answer x))"
| "serve B st headers (Missing_blobs req) = bindp (missing_blobs B st headers req) (\<lambda>x. ok (Missing_answer x))"
| "serve B st headers (Pack_blobs req schedule demand) =
     bindp (pack_blobs B st headers req) (run_pack_stream B st schedule demand)"
| "serve B st headers (Get_action_result parts) =
     bindp (get_action_result B st headers parts) (\<lambda>x. ok (Result_answer x))"
| "serve B st headers (Put_action_result parts result) =
     bindp (put_action_result B st headers parts result) (\<lambda>x. ok (Status_only x))"
| "serve B st headers (Batch_action_results req) =
     bindp (batch_action_results B st headers req) (\<lambda>x. ok (Batch_answer x))"
| "serve B st headers (Get_action_manifest parts) =
     bindp (get_action_manifest B st headers parts) (\<lambda>x. ok (Manifest_answer x))"
| "serve B st headers (Put_action_manifest parts body) =
     bindp (put_action_manifest B st headers parts body) (\<lambda>x. ok (Manifest_answer x))"
| "serve B st headers Get_metrics = bindp (metrics_page B) (\<lambda>x. ok (Metrics_answer x))"

text \<open>A run of the service: requests one after the other, each among the others' store calls.\<close>

fun serve_all :: "libraries \<Rightarrow> ('b, 'm) app_state \<Rightarrow> (header_map \<times> request) list \<Rightarrow> ('b, 'm) world \<Rightarrow> ('b, 'm) world" where
  "serve_all B st [] w = w"
| "serve_all B st ((headers, req) # reqs) w = serve_all B st reqs (snd (serve B st headers req w))"

section \<open>Schemas and limits\<close>

text \<open>
  What is left to check of a descriptor or of client metadata once kind and version are settled:
  that it decodes as the type of its kind, that its values are valid and, for metadata, that the
  blobs it names are there.
\<close>

definition descriptor_payload :: "libraries \<Rightarrow> action_kind \<Rightarrow> json \<Rightarrow> bool" where
  "descriptor_payload B kind v =
     (case kind of
        KindBuildScript \<Rightarrow> (case sd_build_script_action (lb_serde B) v of
            Inl _ \<Rightarrow> False | Inr a \<Rightarrow> BuildScriptAction_validate (lb_protocol B) a)
      | KindCc \<Rightarrow> (case sd_cc_action (lb_serde B) v of Inl _ \<Rightarrow> False | Inr a \<Rightarrow> CcAction_validate (lb_protocol B) a)
      | KindRustc \<Rightarrow> (case sd_rustc_action (lb_serde B) v of Inl _ \<Rightarrow> False | Inr a \<Rightarrow> RustcAction_validate (lb_protocol B) a)
      | KindTask \<Rightarrow> list_all (\<lambda>field. json_get v field \<noteq> None) task_action_fields \<and>
          (case sd_task_action (lb_serde B) v of Inl _ \<Rightarrow> False | Inr a \<Rightarrow> TaskAction_validate a))"

definition metadata_payload ::
  "libraries \<Rightarrow> ('b, 'm) app_state \<Rightarrow> string \<Rightarrow> action_kind \<Rightarrow> json \<Rightarrow> ('b, 'm) world \<Rightarrow> ('b, 'm) world \<Rightarrow> bool" where
  "metadata_payload B st ns kind v w w' =
     (case kind of
        KindBuildScript \<Rightarrow> (case sd_build_script_metadata (lb_serde B) v of Inl _ \<Rightarrow> False
          | Inr m \<Rightarrow> BuildScriptMetadata_validate (lb_protocol B) m \<and>
              require_output_blobs B st ns (bm_stdout m) (bm_stderr m) ''build-script'' w = (Inr (), w'))
      | KindCc \<Rightarrow> (case sd_cc_metadata (lb_serde B) v of Inl _ \<Rightarrow> False
          | Inr m \<Rightarrow> sd_cc_metadata_validate (lb_serde B) m \<and>
              require_output_blobs B st ns (om_stdout m) (om_stderr m) ''cc'' w = (Inr (), w'))
      | KindRustc \<Rightarrow> (case sd_rustc_metadata (lb_serde B) v of Inl _ \<Rightarrow> False
          | Inr m \<Rightarrow> sd_rustc_metadata_validate (lb_serde B) m \<and>
              require_output_blobs B st ns (om_stdout m) (om_stderr m) ''rustc'' w = (Inr (), w'))
      | KindTask \<Rightarrow> (case sd_task_metadata (lb_serde B) v of Inl _ \<Rightarrow> False
          | Inr m \<Rightarrow> TaskMetadata_validate m \<and> list_all (\<lambda>root. validate_task_root root = Inr ()) (tmd_roots m) \<and> w' = w))"

lemma validate_action_iff:
  "validate_build_script_action B v n = Inr kind \<longleftrightarrow> kind = KindBuildScript \<and> n = 2 \<and> descriptor_payload B kind v"
  "validate_cc_action B v n = Inr kind \<longleftrightarrow> kind = KindCc \<and> n = 1 \<and> descriptor_payload B kind v"
  "validate_task_action B v n = Inr kind \<longleftrightarrow> kind = KindTask \<and> n = 1 \<and> descriptor_payload B kind v"
  "validate_rustc_action B v n = Inr kind \<longleftrightarrow> kind = KindRustc \<and> n = 1 \<and> descriptor_payload B kind v"
  by (auto simp: validate_build_script_action_def validate_cc_action_def validate_task_action_def
      validate_rustc_action_def descriptor_payload_def result_simps list_all_iff split: if_splits sum.splits)

text \<open>The schema versions, as the validators have them.\<close>

definition action_schema :: "action_kind \<Rightarrow> u64" where
  "action_schema kind = (if kind = KindBuildScript then 2 else 1)"

lemma json_get_object: "json_get v key = Some x \<Longrightarrow> \<exists>kvs. as_object v = Some kvs"
  by (auto simp: json_get_def bind_eq_Some_conv)

lemma descriptor_kind_iff:
  "descriptor_kind B v = Inr kind \<longleftrightarrow>
     json_get v ''kind'' = Some (JString (expected_kind kind)) \<and>
     json_get v ''version'' = Some (JNumber (PosInt (action_schema kind))) \<and> descriptor_payload B kind v"
  (is "?l \<longleftrightarrow> ?r")
proof
  show ?r if ?l
    using that
    by (auto simp: descriptor_kind_def action_schema_def result_simps bind_eq_Some_conv as_str_Some_iff
        as_u64_Some_iff validate_action_iff split: if_splits)
  show ?l if ?r
    using that json_get_object [of v "''kind''"]
    by (cases kind) (auto simp: descriptor_kind_def action_schema_def ok_or_def validate_action_iff)
qed

lemma validate_metadata_iff:
  "validate_task_metadata B v n = Inr () \<and> w' = w \<longleftrightarrow> n = 1 \<and> metadata_payload B st ns KindTask v w w'"
  "validate_build_script_metadata B st ns v n w = (Inr (), w') \<longleftrightarrow> n = 1 \<and> metadata_payload B st ns KindBuildScript v w w'"
  "validate_cc_metadata B st ns v n w = (Inr (), w') \<longleftrightarrow> n = 1 \<and> metadata_payload B st ns KindCc v w w'"
  "validate_rustc_metadata B st ns v n w = (Inr (), w') \<longleftrightarrow> n = 1 \<and> metadata_payload B st ns KindRustc v w w'"
  by (auto simp: validate_task_metadata_def validate_build_script_metadata_def validate_cc_metadata_def
      validate_rustc_metadata_def metadata_payload_def result_simps prog_simps list_all_iff split: if_splits sum.splits)

lemma validate_client_metadata_iff:
  "validate_client_metadata B st ns d kind w = (Inr (), w') \<longleftrightarrow>
     (\<exists>v u. read_canonical_object B st ns d ''client metadata'' w = (Inr v, u) \<and>
        json_get v ''kind'' = Some (JString (expected_kind kind)) \<and>
        json_get v ''version'' = Some (JNumber (PosInt 1)) \<and> metadata_payload B st ns kind v u w')"
  (is "?l \<longleftrightarrow> ?r")
proof -
  have tail: "(case kind of
          KindTask \<Rightarrow> liftr (validate_task_metadata B v n)
        | KindBuildScript \<Rightarrow> validate_build_script_metadata B st ns v n
        | KindCc \<Rightarrow> validate_cc_metadata B st ns v n
        | KindRustc \<Rightarrow> validate_rustc_metadata B st ns v n) u = (Inr (), w') \<longleftrightarrow>
      n = 1 \<and> metadata_payload B st ns kind v u w'" for v n u
    using validate_metadata_iff(1) [where B = B and v = v and n = n and w' = w' and w = u and st = st and ns = ns]
    by (cases kind) (auto simp: prog_simps validate_metadata_iff(2-4))
  show ?thesis
  proof
    show ?r if ?l
      using that unfolding validate_client_metadata_def
      by (auto simp: prog_simps result_simps bind_eq_Some_conv as_str_Some_iff as_u64_Some_iff tail split: if_splits)
    show ?l if ?r
    proof -
      from that obtain v u where v: "read_canonical_object B st ns d ''client metadata'' w = (Inr v, u)"
        "json_get v ''kind'' = Some (JString (expected_kind kind))"
        "json_get v ''version'' = Some (JNumber (PosInt 1))" "metadata_payload B st ns kind v u w'" by blast
      obtain kvs where "as_object v = Some kvs" using json_get_object [OF v(2)] by blast
      with v show ?thesis
        unfolding validate_client_metadata_def by (auto simp: bindp_def liftr_def ensurep_def ok_def ok_or_def tail)
    qed
  qed
qed

lemma expected_kind_range: "range expected_kind = {''build-script'', ''cc'', ''rustc'', ''task''}"
proof -
  have "k \<in> {KindBuildScript, KindCc, KindRustc, KindTask}" for k by (cases k) auto
  then have "UNIV = {KindBuildScript, KindCc, KindRustc, KindTask}" by blast
  then show ?thesis by (metis (no_types) expected_kind.simps image_empty image_insert)
qed

lemma capability_schema:
  "\<exists>cap. map_of (ca_action_kinds (capabilities B st)) (expected_kind kind) = Some cap \<and>
      ak_action_schema cap = action_schema kind \<and> ak_metadata_schema cap = 1"
  by (cases kind) (simp_all add: capabilities_def action_schema_def)

lemma pack_stream_length:
  assumes "within_limits mb (of_nat n) mp fs" and "n < 2 ^ 64"
  shows "length (pack_stream P fs) \<le> unat mp + length (pack_magic P) + HEADER_BYTES * n"
proof -
  have frames: "length (frame_bytes f) = HEADER_BYTES + length (frame_payload f)" if "f \<in> set fs" for f
    using assms(1) that by (cases f) (auto simp: within_limits_def HEADER_BYTES_def)
  have "(\<Sum>f\<leftarrow>fs. length (frame_bytes f)) = HEADER_BYTES * length fs + payload_total fs"
    using frames by (induction fs) (auto simp: payload_total_def)
  moreover have "HEADER_BYTES * length fs \<le> HEADER_BYTES * n"
    using assms by (intro mult_le_mono2) (simp add: within_limits_def unat_of_nat)
  moreover have "payload_total fs \<le> unat mp" using assms(1) by (simp add: within_limits_def)
  ultimately show ?thesis unfolding pack_stream_def length_append length_concat map_map comp_def by linarith
qed

end
