(* ===== verification/Server_Errors.thy ===== *)
theory Server_Errors
  imports Router Server_Results
begin

text \<open>
  The errors requests end with: what the client is told, and that a blob which is visible is
  not reported as absent.
\<close>

section \<open>What errors say\<close>

text \<open>
  An error that may be sent: an internal error says nothing about its cause, and the protocol
  header accompanies the demand for an upgrade and nothing else.
\<close>

definition discreet :: "api_error \<Rightarrow> bool" where
  "discreet e \<longleftrightarrow>
     (ae_status e = INTERNAL_SERVER_ERROR \<longrightarrow> ae_message e = ''internal server error'') \<and>
     (ae_advertise_protocol e \<longleftrightarrow> ae_status e = UPGRADE_REQUIRED)"

definition fails :: "('e \<Rightarrow> bool) \<Rightarrow> ('s, 'e, 'a) prog \<Rightarrow> bool" where
  "fails E h \<longleftrightarrow> (\<forall>s e s'. h s = (Inl e, s') \<longrightarrow> E e)"

definition refuses :: "('e \<Rightarrow> bool) \<Rightarrow> 'e + 'a \<Rightarrow> bool" where
  "refuses E r \<longleftrightarrow> (\<forall>e. r = Inl e \<longrightarrow> E e)"

named_theorems error_intros

lemma discreet_errors [simp]:
  "discreet (bad_request m)" "discreet (unauthorized m)" "discreet (forbidden m)" "discreet (not_found m)"
  "discreet (conflict m)" "discreet (too_large m)" "discreet (unprocessable m)" "discreet (precondition m)"
  "discreet (precondition_required m)" "discreet upgrade_required" "discreet (internal m)"
  by (simp_all add: discreet_def api_error_defs)

subsection \<open>Results\<close>

lemma refuses_simps [simp]: "refuses E (Inr x)" "refuses E (Inl e) \<longleftrightarrow> E e"
  by (auto simp: refuses_def)

lemma refuses_bind [error_intros]:
  "refuses E r \<Longrightarrow> (\<And>x. refuses E (f x)) \<Longrightarrow> refuses E (bind_result r f)"
  by (cases r) auto

lemma refuses_ok_or [error_intros]: "E e \<Longrightarrow> refuses E (ok_or e x)"
  by (cases x) auto

lemma refuses_map_err [error_intros]: "(\<And>e. E (f e)) \<Longrightarrow> refuses E (map_err f r)"
  by (cases r) auto

lemma refuses_if [error_intros]: "refuses E r \<Longrightarrow> refuses E q \<Longrightarrow> refuses E (if b then r else q)"
  by simp

lemma refuses_for [error_intros]: "(\<And>x. refuses E (f x)) \<Longrightarrow> refuses E (for_result f xs)"
  by (induction xs) (auto intro: refuses_bind)

lemma refuses_requests [simp]:
  "refuses discreet (validate_digest P d)" "refuses discreet (parse_digest P parts)"
  "refuses discreet (parse_action_digest P parts)" "refuses discreet (validate_action_digest P d)"
  "refuses discreet (require_immutable_precondition headers)" "refuses discreet (manifest_precondition headers)"
  "refuses discreet (required_u64_header headers name)" "refuses discreet (to_bytes body n)"
proof -
  show digest: "refuses discreet (validate_digest P d)" for P d by (simp add: validate_digest_def)
  show parse: "refuses discreet (parse_digest P parts)" for P parts
    unfolding parse_digest_def Let_def by (auto intro!: error_intros digest split: prod.split)
  show "refuses discreet (parse_action_digest P parts)"
    unfolding parse_action_digest_def by (auto intro!: error_intros parse)
  show "refuses discreet (validate_action_digest P d)"
    unfolding validate_action_digest_def by (auto intro!: error_intros digest)
  show "refuses discreet (manifest_precondition headers)"
    unfolding manifest_precondition_def by (auto intro!: error_intros)
  show "refuses discreet (required_u64_header headers name)"
    unfolding required_u64_header_def by (auto intro!: error_intros)
qed (auto simp: require_immutable_precondition_def to_bytes_def split: sum.splits)

lemma refuses_descriptor [simp]: "refuses discreet (descriptor_kind B v)"
  unfolding descriptor_kind_def validate_build_script_action_def validate_cc_action_def validate_task_action_def
    validate_rustc_action_def by (auto intro!: error_intros)

lemma refuses_shapes [simp]:
  "refuses discreet (validate_action_result_shape r kind)" "refuses discreet (validate_task_metadata B v n)"
  unfolding validate_action_result_shape_def validate_task_metadata_def
  by (auto intro!: error_intros simp: validate_task_root_def)

lemma refuses_entries: "\<forall>(n, m, x)\<in>set es. refuses discreet x \<Longrightarrow> refuses discreet (validate_entries names es)"
  by (induction names es rule: validate_entries.induct) (auto intro!: error_intros simp: validate_entry_def)

lemma refuses_directory [simp]: "refuses discreet (validate_directory_entries dir)"
  unfolding validate_directory_entries_def by (intro error_intros refuses_entries) auto

lemma refuses_batch [simp]: "refuses discreet (batch_digests B ds requested)"
  by (induction ds arbitrary: requested) (auto intro!: error_intros)

lemma refuses_pack [simp]:
  "refuses discreet (pack_request B n ds k requested)" "refuses discreet (pack_entries B ds p b entries)"
proof -
  have header: "refuses discreet (pack_blob_header B d)" for d
    unfolding pack_blob_header_def by (auto intro!: error_intros)
  show "refuses discreet (pack_request B n ds k requested)"
    by (induction ds arbitrary: k requested) (auto intro!: error_intros)
  show "refuses discreet (pack_entries B ds p b entries)"
    by (induction ds arbitrary: p b entries) (auto intro!: error_intros header)
qed

lemma discreet_pack_error [simp]: "discreet (pack_error_response e)"
  by (cases e) auto

subsection \<open>Programs\<close>

lemma failsD: "fails E h \<Longrightarrow> h s = (Inl e, s') \<Longrightarrow> E e"
  unfolding fails_def by blast

lemma fails_weaken: "fails E h \<Longrightarrow> (\<And>e. E e \<Longrightarrow> F e) \<Longrightarrow> fails F h"
  unfolding fails_def by blast

lemma fails_ok [simp]: "fails E (ok x)"
  by (simp add: fails_def ok_def)

lemma fails_never [simp]:
  "fails E (count f)" "fails E read_clock" "fails E (begin_pack s n k m)"
  "fails E (drop_guard g)" "fails E (record_blob_access st ns ds)"
  by (auto simp: fails_def modifyp_def count_def read_clock_def Let_def begin_pack_def drop_guard_def
      bindp_def record_blob_access_def split: prod.splits)

lemma fails_bindp [error_intros]: "fails E m \<Longrightarrow> (\<And>x. fails E (f x)) \<Longrightarrow> fails E (bindp m f)"
  unfolding fails_def bindp_def by (fastforce split: prod.splits sum.splits)

lemma fails_prims [error_intros]:
  "E e \<Longrightarrow> fails E (throw e)" "refuses E r \<Longrightarrow> fails E (liftr r)" "E e \<Longrightarrow> fails E (ensurep b e)"
  "(\<And>e. E (f e)) \<Longrightarrow> fails E (map_errp f h)"
  by (auto simp: fails_def refuses_def throw_def liftr_def ok_def ensurep_def map_errp_def  map_err_def
      split: prod.splits sum.splits if_splits)

lemma fails_zoom [error_intros]: "fails E h \<Longrightarrow> fails E (zoom get upd h)"
  by (auto simp: fails_def zoom_def split: prod.splits)

lemma fails_for [error_intros]: "(\<And>x. fails E (f x)) \<Longrightarrow> fails E (for_prog f xs)"
  by (induction xs) (auto intro: fails_bindp)

lemma fails_if [error_intros]: "fails E h \<Longrightarrow> fails E k \<Longrightarrow> fails E (if b then h else k)"
  by simp

lemma fails_option [error_intros]: "fails E h \<Longrightarrow> (\<And>x. fails E (f x)) \<Longrightarrow> fails E (case v of None \<Rightarrow> h | Some x \<Rightarrow> f x)"
  by (cases v) auto

lemma fails_try [error_intros]:
  "(\<And>v. fails E (f v)) \<Longrightarrow> (\<And>e. fails E (g e)) \<Longrightarrow>
     fails E (\<lambda>w. case m w of (Inr v, w') \<Rightarrow> f v w' | (Inl e, w') \<Rightarrow> g e w')"
  unfolding fails_def by (fastforce split: prod.splits sum.splits)

definition refused_access :: "api_error \<Rightarrow> bool" where
  "refused_access e \<longleftrightarrow> discreet e \<and> ae_status e \<in> {UPGRADE_REQUIRED, BAD_REQUEST, UNAUTHORIZED, FORBIDDEN}"

lemma refused_access_errors [simp]:
  "refused_access (bad_request m)" "refused_access (unauthorized m)" "refused_access (forbidden m)"
  "refused_access upgrade_required"
  by (simp_all add: refused_access_def) (simp_all add: api_error_defs)

lemma fails_authorized [simp]: "fails refused_access (authorized B st headers access)"
  unfolding authorized_def authorize_def authorize_namespace_def authorize_token_def
  by (intro error_intros) (auto intro!: error_intros simp: authorize_patterns_def)

lemma fails_authorized_discreet [simp]: "fails discreet (authorized B st headers access)"
  by (rule fails_weaken [OF fails_authorized]) (simp add: refused_access_def)

lemma fails_store [simp]:
  "fails discreet (blob_visible st ns d)" "fails discreet (store_get st d)" "fails discreet temp_io"
  "fails discreet (algorithm_of B d)" "fails discreet (publish_blob st ns d spooled)"
  "fails discreet (finish_upload B st ns d u mismatch)"
proof -
  show io: "fails discreet temp_io"
    by (auto simp: fails_def temp_io_def split: list.splits option.splits)
  show alg: "fails discreet (algorithm_of B d)" for B d
    unfolding algorithm_of_def by (intro error_intros) simp
  show publish: "fails discreet (publish_blob st ns d spooled)" for st :: "('a, 'b) app_state" and ns d spooled
    unfolding publish_blob_def by (auto intro!: error_intros)
  show "fails discreet (finish_upload B st ns d u mismatch)"
    unfolding finish_upload_def by (auto intro!: error_intros io alg publish)
qed (auto simp: blob_visible_def store_get_def intro!: error_intros)

subsection \<open>Handlers\<close>

lemma fails_uploads [simp]:
  "fails discreet (receive_body B st d body u)" "fails discreet (pack_event_steps B st ns es p)"
  "fails discreet (receive_pack B st ns xs r p)"
proof -
  show "fails discreet (receive_body B st d body u)"
    by (induction B st d body u rule: receive_body.induct) (auto intro!: error_intros)
  have event: "fails discreet (pack_event_step B st ns e p)" for st :: "('a, 'b) app_state" and e p
    by (cases e) (auto intro!: error_intros simp: PackFrame_new_def PackFrame_write_def PackFrame_store_def Let_def)
  show steps: "fails discreet (pack_event_steps B st ns es p)" for st :: "('a, 'b) app_state" and es p
    by (induction es arbitrary: p) (auto intro!: error_intros event)
  show "fails discreet (receive_pack B st ns xs r p)"
  proof (induction xs arbitrary: r p)
    case (Cons x xs)
    then show ?case by (cases x) (auto intro!: error_intros steps split: prod.split sum.split)
  qed simp
qed

lemma fails_objects [simp]:
  "fails discreet (read_object st d e)" "fails discreet (require_blob B st ns d label)"
  "fails discreet (read_directory B st ns d)" "fails discreet (read_canonical_object B st ns d label)"
  "fails discreet (validate_action_descriptor B st ns d)" "fails discreet (validate_client_metadata B st ns d kind)"
proof -
  show obj: "fails discreet (read_object st d e)" for st :: "('a, 'b) app_state" and d e
    unfolding read_object_def by (auto intro!: error_intros)
  show req: "fails discreet (require_blob B st ns d label)" for B and st :: "('a, 'b) app_state" and ns d label
    unfolding require_blob_def by (auto intro!: error_intros)
  show "fails discreet (read_directory B st ns d)"
    unfolding read_directory_def by (auto intro!: error_intros obj req)
  show can: "fails discreet (read_canonical_object B st ns d label)" for B and st :: "('a, 'b) app_state" and ns d label
    unfolding read_canonical_object_def by (auto intro!: error_intros obj)
  show "fails discreet (validate_action_descriptor B st ns d)"
    unfolding validate_action_descriptor_def by (auto intro!: error_intros can)
  show "fails discreet (validate_client_metadata B st ns d kind)"
    unfolding validate_client_metadata_def validate_build_script_metadata_def validate_cc_metadata_def
      validate_rustc_metadata_def require_output_blobs_def
    by (auto intro!: error_intros can req split: action_kind.split)
qed

lemma fails_tree [simp]: "fails discreet (validate_tree B st ns rt)"
proof -
  have round: "fails discreet (tree_round B st ns s)" for ns s
    by (cases "(B, st, ns, s)" rule: tree_round.cases) (auto intro!: error_intros)
  have "tree_loop B st ns s w = (Inl e, w') \<Longrightarrow> discreet e" for s w e w'
  proof (induction L \<equiv> B t \<equiv> st ns s w rule: tree_loop.induct)
    case (1 ns s w)
    from "1.prems" show ?case
      by (subst (asm) tree_loop.simps)
        (auto split: prod.splits sum.splits option.splits intro: "1.hyps" failsD [OF round])
  qed
  then show ?thesis by (auto simp: fails_def validate_tree_def)
qed

lemma fails_pack_blobs: "fails discreet (pack_blobs B st headers request)"
proof -
  have visible: "fails discreet (pack_visible_blobs st ns requested)" for ns requested
    unfolding pack_visible_blobs_def by (auto intro!: error_intros)
  have entries: "discreet e" if "pack_entries B ds p b es = Inl e" for ds p b es e
    using refuses_pack(2) that unfolding refuses_def by blast
  show ?thesis
    unfolding pack_blobs_def by (auto intro!: error_intros visible dest: entries split: sum.split)
qed

lemma fails_serve: "fails discreet (serve B st headers req)"
proof (cases req)
  case (Pack_blobs q schedule demand)
  have "fails discreet (run_pack_stream B st schedule demand resp)" for resp
    by (auto simp: fails_def run_pack_stream_def split: prod.splits)
  with Pack_blobs show ?thesis by (simp add: fails_bindp [OF fails_pack_blobs])
next
  case Get_metrics
  then show ?thesis by (auto simp: metrics_page_def fails_def prog_simps map_err_def split: sum.splits)
next
  case (Put_action_manifest parts body)
  then show ?thesis
    by (auto simp: put_action_manifest_def Let_def intro!: error_intros split: manifest_commit_outcome.split)
qed (auto simp: get_blob_def put_blob_def put_blob_pack_def missing_blobs_def get_action_result_def
    batch_action_results_def put_action_result_def get_action_manifest_def intro!: error_intros
    split: option.split commit_outcome.split)

section \<open>Access\<close>

text \<open>The access a request needs; probes need none.\<close>

fun required_access :: "request \<Rightarrow> access option" where
  "required_access Status = None"
| "required_access Get_capabilities = None"
| "required_access (Get_blob parts) = Some Read"
| "required_access (Put_blob parts body) = Some Write"
| "required_access (Put_blob_pack body) = Some Write"
| "required_access (Missing_blobs request) = Some Read"
| "required_access (Pack_blobs request schedule demand) = Some Read"
| "required_access (Get_action_result parts) = Some Read"
| "required_access (Put_action_result parts result) = Some Write"
| "required_access (Batch_action_results request) = Some Read"
| "required_access (Get_action_manifest parts) = Some Read"
| "required_access (Put_action_manifest parts body) = Some Write"
| "required_access Get_metrics = None"

text \<open>A program that stops with a refusal before it touches a store.\<close>

definition turned_away :: "('b, 'm, 'a) handler \<Rightarrow> bool" where
  "turned_away h \<longleftrightarrow> (\<forall>w x w'. h w = (x, w') \<longrightarrow>
     (\<exists>e. x = Inl e \<and> refused_access e) \<and> w_blobs w' = w_blobs w \<and> w_meta w' = w_meta w)"

lemma turned_away_bindp [simp]: "turned_away m \<Longrightarrow> turned_away (bindp m f)"
  unfolding turned_away_def bindp_def by (fastforce split: prod.splits sum.splits)

lemma turned_away_clock [simp]: "(\<And>x. turned_away (f x)) \<Longrightarrow> turned_away (bindp read_clock f)"
  unfolding turned_away_def by (fastforce simp: bindp_def read_clock_def Let_def)

lemma turned_away_authorized:
  assumes "\<And>s. isl (fst (authorize (lb_jwt B) (lb_network B) (st_auth st) headers access s))"
  shows "turned_away (authorized B st headers access)"
  unfolding turned_away_def
proof (intro allI impI)
  fix w x w'
  assume run: "authorized B st headers access w = (x, w')"
  then have "x = fst (authorize (lb_jwt B) (lb_network B) (st_auth st) headers access (w_auth w))"
    "w_blobs w' = w_blobs w" "w_meta w' = w_meta w"
    by (auto simp: authorized_def zoom_def split: prod.splits)
  moreover from this assms obtain e where "x = Inl e" by (metis isl_def)
  moreover from this run failsD [OF fails_authorized] have "refused_access e" by blast
  ultimately show "(\<exists>e. x = Inl e \<and> refused_access e) \<and> w_blobs w' = w_blobs w \<and> w_meta w' = w_meta w" by blast
qed

lemma turned_away_serve:
  assumes "required_access req = Some access"
    and "\<And>s. isl (fst (authorize (lb_jwt B) (lb_network B) (st_auth st) headers access s))"
  shows "turned_away (serve B st headers req)"
  using assms turned_away_authorized [OF assms(2)]
  by (cases req) (auto simp: get_blob_def put_blob_def put_blob_pack_def missing_blobs_def get_action_result_def
      batch_action_results_def put_action_result_def get_action_manifest_def put_action_manifest_def pack_blobs_def)

section \<open>What is there is found\<close>

text \<open>\<open>etriple B K A h E Q\<close>: a triple whose errors, from a world where \<open>A\<close> holds, satisfy \<open>E\<close>.\<close>

definition etriple ::
  "libraries \<Rightarrow> ('b, 'm) backend \<Rightarrow> (('b, 'm) world \<Rightarrow> bool) \<Rightarrow> (('b, 'm) world, 'e, 'a) prog
     \<Rightarrow> ('e \<Rightarrow> bool) \<Rightarrow> ('a \<Rightarrow> ('b, 'm) world \<Rightarrow> bool) \<Rightarrow> bool" where
  "etriple B K A h E Q \<longleftrightarrow>
     triple B K A h Q \<and> (\<forall>w e w'. world_ok B K w \<longrightarrow> A w \<longrightarrow> h w = (Inl e, w') \<longrightarrow> E e)"

lemma etriple_bindp:
  assumes "etriple B K A m E Q" and "\<And>x. etriple B K (Q x) (f x) E R"
  shows "etriple B K A (bindp m f) E R"
proof -
  have "triple B K A (bindp m f) R" using assms triple_bindp unfolding etriple_def by blast
  moreover have "E e" if w: "world_ok B K w" "A w" "bindp m f w = (Inl e, w')" for w e w'
  proof (cases "m w")
    case (Pair r v)
    show ?thesis
    proof (cases r)
      case (Inl e')
      with w Pair assms(1) show ?thesis by (auto simp: etriple_def)
    next
      case (Inr x)
      with w Pair assms(1) have "world_ok B K v" "Q x v" unfolding etriple_def triple_def by blast+
      moreover from w(3) Pair Inr have "f x v = (Inl e, w')" by simp
      ultimately show ?thesis using assms(2) unfolding etriple_def by blast
    qed
  qed
  ultimately show ?thesis unfolding etriple_def by blast
qed

lemma etriple_fails: "triple B K A h Q \<Longrightarrow> fails E h \<Longrightarrow> etriple B K A h E Q"
  unfolding etriple_def fails_def by blast

lemma etriple_ensurep: "(\<And>w. A w \<Longrightarrow> b) \<Longrightarrow> etriple B K A (ensurep b e) E (\<lambda>_ w. b \<and> A w)"
  unfolding etriple_def by (intro conjI triple_ensurep) (auto simp: ensurep_def ok_def)

lemma etriple_pre: "(b \<Longrightarrow> etriple B K A h E Q) \<Longrightarrow> etriple B K (\<lambda>w. b \<and> A w) h E Q"
  unfolding etriple_def triple_def by blast

lemma etriple_liftr: "(\<And>w e. A w \<Longrightarrow> r = Inl e \<Longrightarrow> E e) \<Longrightarrow> etriple B K A (liftr r) E (\<lambda>x w. r = Inr x \<and> A w)"
  unfolding etriple_def by (auto simp: triple_liftr liftr_def)

definition present :: "api_error \<Rightarrow> bool" where
  "present e \<longleftrightarrow> ae_status e \<noteq> NOT_FOUND"

lemma present_errors [simp]: "present (bad_request m)" "present (internal m)" "refused_access e \<Longrightarrow> present e"
  by (auto simp: present_def refused_access_def api_error_defs)

lemma refuses_present [simp]: "refuses present (parse_digest P parts)" "refuses present (parse_action_digest P parts)"
  by (auto simp: parse_action_digest_def parse_digest_def validate_digest_def Let_def intro!: error_intros split: prod.split)

context cache_server
begin

lemma triple_blob_visible_exact:
  assumes "lasting K A"
  shows "triple B K A (blob_visible st ns d) (\<lambda>v w. A w \<and> v = ((ns, d) \<in> w_held K w))"
proof -
  have "triple B K A (on_meta (ms_blob_visible (st_metadata st) ns d))
      (\<lambda>v w. A w \<and> (v = ((ns, d) \<in> v_blobs (bk_view K (w_meta w)))))"
    by (rule triple_meta_read [OF _ assms]) (use md.blob_visible in fastforce)
  then show ?thesis
    unfolding blob_visible_def by (rule triple_weaken [OF triple_map_errp]) (auto simp: w_held_def)
qed

lemma etriple_get_blob:
  assumes "headers ''mbx-cache-namespace'' = Some ns"
  shows "etriple B K (\<lambda>w. (ns, \<lparr>dg_algorithm = alg, dg_hash = hash, dg_size = n\<rparr>) \<in> w_held K w)
    (get_blob B st headers (alg, hash, n)) present (\<lambda>_ _. True)"
proof -
  let ?d = "\<lparr>dg_algorithm = alg, dg_hash = hash, dg_size = n\<rparr>"
  let ?H = "\<lambda>w. (ns, ?d) \<in> w_held K w"
  have last: "lasting K ?H" by (intro lasting_intros)
  have visible: "etriple B K ?H (blob_visible st ns ?d) present (\<lambda>v w. v \<and> ?H w)"
    by (rule etriple_fails [OF triple_post [OF triple_blob_visible_exact [OF last]]])
      (auto simp: blob_visible_def intro!: error_intros)
  have found: "etriple B K ?H (store_get st ?d) present (\<lambda>x w. \<exists>blob. x = Some blob)"
    by (rule etriple_fails [OF triple_post [OF triple_store_get [OF last]]])
      (auto simp: store_get_def intro!: error_intros)
  have rest: "etriple B K ?H (bindp (blob_visible st ns ?d) (\<lambda>visible.
     bindp (ensurep visible (not_found ''blob not found'')) (\<lambda>_.
     bindp (record_blob_access st ns [?d]) (\<lambda>_.
     bindp (store_get st ?d) (\<lambda>found.
     bindp (liftr (ok_or (not_found ''blob not found'') found)) (\<lambda>blob.
     bindp (count inc_blob_hit) (\<lambda>_. ok (response blob)))))))) present (\<lambda>_ _. True)" for response
    by (rule etriple_bindp [OF visible], rule etriple_bindp, rule etriple_ensurep, blast,
        rule etriple_bindp [OF etriple_fails [OF triple_weaken [OF triple_record_access [OF last]]]],
        blast, assumption, simp, rule etriple_bindp [OF found], rule etriple_bindp, rule etriple_liftr, force,
        rule etriple_fails [OF triple_bindp [OF triple_count [OF lasting_const]]], rule triple_ok_post)
      (auto intro!: error_intros)
  show ?thesis
    unfolding get_blob_def
    apply (rule etriple_bindp, rule etriple_fails [OF triple_authorized_ns [OF last]])
     apply (rule fails_weaken [OF fails_authorized], simp)
    apply (rule etriple_bindp, rule etriple_fails [OF triple_liftr], rule fails_prims(2), simp)
    apply (intro etriple_pre)
    using rest assms by (simp add: parse_digest_Inr_iff)
qed

lemma etriple_get_action_result:
  assumes "headers ''mbx-cache-namespace'' = Some ns"
  shows "etriple B K (\<lambda>w. v_results (bk_view K (w_meta w)) (ns, \<lparr>dg_algorithm = alg, dg_hash = hash, dg_size = n\<rparr>) = Some r)
    (get_action_result B st headers (alg, hash, n)) present (\<lambda>res _. res = r)"
proof -
  let ?d = "\<lparr>dg_algorithm = alg, dg_hash = hash, dg_size = n\<rparr>"
  let ?H = "\<lambda>w. v_results (bk_view K (w_meta w)) (ns, ?d) = Some r"
  have last: "lasting K ?H" by (intro lasting_intros)
  have "triple B K ?H (on_meta (ms_get (st_metadata st) ns ?d))
      (\<lambda>x w. ?H w \<and> x = v_results (bk_view K (w_meta w)) (ns, ?d))"
    by (rule triple_meta_read [OF _ last]) (use md.get in blast)
  then have "triple B K ?H (map_errp internal (on_meta (ms_get (st_metadata st) ns ?d))) (\<lambda>x w. x = Some r)"
    by (rule triple_post [OF triple_map_errp]) simp
  then have found: "etriple B K ?H (map_errp internal (on_meta (ms_get (st_metadata st) ns ?d))) present
      (\<lambda>x w. x = Some r \<and> True)"
    by (intro etriple_fails) (auto intro!: error_intros)
  have rest: "etriple B K ?H (bindp (map_errp internal (on_meta (ms_get (st_metadata st) ns ?d))) (\<lambda>found.
       case found of
         Some result \<Rightarrow> bindp (count inc_action_hit) (\<lambda>_. ok result)
       | None \<Rightarrow> bindp (count inc_action_miss) (\<lambda>_. throw (not_found ''action result not found''))))
     present (\<lambda>res _. res = r)"
    by (rule etriple_bindp [OF found], rule etriple_pre, simp,
        rule etriple_fails [OF triple_bindp [OF triple_count [OF lasting_const]]], rule triple_ok_post)
      (auto intro!: error_intros)
  show ?thesis
    unfolding get_action_result_def
    apply (rule etriple_bindp, rule etriple_fails [OF triple_authorized_ns [OF last]])
     apply (rule fails_weaken [OF fails_authorized], simp)
    apply (rule etriple_bindp, rule etriple_fails [OF triple_liftr], rule fails_prims(2), simp)
    apply (intro etriple_pre)
    using rest assms by (simp add: parse_action_digest_Inr_iff)
qed

end

end
