(* ===== verification/Service.thy ===== *)
theory Service
  imports Filesystem Memory Server_Packs Server_Serving Pack_Accounts Server_Errors
begin

text \<open>
  The service as a whole: every request keeps the invariant of theory \<^verbatim>\<open>Server_Invariant\<close> and
  loses nothing, for every pair of back ends, and the pair of the filesystem store and the
  memory metadata is such a pair.
\<close>

section \<open>Every request\<close>

text \<open>The documented formats and limits the pack handlers need besides.\<close>

locale packing_server = cache_server +
  assumes hex: "hex_documented (lb_protocol B)"
    and magic: "magic_documented (lb_protocol B)"
    and batch: "max_batch_items (lb_protocol B) = 10000"
    and limit: "unat (st_max_blob_bytes st) < 2 ^ 63"
begin

lemma triple_answer: "triple B K A h Q \<Longrightarrow> triple B K A (bindp h (\<lambda>x. ok (f x))) (\<lambda>_ _. True)"
  by (erule triple_bindp) (rule triple_ok_post, simp)

lemma triple_run_pack_stream:
  "triple B K (\<lambda>w. \<exists>ns. announces B K ns resp w) (run_pack_stream B st schedule demand resp) (\<lambda>_ _. True)"
  unfolding triple_def
proof (intro allI impI, elim exE)
  fix w r w' ns
  assume w: "world_ok B K w" "run_pack_stream B st schedule demand resp w = (r, w')" "announces B K ns resp w"
  obtain x sent v where run: "stream_pack B st resp schedule demand w = (x, sent, v)" by (metis prod.collapse)
  with w(2) have "w' = v" by (simp add: run_pack_stream_def)
  with stream_pack_flows [OF w(1) announced_contents(1) [OF w(1,3)] run]
  show "world_ok B K w' \<and> w_grows K w w' \<and> (\<forall>x. r = Inr x \<longrightarrow> True)" by blast
qed

lemma triple_metrics_page: "triple B K (\<lambda>_. True) (metrics_page B) (\<lambda>_ _. True)"
  unfolding triple_def by (auto simp: metrics_page_def liftr_def bindp_def ok_def split: sum.splits)

lemma triple_serve: "triple B K (\<lambda>_. True) (serve B st headers req) (\<lambda>_ _. True)"
proof (cases req)
  case (Pack_blobs q schedule demand)
  show ?thesis
    unfolding Pack_blobs serve.simps
    by (rule triple_bindp [OF triple_weaken [OF triple_pack_blobs [where H = "{}", OF magic]]],
        simp, assumption, rule triple_weaken [OF triple_run_pack_stream]) blast+
next
  case (Put_blob_pack body)
  show ?thesis
    unfolding Put_blob_pack serve.simps
    by (rule triple_answer [OF triple_put_blob_pack [OF hex magic batch limit]])
next
  case (Get_blob parts)
  then show ?thesis by (cases parts) (simp, rule triple_answer [OF triple_get_blob])
next
  case (Put_blob parts body)
  then show ?thesis by (cases parts) (simp, rule triple_answer [OF triple_put_blob])
next
  case (Get_action_result parts)
  then show ?thesis by (cases parts) (simp, rule triple_answer [OF triple_get_action_result])
next
  case (Put_action_result parts result)
  then show ?thesis by (cases parts) (simp, rule triple_answer [OF triple_put_action_result])
next
  case (Put_action_manifest parts body)
  then show ?thesis by (cases parts) (simp, rule triple_answer [OF triple_put_action_manifest])
qed (auto intro!: triple_answer triple_ok_post
    intro: triple_missing_blobs triple_batch_action_results triple_get_action_manifest triple_metrics_page)

lemma serve_keeps:
  "world_ok B K w \<Longrightarrow> world_ok B K (snd (serve B st headers req w)) \<and> w_grows K w (snd (serve B st headers req w))"
  using triple_serve unfolding triple_def by (metis prod.collapse)

lemma serve_all_keeps:
  "world_ok B K w \<Longrightarrow> world_ok B K (serve_all B st reqs w) \<and> w_grows K w (serve_all B st reqs w)"
proof (induction reqs arbitrary: w)
  case (Cons q reqs)
  obtain headers req where q: "q = (headers, req)" by force
  note step = serve_keeps [OF Cons.prems, of headers req]
  from Cons.IH [OF conjunct1 [OF step]] step show ?case unfolding q serve_all.simps by (blast intro: w_grows_trans)
qed simp

end

section \<open>The filesystem store with the memory metadata\<close>

definition fs_memory_backend :: "protocol \<Rightarrow> filesystem_store \<Rightarrow> result_codec \<Rightarrow> (fs, memory_metadata) backend" where
  "fs_memory_backend P self C =
     \<lparr>bk_content = fs_content P self, bk_foreign = fs_foreign P self, bk_view = memory_view C, bk_inv = memory_inv C\<rparr>"

lemma fs_memory_server:
  assumes "digests_documented (lb_protocol B)" and "hashes_documented (lb_hash B)" and "codec_documented C"
    and "st_blobs st = filesystem_blob_store (lb_protocol B) self" and "st_metadata st = memory_metadata_store C"
  shows "cache_server B st (fs_memory_backend (lb_protocol B) self C)"
  using blob_store_laws_mono [OF filesystem_laws [OF assms(1)], of "verified B"] memory_laws [OF assms(3)] assms
  by (simp add: cache_server_def fs_memory_backend_def)

end
