(* ===== verification/Service_Example.thy ===== *)
theory Service_Example
  imports Service "HOL-Library.Code_Target_Nat"
begin

text \<open>
  A small instance of the service for the witnesses: one open namespace, the filesystem store
  and the memory metadata, a stand-in for the hash functions that pads its input, and a
  serialisation that knows one task descriptor, one directory and one manifest.
\<close>

section \<open>Libraries\<close>

definition reference_hash :: "bytes \<Rightarrow> string" where
  "reference_hash bs = take 64 (reference_hex_encode bs @ replicate 64 (CHR ''0''))"

definition reference_hash_library :: hash_library where
  "reference_hash_library =
     \<lparr>blake3_hex = (\<lambda>cs. reference_hash (concat cs)),
      sha256_finalize = (\<lambda>cs. take 32 (concat cs @ replicate 32 0)),
      blake3_hash_hex = reference_hash\<rparr>"

lemma reference_hashes_documented: "hashes_documented reference_hash_library"
  by (simp add: hashes_documented_def reference_hash_library_def)

definition digest_of :: "bytes \<Rightarrow> digest" where
  "digest_of bs = \<lparr>dg_algorithm = ''blake3'', dg_hash = reference_hash bs, dg_size = of_nat (length bs)\<rparr>"

definition path_of :: "digest \<Rightarrow> digest_path" where
  "path_of d = (dg_algorithm d, dg_hash d, dg_size d)"

definition file_bytes :: bytes where "file_bytes = [65, 66]"
definition directory_bytes :: bytes where "directory_bytes = [1]"
definition task_bytes :: bytes where "task_bytes = [2]"
definition manifest_bytes :: bytes where "manifest_bytes = [3]"

definition example_directory :: directory where
  "example_directory =
     \<lparr>dir_version = 1, dir_directories = [],
      dir_files = [\<lparr>fn_name = ''out.rlib'', fn_mode = 0x1A4, fn_digest = digest_of file_bytes, fn_executable = False\<rparr>],
      dir_symlinks = []\<rparr>"

definition example_task_json :: json where
  "example_task_json =
     JObject ((''kind'', JString ''task'') # (''version'', JNumber (PosInt 1)) #
       map (\<lambda>f. (f, JNull)) task_action_fields)"

definition example_task_action :: task_action where
  "example_task_action =
     \<lparr>ta_version = 1, ta_kind = ''task'', ta_task = ''build'', ta_phase = PhaseNormal, ta_run = [Script ''make''],
      ta_args = [], ta_shell = None, ta_outputs = [''out''], ta_root = ''app'', ta_source_hash = ''h'',
      ta_dependency_keys = [], ta_environment = [], ta_command_inputs = [], ta_vars = [], ta_tools = [],
      ta_os = ''linux'', ta_arch = ''x64''\<rparr>"

definition example_serde :: serde where
  "example_serde =
     \<lparr>sd_directory_from_slice = (\<lambda>bs. if bs = directory_bytes then Inr example_directory else Inl ''syntax''),
      sd_directory_to_vec = (\<lambda>_. Inr directory_bytes),
      sd_value_from_slice = (\<lambda>bs. if bs = task_bytes then Inr example_task_json else Inl ''syntax''),
      sd_value_to_vec = (\<lambda>_. Inr task_bytes),
      sd_build_script_action = (\<lambda>_. Inl ''type''), sd_cc_action = (\<lambda>_. Inl ''type''),
      sd_task_action = (\<lambda>_. Inr example_task_action), sd_rustc_action = (\<lambda>_. Inl ''type''),
      sd_build_script_metadata = (\<lambda>_. Inl ''type''), sd_cc_metadata = (\<lambda>_. Inl ''type''),
      sd_task_metadata = (\<lambda>_. Inl ''type''), sd_rustc_metadata = (\<lambda>_. Inl ''type''),
      sd_cc_metadata_validate = (\<lambda>_. False), sd_rustc_metadata_validate = (\<lambda>_. False),
      sd_manifest_from_slice = (\<lambda>bs. if bs = manifest_bytes then Inr example_manifest else Inl ''syntax''),
      sd_manifest_validate = (\<lambda>_. True),
      sd_selector_digest = (\<lambda>_. digest_of task_bytes),
      sd_canonical_json = (\<lambda>_. Inr manifest_bytes)\<rparr>"

definition example_libraries :: libraries where
  "example_libraries =
     \<lparr>lb_protocol = reference_protocol, lb_serde = example_serde, lb_hash = reference_hash_library,
      lb_jwt = example_library, lb_network = example_network,
      lb_pack_blobs_header = ''mbx-cache-pack-blobs'', lb_pack_bytes_header = ''mbx-cache-pack-bytes'',
      lb_pack_media_type = ''pack'', lb_pack_receipt_media_type = ''receipt'',
      lb_action_batch_media_type = ''batch'', lb_manifest_media_type = ''manifest'',
      lb_protocol_version = 1, lb_encode_metrics = (\<lambda>_. Inr ''# EOF'')\<rparr>"

text \<open>A result of the example task, with the directory as its output.\<close>

definition example_result :: action_result where
  "example_result =
     \<lparr>ar_version = 1, ar_action = digest_of task_bytes, ar_metadata = None, ar_output_root = Some (digest_of directory_bytes)\<rparr>"

text \<open>An encoding of results in which that of the example is short.\<close>

definition example_codec :: result_codec where
  "example_codec =
     \<lparr>result_to_vec = (\<lambda>r. if r = example_result then Inr [0]
        else bind_result (result_to_vec reference_codec r) (\<lambda>bs. Inr (1 # bs))),
      result_from_slice = (\<lambda>bs. if bs = [0] then Inr example_result else result_from_slice reference_codec (tl bs))\<rparr>"

lemma example_codec_documented: "codec_documented example_codec"
  using reference_codec_documented
  by (auto simp: codec_documented_def example_codec_def result_simps split: if_splits)

lemma example_hash [simp]: "blake3_hash_hex (lb_hash example_libraries) = reference_hash"
  by (simp add: example_libraries_def reference_hash_library_def)

lemma example_protocol [simp]: "lb_protocol example_libraries = reference_protocol"
  by (simp add: example_libraries_def)

section \<open>State\<close>

definition open_authorizer :: authorizer where
  "open_authorizer = \<lparr>au_grants = [], au_oidc = [], au_allow_anonymous = True, au_anonymous_read_namespaces = []\<rparr>"

definition example_state :: "(fs, memory_metadata) app_state" where
  "example_state =
     AppState_new (filesystem_blob_store reference_protocol example_store) (memory_metadata_store example_codec)
       open_authorizer 1024"

definition example_backend :: "(fs, memory_metadata) backend" where
  "example_backend = fs_memory_backend reference_protocol example_store example_codec"

definition empty_world :: "(fs, memory_metadata) world" where
  "empty_world =
     \<lparr>w_blobs = \<lparr>fs_files = Map.empty, fs_schedule = [], fs_faults = [], fs_streams = []\<rparr>,
      w_meta = MemoryMetadata_default, w_auth = example_auth_state 0, w_metrics = Metrics_new,
      w_faults = [], w_ticks = [5, 7], w_env = []\<rparr>"

definition team_headers :: header_map where
  "team_headers = [''mbx-cache-protocol'' \<mapsto> ''1'', ''mbx-cache-namespace'' \<mapsto> ''team'', ''if-none-match'' \<mapsto> ''*'',
                   ''mbx-cache-pack-blobs'' \<mapsto> ''1'', ''mbx-cache-pack-bytes'' \<mapsto> ''2'']"

definition upload_of :: "bytes \<Rightarrow> header_map \<times> request" where
  "upload_of bs = (team_headers, Put_blob (path_of (digest_of bs)) [Inr bs])"

interpretation ex: packing_server example_libraries example_state example_backend
proof -
  have "cache_server example_libraries example_state example_backend"
    using fs_memory_server [where B = example_libraries and st = example_state and self = example_store
        and C = example_codec]
    by (simp add: example_libraries_def example_state_def AppState_new_def reference_hashes_documented
        example_codec_documented reference_protocol_documented example_backend_def)
  then show "packing_server example_libraries example_state example_backend"
    by (simp add: packing_server_def packing_server_axioms_def example_libraries_def example_state_def AppState_new_def
        reference_protocol_documented) (simp add: reference_protocol_def)
qed

lemma empty_world_ok: "world_ok example_libraries example_backend empty_world"
  by (simp add: world_ok_def stores_def sys_ok_def all_content_def example_backend_def fs_memory_backend_def
      empty_world_def fs_content_def fs_foreign_def memory_view_def memory_inv_def MemoryMetadata_default_def
      split: sum.split)

section \<open>Runs\<close>

text \<open>A run that does not end in an error ends in a value.\<close>

lemma succeeds: "\<not> isl (fst p) \<Longrightarrow> p = (Inr (projr (fst p)), snd p)"
  by (cases p; cases "fst p") auto

definition uploaded :: "bytes \<Rightarrow> (fs, memory_metadata) world \<Rightarrow> (fs, memory_metadata) world" where
  "uploaded bs w = snd (put_blob example_libraries example_state team_headers (path_of (digest_of bs)) [Inr bs] w)"

lemma uploaded_ok: "world_ok example_libraries example_backend w \<Longrightarrow> world_ok example_libraries example_backend (uploaded bs w)"
  using ex.serve_keeps [of w team_headers "Put_blob (path_of (digest_of bs)) [Inr bs]"]
  by (auto simp: uploaded_def bindp_def ok_def split: prod.splits sum.splits)

definition file_world :: "(fs, memory_metadata) world" where
  "file_world = uploaded file_bytes empty_world"

definition stocked_world :: "(fs, memory_metadata) world" where
  "stocked_world = uploaded task_bytes (uploaded directory_bytes file_world)"

lemma example_worlds_ok:
  "world_ok example_libraries example_backend file_world" "world_ok example_libraries example_backend stocked_world"
  by (auto simp: file_world_def stocked_world_def intro!: uploaded_ok empty_world_ok)

text \<open>The pack of the file, as an upload may arrive from the network.\<close>

definition packed_file :: stream where
  "packed_file =
     map Inr [as_bytes ''MBXPACK1'' @ [1, 65], 66 # replicate 30 0, [0, 0, 0, 0, 0, 0, 0, 2, 65], [66]]"

definition pack_of_file :: "(api_error + pack_response) \<times> (fs, memory_metadata) world" where
  "pack_of_file =
     pack_blobs example_libraries example_state team_headers \<lparr>mq_digests = [digest_of file_bytes]\<rparr> file_world"

definition stream_of_file :: "(stop + unit) \<times> bytes list \<times> (fs, memory_metadata) world" where
  "stream_of_file =
     (case pack_of_file of (x, w) \<Rightarrow> stream_pack example_libraries example_state (projr x) [[0]] None w)"

lemma pack_of_file_runs:
  "(case pack_of_file of (x, w) \<Rightarrow>
      (map_sum id (\<lambda>resp. map snd (pk_entries resp)) x,
       fs_content reference_protocol example_store (w_blobs w) (digest_of file_bytes))) =
     (Inr [digest_of file_bytes], Some file_bytes)"
  by code_simp

lemma stream_of_file_runs: "fst stream_of_file = Inr ()"
  by code_simp

lemma example_content: "w_content example_backend w = fs_content reference_protocol example_store (w_blobs w)"
  by (simp add: w_content_def example_backend_def fs_memory_backend_def)

lemma pack_of_file_facts:
  "pack_of_file = (Inr (projr (fst pack_of_file)), snd pack_of_file)"
  "map snd (pk_entries (projr (fst pack_of_file))) = [digest_of file_bytes]"
  "w_content example_backend (snd pack_of_file) (digest_of file_bytes) = Some file_bytes"
  "stream_pack example_libraries example_state (projr (fst pack_of_file)) [[0]] None (snd pack_of_file) =
     (Inr (), snd stream_of_file)"
proof -
  obtain x w where p: "pack_of_file = (x, w)" by (rule prod.exhaust)
  note run = pack_of_file_runs [unfolded p prod.case prod.inject]
  then obtain resp where x: "x = Inr resp" "map snd (pk_entries resp) = [digest_of file_bytes]"
    by (cases x) auto
  show "pack_of_file = (Inr (projr (fst pack_of_file)), snd pack_of_file)"
    and "map snd (pk_entries (projr (fst pack_of_file))) = [digest_of file_bytes]"
    unfolding p fst_conv snd_conv x sum.sel by (rule refl)+
  show "w_content example_backend (snd pack_of_file) (digest_of file_bytes) = Some file_bytes"
    unfolding example_content p snd_conv by (rule conjunct2 [OF run])
  have "stream_of_file = stream_pack example_libraries example_state (projr (fst pack_of_file)) [[0]] None (snd pack_of_file)"
    unfolding stream_of_file_def p prod.case fst_conv snd_conv by (rule refl)
  with stream_of_file_runs show "stream_pack example_libraries example_state (projr (fst pack_of_file)) [[0]] None
      (snd pack_of_file) = (Inr (), snd stream_of_file)" by (metis prod.collapse)
qed

text \<open>Publishing the result.\<close>

lemma result_accepted:
  "\<not> isl (fst (put_action_result example_libraries example_state team_headers
      (''blake3'', reference_hash task_bytes, 1) example_result stocked_world))"
  by code_simp

text \<open>The world after the example result was published.\<close>

definition result_world :: "(fs, memory_metadata) world" where
  "result_world =
     snd (put_action_result example_libraries example_state team_headers (''blake3'', reference_hash task_bytes, 1)
       example_result stocked_world)"

lemma result_world_ok: "world_ok example_libraries example_backend result_world"
  using ex.serve_keeps [OF example_worlds_ok(2), of team_headers
      "Put_action_result (''blake3'', reference_hash task_bytes, 1) example_result"]
  by (auto simp: result_world_def bindp_def ok_def split: prod.splits sum.splits)

text \<open>Writing the manifest, and reading it back.\<close>

definition manifest_written :: "(api_error + manifest_response) \<times> (fs, memory_metadata) world" where
  "manifest_written =
     put_action_manifest example_libraries example_state team_headers (''blake3'', reference_hash task_bytes, 1)
       [Inr manifest_bytes] empty_world"

definition manifest_read :: "(api_error + manifest_response) \<times> (fs, memory_metadata) world" where
  "manifest_read =
     get_action_manifest example_libraries example_state team_headers (''blake3'', reference_hash task_bytes, 1)
       (snd manifest_written)"

lemma manifest_runs:
  "manifest_written = (Inr (projr (fst manifest_written)), snd manifest_written)"
  "manifest_read = (Inr (projr (fst manifest_read)), snd manifest_read)"
proof -
  have "\<not> isl (fst manifest_written)" by code_simp
  then show "manifest_written = (Inr (projr (fst manifest_written)), snd manifest_written)" by (rule succeeds)
  have "\<not> isl (fst manifest_read)" by code_simp
  then show "manifest_read = (Inr (projr (fst manifest_read)), snd manifest_read)" by (rule succeeds)
qed

lemma manifest_world_ok: "world_ok example_libraries example_backend (snd manifest_written)"
  using ex.serve_keeps [OF empty_world_ok, of team_headers
      "Put_action_manifest (''blake3'', reference_hash task_bytes, 1) [Inr manifest_bytes]"]
  by (auto simp: manifest_written_def bindp_def ok_def split: prod.splits sum.splits)

end
