(* ===== verification/Postgres.thy ===== *)
theory Postgres
  imports Metadata Json "HOL-Library.AList"
begin

text \<open>
  \<^verbatim>\<open>src/metadata/postgres.rs\<close>: metadata in PostgreSQL, and the proof that it keeps the metadata
  contract. The three tables of \<^verbatim>\<open>migrations/\<close> are lists of rows under distinct primary keys. A statement
  on the pool is one atomic step: the statements of other clients come before it
  (\<open>pg_others\<close>), its clock is the time it starts, and it may be refused, or executed with its
  answer lost on the way back (\<open>pg_faults\<close>). A method that sends two statements is therefore
  not atomic. A transaction works on a copy of the tables that it publishes when it commits; the
  statements of other clients come before or after it.

  What the database does with values (\<^verbatim>\<open>jsonb\<close>, text and integer conversions, calendar
  intervals) and the serialisation library are parameters.
\<close>

section \<open>Tables\<close>

type_synonym pg_key = "string \<times> string \<times> string \<times> int"

record blob_row =
  row_created :: int
  row_accessed :: int

record manifest_row =
  row_etag :: string
  row_manifest :: json
  row_updated :: int

record pg_tables =
  tb_results :: "(pg_key \<times> json) list"
  tb_blobs :: "(pg_key \<times> blob_row) list"
  tb_manifests :: "(pg_key \<times> manifest_row) list"

text \<open>The \<^verbatim>\<open>CHECK\<close> constraints of the tables.\<close>

definition blob_check :: "pg_key \<Rightarrow> bool" where
  "blob_check k = (case k of (ns, algorithm, hash, n) \<Rightarrow> algorithm \<in> {''blake3'', ''sha256''} \<and> n \<ge> 0)"

definition manifest_check :: "pg_key \<Rightarrow> bool" where
  "manifest_check k = (case k of (ns, algorithm, hash, n) \<Rightarrow> algorithm = ''blake3'' \<and> n \<ge> 0)"

record database =
  db_jsonb :: "json \<Rightarrow> json"
  db_text :: "json \<Rightarrow> string option"
  db_bigint :: "string \<Rightarrow> string + int"
  db_days_before :: "int \<Rightarrow> u32 \<Rightarrow> int"

record value_codec =
  result_to_value :: "action_result \<Rightarrow> string + json"
  result_from_value :: "json \<Rightarrow> string + action_result"
  manifest_to_value :: "task_action_manifest \<Rightarrow> string + json"
  manifest_from_value :: "json \<Rightarrow> string + task_action_manifest"

text \<open>A value that was stored can be read back.\<close>

definition values_documented :: "database \<Rightarrow> value_codec \<Rightarrow> bool" where
  "values_documented D V \<longleftrightarrow>
     (\<forall>r v. result_to_value V r = Inr v \<longrightarrow> result_from_value V (db_jsonb D v) = Inr r) \<and>
     (\<forall>m v. manifest_to_value V m = Inr v \<longrightarrow> manifest_from_value V (db_jsonb D v) = Inr m)"

lemma result_to_value_inj:
  "values_documented D V \<Longrightarrow> result_to_value V r = Inr v \<Longrightarrow> result_to_value V r' = Inr v \<Longrightarrow> r' = r"
  unfolding values_documented_def by (metis sum.inject(2))

section \<open>Statements\<close>

datatype pg_fault = Refused string | Lost string

record postgres =
  pg_tables :: pg_tables
  pg_working :: pg_tables
  pg_now :: int
  pg_ticks :: "nat list"
  pg_faults :: "pg_fault option list"
  pg_others :: "(pg_tables \<Rightarrow> pg_tables) list"

definition pg_next :: "postgres \<Rightarrow> pg_fault option \<times> postgres" where
  "pg_next s =
     (case pg_faults s of [] \<Rightarrow> (None, s) | f # fs \<Rightarrow> (f, s\<lparr>pg_faults := fs\<rparr>))"

definition pg_interfere :: "postgres \<Rightarrow> postgres" where
  "pg_interfere s =
     (let now = pg_now s + int (case pg_ticks s of [] \<Rightarrow> 0 | t # _ \<Rightarrow> t)
      in s\<lparr>pg_tables := (case pg_others s of [] \<Rightarrow> pg_tables s | f # _ \<Rightarrow> f (pg_tables s)),
           pg_others := tl (pg_others s), pg_now := now, pg_ticks := tl (pg_ticks s)\<rparr>)"

text \<open>A statement on the pool commits by itself.\<close>

definition statement :: "(int \<Rightarrow> pg_tables \<Rightarrow> string + 'a \<times> pg_tables) \<Rightarrow> (postgres, string, 'a) prog" where
  "statement q s =
     (let (fault, s) = pg_next (pg_interfere s) in
      case fault of
        Some (Refused e) \<Rightarrow> (Inl e, s)
      | _ \<Rightarrow> (case q (pg_now s) (pg_tables s) of
                Inl e \<Rightarrow> (Inl e, s)
              | Inr (x, tb) \<Rightarrow>
                  (case fault of Some (Lost e) \<Rightarrow> Inl e | _ \<Rightarrow> Inr x, s\<lparr>pg_tables := tb\<rparr>)))"

text \<open>
  A transaction: it is begun, its statements work on its copy at the time it began, and it is
  committed. A transaction that fails or is dropped before its commit has no effect.
\<close>

definition begin_transaction :: "(postgres, string, unit) prog" where
  "begin_transaction s =
     (let (fault, s) = pg_next (pg_interfere s) in
      case fault of
        None \<Rightarrow> (Inr (), s\<lparr>pg_working := pg_tables s\<rparr>)
      | Some (Refused e) \<Rightarrow> (Inl e, s)
      | Some (Lost e) \<Rightarrow> (Inl e, s))"

definition execute :: "(int \<Rightarrow> pg_tables \<Rightarrow> string + 'a \<times> pg_tables) \<Rightarrow> (postgres, string, 'a) prog" where
  "execute q s =
     (let (fault, s) = pg_next s in
      case fault of
        None \<Rightarrow> (case q (pg_now s) (pg_working s) of
                   Inl e \<Rightarrow> (Inl e, s)
                 | Inr (x, tb) \<Rightarrow> (Inr x, s\<lparr>pg_working := tb\<rparr>))
      | Some (Refused e) \<Rightarrow> (Inl e, s)
      | Some (Lost e) \<Rightarrow> (Inl e, s))"

definition commit_transaction :: "(postgres, string, unit) prog" where
  "commit_transaction s =
     (let (fault, s) = pg_next s in
      case fault of
        None \<Rightarrow> (Inr (), s\<lparr>pg_tables := pg_working s\<rparr>)
      | Some (Refused e) \<Rightarrow> (Inl e, s)
      | Some (Lost e) \<Rightarrow> (Inl e, s\<lparr>pg_tables := pg_working s\<rparr>))"

section \<open>Operations\<close>

definition ACCESS_REFRESH_INTERVAL :: int where
  "ACCESS_REFRESH_INTERVAL = 3600"

text \<open>\<^verbatim>\<open>connect\<close>: the pool and the migrations are the libraries' business.\<close>

definition PostgresMetadata_connect :: "(string \<Rightarrow> u32 \<Rightarrow> string + postgres) \<Rightarrow> string \<Rightarrow> u32 \<Rightarrow> string + postgres" where
  "PostgresMetadata_connect open_pool url max_connections =
     bind_result (ensure (max_connections > 0) ''database max connections must be at least 1'') (\<lambda>_.
       open_pool url max_connections)"

text \<open>\<^verbatim>\<open>size as i64\<close> reads the bits as a signed number; \<^verbatim>\<open>i64::try_from\<close> checks the range.\<close>

definition i64_try_from :: "u64 \<Rightarrow> int option" where
  "i64_try_from n = (if unat n < 2 ^ 63 then Some (int (unat n)) else None)"

definition row_key :: "string \<Rightarrow> digest \<Rightarrow> pg_key" where
  "row_key ns d = (ns, dg_algorithm d, dg_hash d, sint (dg_size d))"

definition representable_digests :: "digest list \<Rightarrow> (digest \<times> int) list" where
  "representable_digests ds = List.map_filter (\<lambda>d. map_option (Pair d) (i64_try_from (dg_size d))) ds"

definition requested_keys :: "string \<Rightarrow> (digest \<times> int) list \<Rightarrow> pg_key list" where
  "requested_keys ns ds = map (\<lambda>(d, n). (ns, dg_algorithm d, dg_hash d, n)) ds"

text \<open>The join of the requested keys, numbered from one, with the table of blobs.\<close>

definition select_visible :: "pg_key list \<Rightarrow> int \<Rightarrow> pg_tables \<Rightarrow> string + nat list \<times> pg_tables" where
  "select_visible ks now tb =
     Inr (map fst (filter (\<lambda>(i, k). map_of (tb_blobs tb) k \<noteq> None) (zip [1..<Suc (length ks)] ks)), tb)"

fun digests_at :: "(digest \<times> int) list \<Rightarrow> nat list \<Rightarrow> string + digest list" where
  "digests_at ds [] = Inr []"
| "digests_at ds (i # is) =
     bind_result (ensure (i \<noteq> 0) ''out of range integral type conversion attempted'') (\<lambda>_.
     bind_result (ok_or ''database returned an invalid blob ordinal''
       (if i - 1 < length ds then Some (fst (ds ! (i - 1))) else None)) (\<lambda>d.
     bind_result (digests_at ds is) (\<lambda>rest. Inr (d # rest))))"

definition postgres_visible_blobs :: "string \<Rightarrow> digest list \<Rightarrow> (postgres, string, digest list) prog" where
  "postgres_visible_blobs ns digests =
     (let ds = representable_digests digests in
      if ds = [] then ok []
      else bindp (statement (select_visible (requested_keys ns ds))) (\<lambda>rows. liftr (digests_at ds rows)))"

definition update_accessed :: "pg_key list \<Rightarrow> int \<Rightarrow> pg_tables \<Rightarrow> string + unit \<times> pg_tables" where
  "update_accessed ks now tb =
     Inr ((), tb\<lparr>tb_blobs := map (\<lambda>(k, row).
       (k, if k \<in> set ks \<and> row_accessed row < now - ACCESS_REFRESH_INTERVAL
           then row\<lparr>row_accessed := now\<rparr> else row)) (tb_blobs tb)\<rparr>)"

definition postgres_touch_blobs :: "string \<Rightarrow> digest list \<Rightarrow> (postgres, string, unit) prog" where
  "postgres_touch_blobs ns digests =
     (let ds = representable_digests digests in
      if ds = [] then ok () else statement (update_accessed (requested_keys ns ds)))"

definition insert_blob :: "pg_key \<Rightarrow> bool \<Rightarrow> int \<Rightarrow> pg_tables \<Rightarrow> string + unit \<times> pg_tables" where
  "insert_blob k created now tb =
     (if \<not> blob_check k then Inl ''new row violates check constraint''
      else Inr ((), tb\<lparr>tb_blobs := AList.update k
        (case map_of (tb_blobs tb) k of
           None \<Rightarrow> \<lparr>row_created = now, row_accessed = now\<rparr>
         | Some row \<Rightarrow> \<lparr>row_created = (if created then now else row_created row), row_accessed = now\<rparr>)
        (tb_blobs tb)\<rparr>))"

definition postgres_register_blob :: "string \<Rightarrow> digest \<Rightarrow> put_outcome \<Rightarrow> (postgres, string, unit) prog" where
  "postgres_register_blob ns d stored = statement (insert_blob (row_key ns d) (stored = PutCreated))"

definition select_result :: "pg_key \<Rightarrow> int \<Rightarrow> pg_tables \<Rightarrow> string + json option \<times> pg_tables" where
  "select_result k now tb = Inr (map_of (tb_results tb) k, tb)"

definition postgres_get :: "value_codec \<Rightarrow> string \<Rightarrow> digest \<Rightarrow> (postgres, string, action_result option) prog" where
  "postgres_get V ns a =
     bindp (statement (select_result (row_key ns a))) (\<lambda>row.
       case row of
         None \<Rightarrow> ok None
       | Some v \<Rightarrow> liftr (bind_result (result_from_value V v) (\<lambda>r. Inr (Some r))))"

definition select_results :: "pg_key list \<Rightarrow> int \<Rightarrow> pg_tables \<Rightarrow> string + json option list \<times> pg_tables" where
  "select_results ks now tb = Inr (map (map_of (tb_results tb)) ks, tb)"

fun decode_results :: "value_codec \<Rightarrow> json option list \<Rightarrow> string + action_result list" where
  "decode_results V [] = Inr []"
| "decode_results V (None # rows) = decode_results V rows"
| "decode_results V (Some v # rows) =
     bind_result (result_from_value V v) (\<lambda>r. bind_result (decode_results V rows) (\<lambda>rs. Inr (r # rs)))"

definition postgres_get_batch ::
  "value_codec \<Rightarrow> string \<Rightarrow> digest list \<Rightarrow> (postgres, string, action_result list) prog" where
  "postgres_get_batch V ns actions =
     (let ds = representable_digests actions in
      if ds = [] then ok []
      else bindp (statement (select_results (requested_keys ns ds))) (\<lambda>rows. liftr (decode_results V rows)))"

definition insert_result :: "database \<Rightarrow> pg_key \<Rightarrow> json \<Rightarrow> int \<Rightarrow> pg_tables \<Rightarrow> string + nat \<times> pg_tables" where
  "insert_result D k v now tb =
     (if \<not> blob_check k then Inl ''new row violates check constraint''
      else if map_of (tb_results tb) k \<noteq> None then Inr (0, tb)
      else Inr (1, tb\<lparr>tb_results := AList.update k (db_jsonb D v) (tb_results tb)\<rparr>))"

definition postgres_commit ::
  "database \<Rightarrow> value_codec \<Rightarrow> string \<Rightarrow> digest \<Rightarrow> action_result \<Rightarrow> (postgres, string, commit_outcome) prog" where
  "postgres_commit D V ns a result =
     bindp (liftr (result_to_value V result)) (\<lambda>encoded.
     bindp (statement (insert_result D (row_key ns a) encoded)) (\<lambda>inserted.
       if inserted = 1 then ok CommitCreated
       else
         bindp (postgres_get V ns a) (\<lambda>found.
         bindp (liftr (ok_or ''action result disappeared after conflict'' found)) (\<lambda>existing.
         bindp (liftr (result_to_value V existing)) (\<lambda>v.
           ok (if v = encoded then CommitAlreadyExists else CommitConflict))))))"

definition select_manifest :: "pg_key \<Rightarrow> int \<Rightarrow> pg_tables \<Rightarrow> string + manifest_row option \<times> pg_tables" where
  "select_manifest k now tb = Inr (map_of (tb_manifests tb) k, tb)"

definition postgres_get_manifest ::
  "value_codec \<Rightarrow> string \<Rightarrow> digest \<Rightarrow> (postgres, string, manifest_record option) prog" where
  "postgres_get_manifest V ns k =
     bindp (statement (select_manifest (row_key ns k))) (\<lambda>row.
       case row of
         None \<Rightarrow> ok None
       | Some row \<Rightarrow> liftr (bind_result (manifest_from_value V (row_manifest row)) (\<lambda>m.
           Inr (Some \<lparr>mr_etag = row_etag row, mr_manifest = m\<rparr>))))"

definition update_manifest ::
  "database \<Rightarrow> pg_key \<Rightarrow> string \<Rightarrow> string \<Rightarrow> json \<Rightarrow> int \<Rightarrow> pg_tables \<Rightarrow> string + nat \<times> pg_tables" where
  "update_manifest D k expected_etag etag v now tb =
     (case map_of (tb_manifests tb) k of
        Some row \<Rightarrow>
          if row_etag row = expected_etag
          then Inr (1, tb\<lparr>tb_manifests := AList.update k
                 \<lparr>row_etag = etag, row_manifest = db_jsonb D v, row_updated = now\<rparr> (tb_manifests tb)\<rparr>)
          else Inr (0, tb)
      | None \<Rightarrow> Inr (0, tb))"

definition insert_manifest ::
  "database \<Rightarrow> pg_key \<Rightarrow> string \<Rightarrow> json \<Rightarrow> int \<Rightarrow> pg_tables \<Rightarrow> string + nat \<times> pg_tables" where
  "insert_manifest D k etag v now tb =
     (if \<not> manifest_check k then Inl ''new row violates check constraint''
      else if map_of (tb_manifests tb) k \<noteq> None then Inr (0, tb)
      else Inr (1, tb\<lparr>tb_manifests := AList.update k
             \<lparr>row_etag = etag, row_manifest = db_jsonb D v, row_updated = now\<rparr> (tb_manifests tb)\<rparr>))"

definition postgres_commit_manifest ::
  "database \<Rightarrow> value_codec \<Rightarrow> string \<Rightarrow> digest \<Rightarrow> string option \<Rightarrow> string \<Rightarrow> task_action_manifest
     \<Rightarrow> (postgres, string, manifest_commit_outcome) prog" where
  "postgres_commit_manifest D V ns k expected_etag etag m =
     bindp (liftr (manifest_to_value V m)) (\<lambda>v.
     bindp (case expected_etag of
              Some expected \<Rightarrow> statement (update_manifest D (row_key ns k) expected etag v)
            | None \<Rightarrow> statement (insert_manifest D (row_key ns k) etag v)) (\<lambda>rows.
       ok (if rows = 0 then ManifestPreconditionFailed
           else if expected_etag \<noteq> None then ManifestUpdated else ManifestCreated)))"

text \<open>
  \<^verbatim>\<open>sweep\<close>. The second statement of its transaction deletes the results with a top-level
  reference to a blob that has no row; a reference that is not an object does not count.
\<close>

definition delete_blobs :: "database \<Rightarrow> u32 \<Rightarrow> int \<Rightarrow> pg_tables \<Rightarrow> string + u64 \<times> pg_tables" where
  "delete_blobs D days now tb =
     (let kept = filter (\<lambda>(k, row). \<not> row_created row < db_days_before D now days) (tb_blobs tb)
      in Inr (of_nat (length (tb_blobs tb) - length kept), tb\<lparr>tb_blobs := kept\<rparr>))"

text \<open>The key a reference names; a conversion may fail, and a missing field equals nothing.\<close>

definition json_field :: "database \<Rightarrow> json \<Rightarrow> string \<Rightarrow> string option" where
  "json_field D v field = Option.bind (json_get v field) (db_text D)"

definition reference_key :: "database \<Rightarrow> string \<Rightarrow> json \<Rightarrow> string + pg_key option" where
  "reference_key D ns v =
     (case json_field D v ''size'' of
        None \<Rightarrow> Inr None
      | Some n \<Rightarrow> bind_result (db_bigint D n) (\<lambda>n.
          Inr (case (json_field D v ''algorithm'', json_field D v ''hash'') of
             (Some algorithm, Some hash) \<Rightarrow> Some (ns, algorithm, hash, n)
           | _ \<Rightarrow> None)))"

definition dangles :: "database \<Rightarrow> pg_tables \<Rightarrow> string \<Rightarrow> json option \<Rightarrow> string + bool" where
  "dangles D tb ns reference =
     (case reference of
        None \<Rightarrow> Inr False
      | Some v \<Rightarrow>
          if \<not> is_object v then Inr False
          else bind_result (reference_key D ns v) (\<lambda>k.
            Inr (case k of None \<Rightarrow> True | Some k \<Rightarrow> map_of (tb_blobs tb) k = None)))"

fun intact_results ::
  "database \<Rightarrow> pg_tables \<Rightarrow> (pg_key \<times> json) list \<Rightarrow> string + (pg_key \<times> json) list" where
  "intact_results D tb [] = Inr []"
| "intact_results D tb ((k, v) # rows) =
     bind_result (dangles D tb (fst k) (json_get v ''metadata'')) (\<lambda>m.
     bind_result (dangles D tb (fst k) (json_get v ''output_root'')) (\<lambda>out.
     bind_result (intact_results D tb rows) (\<lambda>rest.
       Inr (if m \<or> out then rest else (k, v) # rest))))"

definition delete_results :: "database \<Rightarrow> int \<Rightarrow> pg_tables \<Rightarrow> string + u64 \<times> pg_tables" where
  "delete_results D now tb =
     bind_result (intact_results D tb (tb_results tb)) (\<lambda>kept.
       Inr (of_nat (length (tb_results tb) - length kept), tb\<lparr>tb_results := kept\<rparr>))"

definition delete_manifests :: "database \<Rightarrow> u32 \<Rightarrow> int \<Rightarrow> pg_tables \<Rightarrow> string + u64 \<times> pg_tables" where
  "delete_manifests D days now tb =
     (let kept = filter (\<lambda>(k, row). \<not> row_updated row < db_days_before D now days) (tb_manifests tb)
      in Inr (of_nat (length (tb_manifests tb) - length kept), tb\<lparr>tb_manifests := kept\<rparr>))"

definition postgres_sweep :: "database \<Rightarrow> u32 \<Rightarrow> (postgres, string, sweep_outcome) prog" where
  "postgres_sweep D older_than_days =
     bindp begin_transaction (\<lambda>_.
     bindp (execute (delete_blobs D older_than_days)) (\<lambda>blobs.
     bindp (execute (delete_results D)) (\<lambda>action_results.
     bindp (execute (delete_manifests D older_than_days)) (\<lambda>manifests.
     bindp commit_transaction (\<lambda>_.
       ok \<lparr>so_blobs = blobs, so_action_results = action_results, so_manifests = manifests\<rparr>)))))"

definition postgres_metadata_store :: "database \<Rightarrow> value_codec \<Rightarrow> postgres metadata_store" where
  "postgres_metadata_store D V =
     \<lparr>ms_visible_blobs = postgres_visible_blobs,
      ms_blob_visible = default_blob_visible postgres_visible_blobs,
      ms_register_blob = postgres_register_blob,
      ms_touch_blobs = postgres_touch_blobs,
      ms_get = postgres_get V,
      ms_get_batch = postgres_get_batch V,
      ms_commit = postgres_commit D V,
      ms_get_manifest = postgres_get_manifest V,
      ms_commit_manifest = postgres_commit_manifest D V,
      ms_sweep = postgres_sweep D\<rparr>"

section \<open>The contract holds\<close>

text \<open>What the tables say, and what is kept true of them.\<close>

definition tables_view :: "value_codec \<Rightarrow> pg_tables \<Rightarrow> meta_view" where
  "tables_view V tb =
     \<lparr>v_blobs = {(ns, d). map_of (tb_blobs tb) (row_key ns d) \<noteq> None},
      v_results = (\<lambda>(ns, a). case map_of (tb_results tb) (row_key ns a) of None \<Rightarrow> None
         | Some v \<Rightarrow> (case result_from_value V v of Inl _ \<Rightarrow> None | Inr r \<Rightarrow> Some r)),
      v_manifests = (\<lambda>(ns, k). case map_of (tb_manifests tb) (row_key ns k) of None \<Rightarrow> None
         | Some row \<Rightarrow> (case manifest_from_value V (row_manifest row) of Inl _ \<Rightarrow> None
                       | Inr m \<Rightarrow> Some (row_etag row, m)))\<rparr>"

text \<open>A table: its rows under distinct keys, each row as its constraints and its writers make it.\<close>

definition rows_ok :: "('k \<Rightarrow> 'r \<Rightarrow> bool) \<Rightarrow> ('k \<times> 'r) list \<Rightarrow> bool" where
  "rows_ok P rows \<longleftrightarrow> distinct (map fst rows) \<and> (\<forall>(k, row) \<in> set rows. P k row)"

definition stored_result :: "database \<Rightarrow> value_codec \<Rightarrow> pg_key \<Rightarrow> json \<Rightarrow> bool" where
  "stored_result D V k v \<longleftrightarrow> blob_check k \<and> (\<exists>r w. result_to_value V r = Inr w \<and> v = db_jsonb D w)"

definition stored_manifest :: "database \<Rightarrow> value_codec \<Rightarrow> pg_key \<Rightarrow> manifest_row \<Rightarrow> bool" where
  "stored_manifest D V k row \<longleftrightarrow> manifest_check k \<and> (\<exists>m w. manifest_to_value V m = Inr w \<and> row_manifest row = db_jsonb D w)"

definition tables_ok :: "database \<Rightarrow> value_codec \<Rightarrow> pg_tables \<Rightarrow> bool" where
  "tables_ok D V tb \<longleftrightarrow>
     rows_ok (\<lambda>k _. blob_check k) (tb_blobs tb) \<and> rows_ok (stored_result D V) (tb_results tb) \<and>
     rows_ok (stored_manifest D V) (tb_manifests tb)"

lemma rows_okD: "rows_ok P rows \<Longrightarrow> map_of rows k = Some row \<Longrightarrow> P k row"
  by (auto simp: rows_ok_def dest: map_of_SomeD)

lemma rows_ok_update: "rows_ok P rows \<Longrightarrow> P k row \<Longrightarrow> rows_ok P (AList.update k row rows)"
proof -
  assume rows: "rows_ok P rows" and row: "P k row"
  then have "\<forall>(k, row) \<in> set (AList.update k row rows). P k row"
    unfolding rows_ok_def by (induction rows) (auto split: if_splits)
  with rows show ?thesis by (simp add: rows_ok_def distinct_update)
qed

lemma rows_ok_filter: "rows_ok P rows \<Longrightarrow> rows_ok P (filter p rows)"
  by (auto simp: rows_ok_def distinct_map_filter)

lemma rows_ok_map:
  "rows_ok P rows \<Longrightarrow> \<forall>k row. P k row \<longrightarrow> P k (f k row) \<Longrightarrow> rows_ok P (map (\<lambda>(k, row). (k, f k row)) rows)"
  unfolding rows_ok_def by (induction rows) force+

lemma map_of_map_rows: "map_of (map (\<lambda>(k, row). (k, f k row)) rows) k = map_option (f k) (map_of rows k)"
  by (induction rows) auto

definition postgres_view :: "value_codec \<Rightarrow> postgres \<Rightarrow> meta_view" where
  "postgres_view V s = tables_view V (pg_tables s)"

text \<open>The contract is about a client whose calls are not interleaved with others'.\<close>

definition postgres_inv :: "database \<Rightarrow> value_codec \<Rightarrow> postgres \<Rightarrow> bool" where
  "postgres_inv D V s \<longleftrightarrow> tables_ok D V (pg_tables s) \<and> pg_others s = []"

subsection \<open>Statements\<close>

lemma statement_cases:
  assumes "statement q s = (r, t)" and "pg_others s = []"
  shows "pg_others t = [] \<and>
    ((\<exists>e. r = Inl e) \<and> pg_tables t = pg_tables s \<or>
     (\<exists>now x. q now (pg_tables s) = Inr (x, pg_tables t) \<and> (r = Inr x \<or> (\<exists>e. r = Inl e))))"
  using assms
  by (auto simp: statement_def pg_next_def pg_interfere_def Let_def
      split: list.splits option.splits pg_fault.splits sum.splits prod.splits)

lemma statement_read:
  assumes "statement q s = (r, t)" and "pg_others s = []" and "\<And>now tb. q now tb = Inr (f tb, tb)"
  shows "pg_others t = [] \<and> pg_tables t = pg_tables s \<and> (\<forall>x. r = Inr x \<longrightarrow> x = f (pg_tables s))"
  using statement_cases [OF assms(1,2)] assms(3) by fastforce

lemma select_reads:
  "select_visible ks now tb = Inr (map fst (filter (\<lambda>(i, k). map_of (tb_blobs tb) k \<noteq> None) (zip [1..<Suc (length ks)] ks)), tb)"
  "select_result k now tb = Inr (map_of (tb_results tb) k, tb)"
  "select_results ks now tb = Inr (map (map_of (tb_results tb)) ks, tb)"
  "select_manifest k now tb = Inr (map_of (tb_manifests tb) k, tb)"
  by (simp_all add: select_visible_def select_result_def select_results_def select_manifest_def)

subsection \<open>Keys\<close>

lemma wrap_i64:
  assumes "0 \<le> k" and "k < 2 ^ 64"
  shows "(k + 2 ^ 63) mod 2 ^ 64 - 2 ^ 63 = (if k < 2 ^ 63 then k else k - (2 ^ 64 :: int))"
proof (cases "k < 2 ^ 63")
  case True
  then have "(k + 2 ^ 63) mod 2 ^ 64 = k + 2 ^ 63" using assms by (intro mod_pos_pos_trivial) simp_all
  with True show ?thesis by simp
next
  case False
  have "k + 2 ^ 63 = k - 2 ^ 63 + 2 ^ 64" by simp
  then have "(k + 2 ^ 63) mod 2 ^ 64 = (k - 2 ^ 63) mod 2 ^ 64" by (simp only: mod_add_self2)
  also have "\<dots> = k - 2 ^ 63" using assms False by (intro mod_pos_pos_trivial) simp_all
  finally show ?thesis using False by simp
qed

lemma sint_u64: "sint (n :: u64) = (if unat n < 2 ^ 63 then int (unat n) else int (unat n) - 2 ^ 64)"
proof -
  have s: "sint n = (uint n + 2 ^ 63) mod 2 ^ 64 - 2 ^ 63"
    by (simp add: sint_uint signed_take_bit_eq_take_bit_shift take_bit_eq_mod)
  have u: "uint n = int (unat n)" by simp
  have b: "unat n < 2 ^ 64" using unsigned_less [of n] by simp
  have lt: "int k < 2 ^ j \<longleftrightarrow> k < 2 ^ j" for k j by (metis of_nat_less_iff of_nat_numeral of_nat_power)
  show ?thesis unfolding s u wrap_i64 [OF of_nat_0_le_iff lt [THEN iffD2, OF b]] lt ..
qed

lemma row_key_inj [simp]: "row_key ns d = row_key ns' d' \<longleftrightarrow> ns = ns' \<and> d = d'"
proof -
  have "n = m" if "sint n = sint m" for n m :: u64 using that by (rule signed_word_eqI)
  then show ?thesis by (cases d; cases d') (auto simp: row_key_def)
qed

lemma i64_try_from_sint: "i64_try_from n = Some i \<longleftrightarrow> sint n \<ge> 0 \<and> i = sint n"
proof -
  have "int (unat n) < 2 ^ 64" using uint_bounded [of n] by simp
  then show ?thesis by (auto simp: i64_try_from_def sint_u64)
qed

lemma i64_try_from_None: "i64_try_from n = None \<longleftrightarrow> sint n < 0"
  using i64_try_from_sint [of n "sint n"] by (cases "i64_try_from n") (auto simp: i64_try_from_sint)

lemma representable_digests_simps [simp]:
  "representable_digests [] = []"
  "representable_digests (d # ds) =
     (if sint (dg_size d) \<ge> 0 then (d, sint (dg_size d)) # representable_digests ds else representable_digests ds)"
proof -
  have "i64_try_from (dg_size d) = (if sint (dg_size d) \<ge> 0 then Some (sint (dg_size d)) else None)"
    using i64_try_from_sint i64_try_from_None by auto
  then show "representable_digests (d # ds) =
     (if sint (dg_size d) \<ge> 0 then (d, sint (dg_size d)) # representable_digests ds else representable_digests ds)"
    by (simp add: representable_digests_def map_filter_simps)
qed (simp add: representable_digests_def map_filter_simps)

lemma unrepresentable_absent:
  assumes "rows_ok P rows" and "\<forall>k row. P k row \<longrightarrow> blob_check k" and "sint (dg_size d) < 0"
  shows "map_of rows (row_key ns d) = None"
proof (rule ccontr)
  assume "map_of rows (row_key ns d) \<noteq> None"
  with rows_okD [OF assms(1)] assms(2) have "blob_check (row_key ns d)" by blast
  with assms(3) show False by (simp add: blob_check_def row_key_def)
qed

text \<open>The ordinals of the join lead back to the digests they number.\<close>

lemma digests_at_filter:
  "digests_at ds (map fst (filter (\<lambda>(i, k). p k) (zip [1..<Suc (length ds)] (map f ds)))) =
     Inr (map fst (filter (p \<circ> f) ds))"
proof -
  have "digests_at (pre @ ds) (map fst (filter (\<lambda>(i, k). p k) (zip [Suc (length pre)..<Suc (length pre + length ds)] (map f ds)))) =
      Inr (map fst (filter (p \<circ> f) ds))" for pre
  proof (induction ds arbitrary: pre)
    case (Cons d ds)
    have "zip [Suc (length pre)..<Suc (length pre + length (d # ds))] (map f (d # ds)) =
        (Suc (length pre), f d) # zip [Suc (length (pre @ [d]))..<Suc (length (pre @ [d]) + length ds)] (map f ds)"
      by (simp add: upt_conv_Cons del: upt_Suc)
    with Cons.IH [of "pre @ [d]"] show ?case by (auto simp: nth_append ensure_def simp del: upt_Suc)
  qed simp
  from this [of "[]"] show ?thesis by (simp del: upt_Suc)
qed

subsection \<open>The methods\<close>

lemma postgres_invD:
  assumes "postgres_inv D V s"
  shows "pg_others s = []" "tables_ok D V (pg_tables s)"
  using assms by (simp_all add: postgres_inv_def)

lemma tables_absent:
  assumes "tables_ok D V tb" and "sint (dg_size d) < 0"
  shows "map_of (tb_blobs tb) (row_key ns d) = None" "map_of (tb_results tb) (row_key ns d) = None"
  using assms unrepresentable_absent [of "\<lambda>k _. blob_check k"] unrepresentable_absent [of "stored_result D V"]
  by (auto simp: tables_ok_def stored_result_def)

lemma same_tables:
  "pg_tables t = pg_tables s \<Longrightarrow> pg_others t = [] \<Longrightarrow> postgres_inv D V s \<Longrightarrow>
     postgres_inv D V t \<and> postgres_view V t = postgres_view V s"
  by (simp add: postgres_inv_def postgres_view_def)

lemma visible_blobs_correct:
  assumes "postgres_inv D V s" and "postgres_visible_blobs ns ds s = (r, t)"
  shows "postgres_inv D V t \<and> postgres_view V t = postgres_view V s \<and>
    (\<forall>vs. r = Inr vs \<longrightarrow> vs = filter (\<lambda>d. (ns, d) \<in> v_blobs (postgres_view V s)) ds)"
proof -
  let ?p = "\<lambda>k. map_of (tb_blobs (pg_tables s)) k \<noteq> None"
  let ?ds = "representable_digests ds"
  note inv = postgres_invD [OF assms(1)]
  have eq: "map fst (filter (?p \<circ> (\<lambda>(d, n). (ns, dg_algorithm d, dg_hash d, n))) ?ds) =
      filter (\<lambda>d. (ns, d) \<in> v_blobs (postgres_view V s)) ds" 
    by (induction ds)
      (auto simp: postgres_view_def tables_view_def tables_absent [OF inv(2), unfolded row_key_def] row_key_def)
  show ?thesis
  proof (cases "?ds = []")
    case True
    with assms eq show ?thesis by (auto simp: postgres_visible_blobs_def ok_def)
  next
    case False
    obtain q u where q: "statement (select_visible (requested_keys ns ?ds)) s = (q, u)" by (rule prod.exhaust)
    note read = statement_read [OF q inv(1) select_reads(1)]
    have "q = Inr rows \<Longrightarrow> digests_at ?ds rows = Inr (filter (\<lambda>d. (ns, d) \<in> v_blobs (postgres_view V s)) ds)" for rows
      using read digests_at_filter [of ?ds ?p] eq by (simp add: requested_keys_def del: upt_Suc)
    with False assms q read same_tables show ?thesis
      by (cases q) (auto simp: postgres_visible_blobs_def Let_def bindp_def liftr_def)
  qed
qed

lemma result_row:
  assumes "values_documented D V" and "tables_ok D V tb" and "map_of (tb_results tb) k = Some v"
  obtains r w where "result_to_value V r = Inr w" "v = db_jsonb D w" "result_from_value V v = Inr r"
proof -
  from assms(2,3) obtain r w where "result_to_value V r = Inr w" "v = db_jsonb D w"
    using rows_okD [of "stored_result D V" "tb_results tb"] unfolding tables_ok_def stored_result_def by blast
  with assms(1) that show ?thesis unfolding values_documented_def by blast
qed

lemma manifest_row:
  assumes "values_documented D V" and "tables_ok D V tb" and "map_of (tb_manifests tb) k = Some row"
  obtains m where "manifest_from_value V (row_manifest row) = Inr m"
proof -
  from assms(2,3) obtain m w where "manifest_to_value V m = Inr w" "row_manifest row = db_jsonb D w"
    using rows_okD [of "stored_manifest D V" "tb_manifests tb"] unfolding tables_ok_def stored_manifest_def by blast
  with assms(1) that show ?thesis unfolding values_documented_def by auto
qed

lemma get_correct:
  assumes "values_documented D V" and "postgres_inv D V s" and "postgres_get V ns a s = (r, t)"
  shows "postgres_inv D V t \<and> pg_tables t = pg_tables s \<and> (\<forall>x. r = Inr x \<longrightarrow> x = v_results (postgres_view V s) (ns, a))"
proof -
  note inv = postgres_invD [OF assms(2)]
  obtain q u where q: "statement (select_result (row_key ns a)) s = (q, u)" by (rule prod.exhaust)
  note read = statement_read [OF q inv(1) select_reads(2)]
  have t: "t = u" using assms(3) q by (cases q) (auto simp: postgres_get_def bindp_def ok_def liftr_def split: option.splits)
  have "x = v_results (postgres_view V s) (ns, a)" if "r = Inr x" for x
  proof (cases "map_of (tb_results (pg_tables s)) (row_key ns a)")
    case None
    with that assms(3) q read show ?thesis
      by (cases q) (auto simp: postgres_get_def bindp_def ok_def postgres_view_def tables_view_def)
  next
    case (Some v)
    then obtain r0 where "result_from_value V v = Inr r0" using result_row [OF assms(1) inv(2)] by blast
    with Some that assms(3) q read show ?thesis
      by (cases q) (auto simp: postgres_get_def bindp_def liftr_def postgres_view_def tables_view_def split: option.splits)
  qed
  with t read same_tables assms(2) show ?thesis by blast
qed

lemma decode_results_correct:
  assumes "values_documented D V" and "tables_ok D V tb"
  shows "decode_results V (map (map_of (tb_results tb)) (requested_keys ns (representable_digests ds))) =
    Inr (List.map_filter (\<lambda>a. v_results (tables_view V tb) (ns, a)) ds)"
proof (induction ds)
  case (Cons d ds)
  have absent: "map_of (tb_results tb) (row_key ns d) = None" if "sint (dg_size d) < 0"
    using tables_absent [OF assms(2) that] by blast
  show ?case
  proof (cases "map_of (tb_results tb) (row_key ns d)")
    case None
    with Cons show ?thesis by (auto simp: requested_keys_def map_filter_simps row_key_def tables_view_def)
  next
    case (Some v)
    then obtain r where "result_from_value V v = Inr r" using result_row [OF assms] by blast
    moreover from Some absent have "sint (dg_size d) \<ge> 0" by force
    ultimately show ?thesis
      using Some Cons by (auto simp: requested_keys_def map_filter_simps row_key_def tables_view_def)
  qed
qed (simp add: requested_keys_def map_filter_simps)

lemma get_batch_correct:
  assumes "values_documented D V" and "postgres_inv D V s" and "postgres_get_batch V ns ds s = (r, t)"
  shows "postgres_inv D V t \<and> postgres_view V t = postgres_view V s \<and>
    (\<forall>rs. r = Inr rs \<longrightarrow> rs = List.map_filter (\<lambda>a. v_results (postgres_view V s) (ns, a)) ds)"
proof -
  let ?ds = "representable_digests ds"
  note inv = postgres_invD [OF assms(2)]
  note decode = decode_results_correct [OF assms(1) inv(2), of ns ds]
  show ?thesis
  proof (cases "?ds = []")
    case True
    with assms decode show ?thesis by (auto simp: postgres_get_batch_def ok_def requested_keys_def postgres_view_def)
  next
    case False
    obtain q u where q: "statement (select_results (requested_keys ns ?ds)) s = (q, u)" by (rule prod.exhaust)
    note read = statement_read [OF q inv(1) select_reads(3)]
    with False assms q decode same_tables show ?thesis
      by (cases q) (auto simp: postgres_get_batch_def Let_def bindp_def liftr_def postgres_view_def)
  qed
qed

lemma update_accessed_keeps:
  assumes "update_accessed ks now tb = Inr (x, tb')" and "tables_ok D V tb"
  shows "tables_ok D V tb'" and "tables_view V tb' = tables_view V tb"
proof -
  obtain f where "tb' = tb\<lparr>tb_blobs := map (\<lambda>(k, row). (k, f k row)) (tb_blobs tb)\<rparr>"
    using assms(1) unfolding update_accessed_def by auto
  with assms(2) show "tables_ok D V tb'" "tables_view V tb' = tables_view V tb"
    by (simp_all add: tables_ok_def tables_view_def rows_ok_map map_of_map_rows)
qed

lemma touch_blobs_correct:
  assumes "postgres_inv D V s" and "postgres_touch_blobs ns ds s = (r, t)"
  shows "postgres_inv D V t \<and> postgres_view V t = postgres_view V s"
proof (cases "representable_digests ds = []")
  case True
  with assms show ?thesis by (auto simp: postgres_touch_blobs_def ok_def)
next
  case False
  from False assms(2) have "statement (update_accessed (requested_keys ns (representable_digests ds))) s = (r, t)"
    by (simp add: postgres_touch_blobs_def Let_def)
  from statement_cases [OF this postgres_invD(1) [OF assms(1)]] update_accessed_keeps assms(1) show ?thesis
    unfolding postgres_inv_def postgres_view_def by metis
qed

lemma insert_blob_registers:
  assumes "insert_blob (row_key ns d) created now tb = Inr (x, tb')" and "tables_ok D V tb"
  shows "tables_ok D V tb'" and "tables_view V tb' = spec_register ns d (tables_view V tb)"
proof -
  obtain row where "blob_check (row_key ns d)" and tb': "tb' = tb\<lparr>tb_blobs := AList.update (row_key ns d) row (tb_blobs tb)\<rparr>"
    using assms(1) unfolding insert_blob_def by (metis Inl_Inr_False Inr_inject snd_conv)
  with assms(2) show "tables_ok D V tb'" by (simp add: tables_ok_def rows_ok_update)
  show "tables_view V tb' = spec_register ns d (tables_view V tb)"
    unfolding tb' by (auto simp: tables_view_def spec_register_def update_conv')
qed

lemma register_blob_correct:
  assumes "postgres_inv D V s" and "postgres_register_blob ns d stored s = (r, t)"
  shows "postgres_inv D V t \<and> (r = Inr () \<longrightarrow> postgres_view V t = spec_register ns d (postgres_view V s)) \<and>
    (postgres_view V t = postgres_view V s \<or> postgres_view V t = spec_register ns d (postgres_view V s))"
proof -
  from assms(2) have "statement (insert_blob (row_key ns d) (stored = PutCreated)) s = (r, t)"
    by (simp add: postgres_register_blob_def)
  from statement_cases [OF this postgres_invD(1) [OF assms(1)]] insert_blob_registers assms(1) show ?thesis
    unfolding postgres_inv_def postgres_view_def by (metis Inl_Inr_False)
qed

text \<open>The two outcomes of the insertion: the row is new, or there is one already.\<close>

lemma insert_result_commits:
  assumes doc: "values_documented D V" and tb: "tables_ok D V tb" and v: "result_to_value V res = Inr v"
    and ins: "insert_result D (row_key ns a) v now tb = Inr (n, tb')"
  shows "tables_ok D V tb'"
    and "n = 1 \<Longrightarrow> spec_commit ns a res (tables_view V tb) = (CommitCreated, tables_view V tb')"
    and "n \<noteq> 1 \<Longrightarrow> tb' = tb \<and> v_results (tables_view V tb) (ns, a) \<noteq> None"
proof -
  let ?k = "row_key ns a"
  have "result_from_value V (db_jsonb D v) = Inr res" using doc v by (simp add: values_documented_def)
  moreover consider "map_of (tb_results tb) ?k = None" "n = 1" "blob_check ?k"
      "tb' = tb\<lparr>tb_results := AList.update ?k (db_jsonb D v) (tb_results tb)\<rparr>"
    | w where "map_of (tb_results tb) ?k = Some w" "n = 0" "tb' = tb"
    using ins by (auto simp: insert_result_def split: if_splits)
  note cases = this
  show "tables_ok D V tb'"
    using cases
  proof cases
    case 1
    with v have "stored_result D V ?k (db_jsonb D v)" unfolding stored_result_def by blast
    with 1 tb show ?thesis by (simp add: tables_ok_def rows_ok_update)
  qed (simp add: tb)
  show "spec_commit ns a res (tables_view V tb) = (CommitCreated, tables_view V tb')" if "n = 1"
    using cases that calculation
    by cases (auto simp: spec_commit_def tables_view_def update_conv' fun_eq_iff)
  show "tb' = tb \<and> v_results (tables_view V tb) (ns, a) \<noteq> None" if "n \<noteq> 1"
    using cases that
  proof cases
    case (2 w)
    then obtain r where "result_from_value V w = Inr r" using result_row [OF doc tb] by blast
    with 2 show ?thesis by (simp add: tables_view_def)
  qed simp
qed

text \<open>Comparing encodings compares results.\<close>

lemma compare_encodings:
  assumes "values_documented D V" and "result_to_value V res = Inr v" and "result_to_value V r = Inr w"
  shows "w = v \<longleftrightarrow> r = res"
  using assms result_to_value_inj by (metis Inr_inject)

lemma commit_after_conflict:
  assumes "postgres_commit D V ns a res s = (r, t)" and "result_to_value V res = Inr v"
    and "statement (insert_result D (row_key ns a) v) s = (Inr n, u)" and "n \<noteq> 1" and "postgres_get V ns a u = (g, w)"
  shows "t = w \<and> (\<forall>out. r = Inr out \<longrightarrow> (\<exists>x e. g = Inr (Some x) \<and> result_to_value V x = Inr e \<and>
    out = (if e = v then CommitAlreadyExists else CommitConflict)))"
proof (cases g)
  case (Inl e)
  with assms show ?thesis by (auto simp: postgres_commit_def bindp_def liftr_def)
next
  case (Inr found)
  show ?thesis
  proof (cases found)
    case None
    with assms Inr show ?thesis by (auto simp: postgres_commit_def bindp_def liftr_def ok_or_def)
  next
    case (Some x)
    with assms Inr show ?thesis
      by (cases "result_to_value V x") (auto simp: postgres_commit_def bindp_def liftr_def ok_def ok_or_def)
  qed
qed

lemma commit_correct:
  assumes doc: "values_documented D V" and inv: "postgres_inv D V s"
    and run: "postgres_commit D V ns a res s = (r, t)"
  shows "postgres_inv D V t \<and>
    (\<forall>out. r = Inr out \<longrightarrow> spec_commit ns a res (postgres_view V s) = (out, postgres_view V t)) \<and>
    (postgres_view V t = postgres_view V s \<or> postgres_view V t = snd (spec_commit ns a res (postgres_view V s)))"
proof (cases "result_to_value V res")
  case (Inl e)
  with inv run show ?thesis by (auto simp: postgres_commit_def liftr_def bindp_def)
next
  case (Inr v)
  obtain q u where q: "statement (insert_result D (row_key ns a) v) s = (q, u)" by (rule prod.exhaust)
  note ins = statement_cases [OF q postgres_invD(1) [OF inv]]
  note effect = insert_result_commits [OF doc postgres_invD(2) [OF inv] Inr]
  show ?thesis
  proof (cases "q = Inr 1 \<or> isl q")
    case True
    with run Inr q have "t = u" "\<forall>out. r = Inr out \<longrightarrow> out = CommitCreated \<and> q = Inr 1"
      by (auto simp: postgres_commit_def bindp_def liftr_def ok_def isl_def)
    moreover have "postgres_inv D V u \<and> (q = Inr 1 \<longrightarrow> spec_commit ns a res (postgres_view V s) = (CommitCreated, postgres_view V u)) \<and>
        (postgres_view V u = postgres_view V s \<or> postgres_view V u = snd (spec_commit ns a res (postgres_view V s)))"
      using ins effect inv unfolding postgres_inv_def postgres_view_def by (metis Inl_Inr_False Inr_inject snd_conv)
    ultimately show ?thesis by auto
  next
    case False
    then obtain n where n: "q = Inr n" "n \<noteq> 1" by (cases q) auto
    with ins effect have u: "pg_tables u = pg_tables s" "pg_others u = []"
      and "v_results (postgres_view V s) (ns, a) \<noteq> None"
      unfolding postgres_view_def by (metis Inl_Inr_False Inr_inject)+
    then obtain r0 where r0: "v_results (postgres_view V s) (ns, a) = Some r0" by blast
    from same_tables [OF u inv] have inv_u: "postgres_inv D V u" and view_u: "postgres_view V u = postgres_view V s" by auto
    obtain g w where g: "postgres_get V ns a u = (g, w)" by (rule prod.exhaust)
    note read = get_correct [OF doc inv_u g]
    have "t = w \<and> (\<forall>out. r = Inr out \<longrightarrow> (\<exists>x e. g = Inr (Some x) \<and> result_to_value V x = Inr e \<and>
        out = (if e = v then CommitAlreadyExists else CommitConflict)))"
      using commit_after_conflict [OF run Inr q [unfolded n(1)] n(2) g] .
    then have "t = w" and out: "\<forall>out. r = Inr out \<longrightarrow> (\<exists>x e. g = Inr (Some x) \<and> result_to_value V x = Inr e \<and>
        out = (if e = v then CommitAlreadyExists else CommitConflict))" by auto
    with read u inv_u view_u have "postgres_inv D V t" "postgres_view V t = postgres_view V s" by (auto simp: postgres_view_def)
    moreover have "out = (if r0 = res then CommitAlreadyExists else CommitConflict)" if "r = Inr out" for out
      using out read view_u r0 that compare_encodings [OF doc Inr] by auto
    ultimately show ?thesis using r0 by (auto simp: spec_commit_def)
  qed
qed

lemma get_manifest_correct:
  assumes doc: "values_documented D V" and inv: "postgres_inv D V s" and run: "postgres_get_manifest V ns k s = (r, t)"
  shows "postgres_inv D V t \<and> postgres_view V t = postgres_view V s \<and>
    (\<forall>x. r = Inr x \<longrightarrow> map_option (\<lambda>r. (mr_etag r, mr_manifest r)) x = v_manifests (postgres_view V s) (ns, k))"
proof -
  obtain q u where q: "statement (select_manifest (row_key ns k)) s = (q, u)" by (rule prod.exhaust)
  note read = statement_read [OF q postgres_invD(1) [OF inv] select_reads(4)]
  have t: "t = u"
    using run q by (cases q) (auto simp: postgres_get_manifest_def bindp_def ok_def liftr_def split: option.splits)
  have "map_option (\<lambda>r. (mr_etag r, mr_manifest r)) x = v_manifests (postgres_view V s) (ns, k)" if "r = Inr x" for x
  proof (cases "map_of (tb_manifests (pg_tables s)) (row_key ns k)")
    case None
    with that run q read show ?thesis
      by (cases q) (auto simp: postgres_get_manifest_def bindp_def ok_def postgres_view_def tables_view_def)
  next
    case (Some row)
    then obtain m where "manifest_from_value V (row_manifest row) = Inr m"
      using manifest_row [OF doc postgres_invD(2) [OF inv]] by blast
    with Some that run q read show ?thesis
      by (cases q) (auto simp: postgres_get_manifest_def bindp_def liftr_def postgres_view_def tables_view_def split: option.splits)
  qed
  with t read same_tables inv show ?thesis by blast
qed

lemma manifest_tag:
  assumes "values_documented D V" and "tables_ok D V tb"
  shows "map_option fst (v_manifests (tables_view V tb) (ns, k)) = map_option row_etag (map_of (tb_manifests tb) (row_key ns k))"
proof (cases "map_of (tb_manifests tb) (row_key ns k)")
  case (Some row)
  then obtain m where "manifest_from_value V (row_manifest row) = Inr m" using manifest_row [OF assms] by blast
  with Some show ?thesis by (simp add: tables_view_def)
qed (simp add: tables_view_def)

text \<open>The statement a commit of a manifest sends.\<close>

definition write_manifest ::
  "database \<Rightarrow> pg_key \<Rightarrow> string option \<Rightarrow> string \<Rightarrow> json \<Rightarrow> int \<Rightarrow> pg_tables \<Rightarrow> string + nat \<times> pg_tables" where
  "write_manifest D k expected etag v =
     (case expected of Some e \<Rightarrow> update_manifest D k e etag v | None \<Rightarrow> insert_manifest D k etag v)"

lemma write_manifest_cases:
  assumes "write_manifest D k expected etag v now tb = Inr (n, tb')" and "rows_ok (stored_manifest D V) (tb_manifests tb)"
  shows "n = 0 \<and> tb' = tb \<and> map_option row_etag (map_of (tb_manifests tb) k) \<noteq> expected \<or>
    n = 1 \<and> manifest_check k \<and> map_option row_etag (map_of (tb_manifests tb) k) = expected \<and>
    tb' = tb\<lparr>tb_manifests := AList.update k \<lparr>row_etag = etag, row_manifest = db_jsonb D v, row_updated = now\<rparr> (tb_manifests tb)\<rparr>"
  using assms rows_okD [OF assms(2), of k]
  by (auto simp: write_manifest_def update_manifest_def insert_manifest_def stored_manifest_def split: option.splits if_splits)

lemma write_manifest_commits:
  assumes doc: "values_documented D V" and tb: "tables_ok D V tb" and v: "manifest_to_value V m = Inr v"
    and wr: "write_manifest D (row_key ns k) expected etag v now tb = Inr (n, tb')"
  shows "tables_ok D V tb'"
    and "spec_commit_manifest ns k expected etag m (tables_view V tb) =
      (if n = 0 then ManifestPreconditionFailed else if expected \<noteq> None then ManifestUpdated else ManifestCreated,
       tables_view V tb')"
proof -
  let ?row = "\<lparr>row_etag = etag, row_manifest = db_jsonb D v, row_updated = now\<rparr>"
  have m: "manifest_from_value V (db_jsonb D v) = Inr m" using doc v by (simp add: values_documented_def)
  have row: "stored_manifest D V (row_key ns k) ?row" if "manifest_check (row_key ns k)"
    using v that by (auto simp: stored_manifest_def)
  have view: "tables_view V (tb\<lparr>tb_manifests := AList.update (row_key ns k) ?row (tb_manifests tb)\<rparr>) =
      (tables_view V tb)\<lparr>v_manifests := (v_manifests (tables_view V tb))((ns, k) \<mapsto> (etag, m))\<rparr>"
    using m by (auto simp: tables_view_def update_conv' fun_eq_iff)
  have "rows_ok (stored_manifest D V) (tb_manifests tb)" using tb by (simp add: tables_ok_def)
  note cases = write_manifest_cases [OF wr this]
  then show "tables_ok D V tb'" using tb row by (auto simp: tables_ok_def rows_ok_update)
  show "spec_commit_manifest ns k expected etag m (tables_view V tb) =
      (if n = 0 then ManifestPreconditionFailed else if expected \<noteq> None then ManifestUpdated else ManifestCreated,
       tables_view V tb')"
    using cases view unfolding spec_commit_manifest_def manifest_tag [OF doc tb] by auto
qed

lemma commit_manifest_correct:
  assumes doc: "values_documented D V" and inv: "postgres_inv D V s"
    and run: "postgres_commit_manifest D V ns k expected etag m s = (r, t)"
  shows "postgres_inv D V t \<and>
    (\<forall>out. r = Inr out \<longrightarrow> spec_commit_manifest ns k expected etag m (postgres_view V s) = (out, postgres_view V t)) \<and>
    (postgres_view V t = postgres_view V s \<or>
     postgres_view V t = snd (spec_commit_manifest ns k expected etag m (postgres_view V s)))"
proof (cases "manifest_to_value V m")
  case (Inl e)
  with inv run show ?thesis by (auto simp: postgres_commit_manifest_def liftr_def bindp_def)
next
  case (Inr v)
  obtain q u where q: "statement (write_manifest D (row_key ns k) expected etag v) s = (q, u)" by (rule prod.exhaust)
  note wr = statement_cases [OF q postgres_invD(1) [OF inv]]
  note effect = write_manifest_commits [OF doc postgres_invD(2) [OF inv] Inr]
  have "statement (write_manifest D (row_key ns k) expected etag v) =
      (case expected of Some e \<Rightarrow> statement (update_manifest D (row_key ns k) e etag v)
       | None \<Rightarrow> statement (insert_manifest D (row_key ns k) etag v))"
    by (simp add: write_manifest_def split: option.splits)
  with run Inr q have t: "t = u" and out: "\<forall>out. r = Inr out \<longrightarrow> (\<exists>n. q = Inr n \<and>
      out = (if n = 0 then ManifestPreconditionFailed else if expected \<noteq> None then ManifestUpdated else ManifestCreated))"
    by (cases q; auto simp: postgres_commit_manifest_def bindp_def liftr_def ok_def)+
  from wr consider (failed) "isl q" "pg_tables u = pg_tables s"
    | (written) now n where "write_manifest D (row_key ns k) expected etag v now (pg_tables s) = Inr (n, pg_tables u)"
        "q = Inr n \<or> isl q" by (auto simp: isl_def)
  moreover from wr have o: "pg_others u = []" ..
  ultimately show ?thesis
  proof cases
    case failed
    with t out o inv show ?thesis by (auto simp: postgres_inv_def postgres_view_def isl_def)
  next
    case written
    note ok = effect(1) [OF written(1)] and spec = effect(2) [OF written(1)]
    have "spec_commit_manifest ns k expected etag m (postgres_view V s) = (out, postgres_view V t)" if "r = Inr out" for out
      using out that t spec written(2) by (auto simp: postgres_view_def)
    moreover have "postgres_view V t = snd (spec_commit_manifest ns k expected etag m (postgres_view V s))"
      using spec t by (simp add: postgres_view_def)
    ultimately show ?thesis using ok o t by (simp add: postgres_inv_def)
  qed
qed

subsection \<open>Sweeping\<close>

lemma execute_cases:
  assumes "execute q s = (r, t)"
  shows "pg_others t = pg_others s \<and> pg_tables t = pg_tables s \<and> pg_now t = pg_now s \<and>
    (case r of Inl e \<Rightarrow> True | Inr x \<Rightarrow> q (pg_now s) (pg_working s) = Inr (x, pg_working t))"
  using assms
  by (auto simp: execute_def pg_next_def Let_def split: list.splits option.splits pg_fault.splits sum.splits prod.splits)

lemma begin_transaction_cases:
  assumes "begin_transaction s = (r, t)"
  shows "pg_others t = tl (pg_others s) \<and> pg_tables t = pg_tables (pg_interfere s) \<and> pg_now t = pg_now (pg_interfere s) \<and>
    (isl r \<or> pg_working t = pg_tables (pg_interfere s))"
  using assms
  by (auto simp: begin_transaction_def pg_next_def pg_interfere_def Let_def
      split: list.splits option.splits pg_fault.splits sum.splits prod.splits)

lemma commit_transaction_cases:
  assumes "commit_transaction s = (r, t)"
  shows "pg_others t = pg_others s \<and> (isl r \<and> pg_tables t = pg_tables s \<or> pg_tables t = pg_working s)"
  using assms
  by (auto simp: commit_transaction_def pg_next_def Let_def split: list.splits option.splits pg_fault.splits prod.splits)

text \<open>A sweep takes effect as a whole, at the tables it found, or not at all.\<close>

definition swept :: "database \<Rightarrow> u32 \<Rightarrow> int \<Rightarrow> pg_tables \<Rightarrow> string + sweep_outcome \<times> pg_tables" where
  "swept D days now tb =
     bind_result (delete_blobs D days now tb) (\<lambda>(blobs, tb).
     bind_result (delete_results D now tb) (\<lambda>(results, tb).
     bind_result (delete_manifests D days now tb) (\<lambda>(manifests, tb).
       Inr (\<lparr>so_blobs = blobs, so_action_results = results, so_manifests = manifests\<rparr>, tb))))"

lemma sweep_atomic:
  assumes "postgres_sweep D days s = (r, t)"
  shows "pg_others t = tl (pg_others s) \<and>
    (isl r \<and> pg_tables t = pg_tables (pg_interfere s) \<or>
     (\<exists>out. swept D days (pg_now (pg_interfere s)) (pg_tables (pg_interfere s)) = Inr (out, pg_tables t) \<and>
       (isl r \<or> r = Inr out)))"
  using assms unfolding postgres_sweep_def swept_def
  by (auto simp: bindp_def ok_def split: prod.splits sum.splits
      dest!: begin_transaction_cases execute_cases commit_transaction_cases)

lemma view_shrinks_refl [simp]: "view_shrinks v v"
  by (simp add: view_shrinks_def)

lemma map_of_kept: "rows_ok P rows \<Longrightarrow> map_of (filter p rows) k = Some row \<longleftrightarrow> map_of rows k = Some row \<and> p (k, row)"
  by (auto simp: rows_ok_def distinct_map_filter)

lemma dangles_blobs:
  assumes "tb_blobs tb = tb_blobs tb'"
  shows "dangles D tb = dangles D tb'"
  unfolding dangles_def assms ..

lemma intact_results_filter:
  "intact_results D tb rows = Inr kept \<Longrightarrow>
     kept = filter (\<lambda>(k, v). dangles D tb (fst k) (json_get v ''metadata'') = Inr False \<and>
                              dangles D tb (fst k) (json_get v ''output_root'') = Inr False) rows"
proof (induction rows arbitrary: kept)
  case (Cons kv rows)
  obtain k v where kv: "kv = (k, v)" by (rule prod.exhaust)
  from Cons.prems obtain m out rest where
    "dangles D tb (fst k) (json_get v ''metadata'') = Inr m" "dangles D tb (fst k) (json_get v ''output_root'') = Inr out"
    "intact_results D tb rows = Inr rest" "kept = (if m \<or> out then rest else (k, v) # rest)"
    unfolding kv intact_results.simps bind_result_Inr_iff by blast
  with Cons.IH [of rest] show ?case by (simp add: kv)
qed simp

text \<open>What a sweep leaves, and what it counts.\<close>

lemma swept_tables:
  assumes "swept D days now tb = Inr (out, tb')"
  shows "tb_blobs tb' = filter (\<lambda>(k, row). \<not> row_created row < db_days_before D now days) (tb_blobs tb)"
    and "tb_results tb' = filter (\<lambda>(k, v). dangles D tb' (fst k) (json_get v ''metadata'') = Inr False \<and>
                              dangles D tb' (fst k) (json_get v ''output_root'') = Inr False) (tb_results tb)"
    and "tb_manifests tb' = filter (\<lambda>(k, row). \<not> row_updated row < db_days_before D now days) (tb_manifests tb)"
    and "out = \<lparr>so_blobs = of_nat (length (tb_blobs tb) - length (tb_blobs tb')),
                so_action_results = of_nat (length (tb_results tb) - length (tb_results tb')),
                so_manifests = of_nat (length (tb_manifests tb) - length (tb_manifests tb'))\<rparr>"
proof -
  obtain kept where kept: "intact_results D (tb\<lparr>tb_blobs := tb_blobs tb'\<rparr>) (tb_results tb) = Inr kept"
    and tb': "tb_blobs tb' = filter (\<lambda>(k, row). \<not> row_created row < db_days_before D now days) (tb_blobs tb)"
      "tb_results tb' = kept"
      "tb_manifests tb' = filter (\<lambda>(k, row). \<not> row_updated row < db_days_before D now days) (tb_manifests tb)"
      "out = \<lparr>so_blobs = of_nat (length (tb_blobs tb) - length (tb_blobs tb')),
              so_action_results = of_nat (length (tb_results tb) - length (tb_results tb')),
              so_manifests = of_nat (length (tb_manifests tb) - length (tb_manifests tb'))\<rparr>"
    using assms by (auto simp: swept_def delete_blobs_def delete_results_def delete_manifests_def Let_def result_simps)
  have "dangles D (tb\<lparr>tb_blobs := tb_blobs tb'\<rparr>) = dangles D tb'" by (rule dangles_blobs) simp
  with intact_results_filter [OF kept] tb' show
    "tb_blobs tb' = filter (\<lambda>(k, row). \<not> row_created row < db_days_before D now days) (tb_blobs tb)"
    "tb_results tb' = filter (\<lambda>(k, v). dangles D tb' (fst k) (json_get v ''metadata'') = Inr False \<and>
                              dangles D tb' (fst k) (json_get v ''output_root'') = Inr False) (tb_results tb)"
    "tb_manifests tb' = filter (\<lambda>(k, row). \<not> row_updated row < db_days_before D now days) (tb_manifests tb)"
    "out = \<lparr>so_blobs = of_nat (length (tb_blobs tb) - length (tb_blobs tb')),
                so_action_results = of_nat (length (tb_results tb) - length (tb_results tb')),
                so_manifests = of_nat (length (tb_manifests tb) - length (tb_manifests tb'))\<rparr>"
    by simp_all
qed

lemma tables_shrink:
  assumes "tables_ok D V tb" and "tb_blobs tb' = filter p (tb_blobs tb)"
    and "tb_results tb' = filter p' (tb_results tb)" and "tb_manifests tb' = filter p'' (tb_manifests tb)"
  shows "tables_ok D V tb'" and "view_shrinks (tables_view V tb) (tables_view V tb')"
proof -
  have ok: "rows_ok (\<lambda>k _. blob_check k) (tb_blobs tb)" "rows_ok (stored_result D V) (tb_results tb)"
    "rows_ok (stored_manifest D V) (tb_manifests tb)" using assms(1) by (simp_all add: tables_ok_def)
  then show "tables_ok D V tb'" using assms by (simp add: tables_ok_def rows_ok_filter)
  have kept: "map_of (tb_blobs tb') (row_key ns d) = Some x \<Longrightarrow> map_of (tb_blobs tb) (row_key ns d) = Some x"
    "map_of (tb_results tb') (row_key ns d) = Some y \<Longrightarrow> map_of (tb_results tb) (row_key ns d) = Some y"
    "map_of (tb_manifests tb') (row_key ns d) = Some z \<Longrightarrow> map_of (tb_manifests tb) (row_key ns d) = Some z" for ns d x y z
    using assms ok [THEN map_of_kept] by simp_all
  have "v_blobs (tables_view V tb') \<subseteq> v_blobs (tables_view V tb)"
    using kept(1) by (auto simp: tables_view_def)
  moreover have "v_results (tables_view V tb') \<subseteq>\<^sub>m v_results (tables_view V tb)"
    using kept(2) by (force simp: tables_view_def map_le_def split: option.splits)
  moreover have "v_manifests (tables_view V tb') \<subseteq>\<^sub>m v_manifests (tables_view V tb)"
    using kept(3) by (force simp: tables_view_def map_le_def split: option.splits)
  ultimately show "view_shrinks (tables_view V tb) (tables_view V tb')" by (simp add: view_shrinks_def)
qed

lemma sweep_correct:
  assumes inv: "postgres_inv D V s" and run: "postgres_sweep D days s = (r, t)"
  shows "postgres_inv D V t \<and> view_shrinks (postgres_view V s) (postgres_view V t)"
proof -
  have found: "pg_tables (pg_interfere s) = pg_tables s" and "pg_others t = []"
    using postgres_invD(1) [OF inv] sweep_atomic [OF run] by (auto simp: pg_interfere_def Let_def)
  note ok = postgres_invD(2) [OF inv]
  have "tables_ok D V (pg_tables t) \<and> view_shrinks (tables_view V (pg_tables s)) (tables_view V (pg_tables t))"
    if "swept D days now (pg_tables s) = Inr (out, pg_tables t)" for now out
    using tables_shrink [OF ok swept_tables(1,2,3) [OF that]] by simp
  with sweep_atomic [OF run, unfolded found] ok
  have "tables_ok D V (pg_tables t) \<and> view_shrinks (tables_view V (pg_tables s)) (tables_view V (pg_tables t))"
    by (metis view_shrinks_refl)
  with \<open>pg_others t = []\<close> show ?thesis by (simp add: postgres_inv_def postgres_view_def)
qed

theorem postgres_laws:
  assumes doc: "values_documented D V"
  shows "metadata_store_laws (postgres_metadata_store D V) (postgres_view V) (postgres_inv D V)"
proof
  fix s t ns d and r2 :: "string + bool"
  assume "postgres_inv D V s" "ms_blob_visible (postgres_metadata_store D V) ns d s = (r2, t)"
  then show "postgres_inv D V t \<and> postgres_view V t = postgres_view V s \<and>
      (\<forall>b. r2 = Inr b \<longrightarrow> b = ((ns, d) \<in> v_blobs (postgres_view V s)))"
    using visible_blobs_correct [of D V s ns "[d]"]
    by (auto simp: postgres_metadata_store_def default_blob_visible_def bindp_def ok_def
        split: prod.splits sum.splits if_splits)
next
  fix s t ns k and r7 :: "string + manifest_record option"
  assume "postgres_inv D V s" "ms_get_manifest (postgres_metadata_store D V) ns k s = (r7, t)"
  then show "postgres_inv D V t \<and> postgres_view V t = postgres_view V s \<and>
      (\<forall>x. r7 = Inr x \<longrightarrow> map_option (\<lambda>r. (mr_etag r, mr_manifest r)) x = v_manifests (postgres_view V s) (ns, k))"
    using get_manifest_correct [OF doc] by (simp add: postgres_metadata_store_def)
next
  fix s t ns a and r4 :: "string + action_result option"
  assume "postgres_inv D V s" "ms_get (postgres_metadata_store D V) ns a s = (r4, t)"
  then show "postgres_inv D V t \<and> postgres_view V t = postgres_view V s \<and>
      (\<forall>x. r4 = Inr x \<longrightarrow> x = v_results (postgres_view V s) (ns, a))"
    using get_correct [OF doc] by (simp add: postgres_metadata_store_def postgres_view_def)
qed (unfold postgres_metadata_store_def metadata_store.select_convs,
    (rule visible_blobs_correct register_blob_correct touch_blobs_correct get_batch_correct [OF doc]
      commit_correct [OF doc] commit_manifest_correct [OF doc] sweep_correct; assumption)+)

section \<open>A concrete encoding\<close>

text \<open>
  The documents the serialisation library makes of results and manifests: a structure is an
  object of its fields, an absent option is null. \<^verbatim>\<open>jsonb\<close> keeps them as they are, prints a
  string as itself, and a number in decimal.
\<close>

definition digest_value :: "digest \<Rightarrow> json" where
  "digest_value d = JObject [(''algorithm'', JString (dg_algorithm d)), (''hash'', JString (dg_hash d)),
                             (''size'', JNumber (PosInt (dg_size d)))]"

definition value_digest :: "json \<Rightarrow> digest option" where
  "value_digest v =
     (case (Option.bind (json_get v ''algorithm'') as_str, Option.bind (json_get v ''hash'') as_str,
            Option.bind (json_get v ''size'') as_u64) of
        (Some a, Some h, Some n) \<Rightarrow> Some \<lparr>dg_algorithm = a, dg_hash = h, dg_size = n\<rparr>
      | _ \<Rightarrow> None)"

lemma value_digest_value [simp]: "value_digest (digest_value d) = Some d"
  by (simp add: value_digest_def digest_value_def json_get_def)

definition option_value :: "digest option \<Rightarrow> json" where
  "option_value x = (case x of None \<Rightarrow> JNull | Some d \<Rightarrow> digest_value d)"

definition value_option :: "json \<Rightarrow> digest option option" where
  "value_option v = (if v = JNull then Some None else map_option Some (value_digest v))"

lemma value_option_value [simp]: "value_option (option_value x) = Some x"
  by (cases x) (auto simp: value_option_def option_value_def, simp add: digest_value_def)

definition action_result_value :: "action_result \<Rightarrow> json" where
  "action_result_value r =
     JObject [(''version'', JNumber (PosInt (ucast (ar_version r)))), (''action'', digest_value (ar_action r)),
              (''metadata'', option_value (ar_metadata r)), (''output_root'', option_value (ar_output_root r))]"

definition value_action_result :: "json \<Rightarrow> string + action_result" where
  "value_action_result v =
     (case (Option.bind (json_get v ''version'') as_u64, Option.bind (json_get v ''action'') value_digest,
            Option.bind (json_get v ''metadata'') value_option, Option.bind (json_get v ''output_root'') value_option) of
        (Some n, Some a, Some m, Some out) \<Rightarrow>
          Inr \<lparr>ar_version = ucast n, ar_action = a, ar_metadata = m, ar_output_root = out\<rparr>
      | _ \<Rightarrow> Inl ''invalid result'')"

lemma ucast_u8_u64 [simp]: "(ucast (ucast (n :: u8) :: u64) :: u8) = n"
  by (rule bit_word_eqI) (simp add: bit_simps)

lemma value_action_result_value [simp]: "value_action_result (action_result_value r) = Inr r"
  by (simp add: value_action_result_def action_result_value_def json_get_def)

definition prediction_value :: "action_prediction \<Rightarrow> json" where
  "prediction_value p =
     JObject [(''action'', digest_value (ap_action p)), (''adapter'', JString (ap_adapter p)),
              (''invocation'', digest_value (ap_invocation p)), (''payload'', JString (ap_payload p))]"

definition value_prediction :: "json \<Rightarrow> action_prediction option" where
  "value_prediction v =
     (case (Option.bind (json_get v ''action'') value_digest, Option.bind (json_get v ''adapter'') as_str,
            Option.bind (json_get v ''invocation'') value_digest, Option.bind (json_get v ''payload'') as_str) of
        (Some a, Some d, Some i, Some p) \<Rightarrow>
          Some \<lparr>ap_action = a, ap_adapter = d, ap_invocation = i, ap_payload = p\<rparr>
      | _ \<Rightarrow> None)"

lemma value_prediction_value [simp]: "value_prediction (prediction_value p) = Some p"
  by (simp add: value_prediction_def prediction_value_def json_get_def)

definition manifest_value :: "task_action_manifest \<Rightarrow> json" where
  "manifest_value m =
     JObject [(''version'', JNumber (PosInt (ucast (tm_version m)))), (''task'', JString (tm_task m)),
              (''predictions'', JArray (map prediction_value (tm_predictions m)))]"

definition value_manifest :: "json \<Rightarrow> string + task_action_manifest" where
  "value_manifest v =
     (case (Option.bind (json_get v ''version'') as_u64, Option.bind (json_get v ''task'') as_str, json_get v ''predictions'') of
        (Some n, Some task, Some (JArray ps)) \<Rightarrow>
          Inr \<lparr>tm_version = ucast n, tm_task = task, tm_predictions = List.map_filter value_prediction ps\<rparr>
      | _ \<Rightarrow> Inl ''invalid manifest'')"

lemma value_manifest_value [simp]: "value_manifest (manifest_value m) = Inr m"
  by (simp add: value_manifest_def manifest_value_def json_get_def map_filter_def comp_def)

definition value_reference :: value_codec where
  "value_reference =
     \<lparr>result_to_value = Inr \<circ> action_result_value, result_from_value = value_action_result,
      manifest_to_value = Inr \<circ> manifest_value, manifest_from_value = value_manifest\<rparr>"

definition text_value :: "json \<Rightarrow> string option" where
  "text_value v = (case v of JString s \<Rightarrow> Some s | JNumber (PosInt n) \<Rightarrow> Some (show_u64 n) | _ \<Rightarrow> None)"

definition bigint_of :: "string \<Rightarrow> string + int" where
  "bigint_of s =
     bind_result (ok_or ''invalid input syntax for type bigint'' (digits_value 0 s)) (\<lambda>n.
     bind_result (ensure (int n < 9223372036854775808) ''value is out of range for type bigint'') (\<lambda>_. Inr (int n)))"

definition database_reference :: database where
  "database_reference =
     \<lparr>db_jsonb = id, db_text = text_value, db_bigint = bigint_of,
      db_days_before = (\<lambda>now days. now - 86400 * int (unat days))\<rparr>"

lemma reference_values_documented: "values_documented database_reference value_reference"
  by (simp add: values_documented_def database_reference_def value_reference_def)

interpretation pg: metadata_store_laws "postgres_metadata_store database_reference value_reference"
  "postgres_view value_reference" "postgres_inv database_reference value_reference"
  by (rule postgres_laws [OF reference_values_documented])

text \<open>How a stored document names the blobs of its result.\<close>

definition names_blob :: "database \<Rightarrow> json \<Rightarrow> string \<Rightarrow> digest \<Rightarrow> bool" where
  "names_blob D v field d \<longleftrightarrow>
     (\<exists>x n. json_get v field = Some x \<and> is_object x \<and> json_field D x ''algorithm'' = Some (dg_algorithm d) \<and>
        json_field D x ''hash'' = Some (dg_hash d) \<and> json_field D x ''size'' = Some n \<and>
        (\<forall>i. db_bigint D n = Inr i \<longleftrightarrow> i64_try_from (dg_size d) = Some i))"

definition documents_documented :: "database \<Rightarrow> value_codec \<Rightarrow> bool" where
  "documents_documented D V \<longleftrightarrow>
     (\<forall>r v d. result_to_value V r = Inr v \<longrightarrow>
        (ar_metadata r = Some d \<longrightarrow> names_blob D (db_jsonb D v) ''metadata'' d) \<and>
        (ar_output_root r = Some d \<longrightarrow> names_blob D (db_jsonb D v) ''output_root'' d))"

lemma bigint_of_u64: "bigint_of (show_u64 n) = Inr i \<longleftrightarrow> i64_try_from n = Some i"
  by (auto simp: bigint_of_def show_u64_def digits_value_show_nat ensure_def i64_try_from_def ok_or_def split: if_splits)

lemma reference_documents_documented: "documents_documented database_reference value_reference"
  by (auto simp: documents_documented_def names_blob_def value_reference_def database_reference_def action_result_value_def
      option_value_def digest_value_def json_get_def json_field_def text_value_def bigint_of_u64)

lemma names_blob_intact:
  assumes "names_blob D v field d" and "dangles D tb ns (json_get v field) = Inr False"
  shows "map_of (tb_blobs tb) (row_key ns d) \<noteq> None"
proof -
  obtain x n where x: "json_get v field = Some x" "is_object x" "json_field D x ''algorithm'' = Some (dg_algorithm d)"
    "json_field D x ''hash'' = Some (dg_hash d)" "json_field D x ''size'' = Some n"
    and n: "db_bigint D n = Inr i \<Longrightarrow> i = sint (dg_size d)" for i
    using assms(1) unfolding names_blob_def i64_try_from_sint by blast
  with assms(2) show ?thesis
    by (auto simp: dangles_def reference_key_def row_key_def result_simps split: option.splits)
qed

lemma swept_references:
  assumes docs: "documents_documented D V" and doc: "values_documented D V" and tb: "tables_ok D V tb"
    and swept: "swept D days now tb = Inr (out, tb')"
    and r: "v_results (tables_view V tb') (ns, a) = Some r" and d: "ar_metadata r = Some d \<or> ar_output_root r = Some d"
  shows "(ns, d) \<in> v_blobs (tables_view V tb')"
proof -
  note left = swept_tables(2) [OF swept]
  from r obtain v where v: "map_of (tb_results tb') (row_key ns a) = Some v" "result_from_value V v = Inr r"
    by (auto simp: tables_view_def split: option.splits sum.splits)
  have "rows_ok (stored_result D V) (tb_results tb)" using tb by (simp add: tables_ok_def)
  from map_of_kept [OF this] v(1) left have old: "map_of (tb_results tb) (row_key ns a) = Some v"
    and kept: "dangles D tb' ns (json_get v ''metadata'') = Inr False" "dangles D tb' ns (json_get v ''output_root'') = Inr False"
    by (auto simp: row_key_def)
  obtain w where "result_to_value V r = Inr w" "v = db_jsonb D w"
    using result_row [OF doc tb old] v(2) by (metis Inr_inject)
  with docs d have "names_blob D v ''metadata'' d \<or> names_blob D v ''output_root'' d"
    unfolding documents_documented_def by blast
  with kept have "map_of (tb_blobs tb') (row_key ns d) \<noteq> None" using names_blob_intact by blast
  then show ?thesis by (simp add: tables_view_def)
qed

section \<open>Concurrent clients\<close>

lemma statement_at:
  assumes "statement q s = (Inr x, t)"
  shows "q (pg_now (pg_interfere s)) (pg_tables (pg_interfere s)) = Inr (x, pg_tables t)" and "pg_others t = tl (pg_others s)"
  using assms
  by (auto simp: statement_def pg_next_def pg_interfere_def Let_def
      split: list.splits option.splits pg_fault.splits sum.splits prod.splits)

text \<open>Other clients keep the tables in order and remove or replace no result.\<close>

definition keeps_results :: "database \<Rightarrow> value_codec \<Rightarrow> (pg_tables \<Rightarrow> pg_tables) \<Rightarrow> bool" where
  "keeps_results D V f \<longleftrightarrow>
     (\<forall>tb. tables_ok D V tb \<longrightarrow>
        tables_ok D V (f tb) \<and> v_results (tables_view V tb) \<subseteq>\<^sub>m v_results (tables_view V (f tb)))"

lemma interfere_keeps:
  assumes "\<forall>f \<in> set (pg_others s). keeps_results D V f" and "tables_ok D V (pg_tables s)"
  shows "tables_ok D V (pg_tables (pg_interfere s))"
    and "v_results (postgres_view V s) \<subseteq>\<^sub>m v_results (postgres_view V (pg_interfere s))"
  using assms by (cases "pg_others s"; auto simp: pg_interfere_def Let_def keeps_results_def postgres_view_def)+

lemma get_at:
  assumes doc: "values_documented D V" and ok: "tables_ok D V (pg_tables (pg_interfere s))"
    and run: "postgres_get V ns a s = (Inr x, t)"
  shows "x = v_results (postgres_view V (pg_interfere s)) (ns, a)" and "pg_tables t = pg_tables (pg_interfere s)"
proof -
  let ?tb = "pg_tables (pg_interfere s)"
  obtain row u where q: "statement (select_result (row_key ns a)) s = (Inr row, u)"
    and res: "(case row of None \<Rightarrow> ok None | Some v \<Rightarrow> liftr (bind_result (result_from_value V v) (\<lambda>r. Inr (Some r)))) u = (Inr x, t)"
    using run by (auto simp: postgres_get_def bindp_def split: prod.splits sum.splits)
  from statement_at(1) [OF q] have row: "row = map_of (tb_results ?tb) (row_key ns a)" and u: "pg_tables u = ?tb"
    by (auto simp: select_result_def)
  from res u show "pg_tables t = ?tb" by (auto simp: ok_def liftr_def split: option.splits)
  show "x = v_results (postgres_view V (pg_interfere s)) (ns, a)"
    using res row
    by (auto simp: postgres_view_def tables_view_def ok_def liftr_def result_simps split: option.splits sum.splits)
qed

section \<open>Properties\<close>

text \<open>
  C22. The PostgreSQL store refines the abstract metadata store: on tables in order every method,
  whatever faults its statements meet, has the result and the effect the abstract view gives, or
  reports an error and has had that effect or none.
\<close>

theorem postgres_refines_contract:
  assumes "values_documented D V"
  shows "metadata_store_laws (postgres_metadata_store D V) (postgres_view V) (postgres_inv D V)"
  using assms by (rule postgres_laws)

definition empty_tables :: pg_tables where
  "empty_tables = \<lparr>tb_results = [], tb_blobs = [], tb_manifests = []\<rparr>"

definition fresh_postgres :: "(pg_tables \<Rightarrow> pg_tables) list \<Rightarrow> postgres" where
  "fresh_postgres others =
     \<lparr>pg_tables = empty_tables, pg_working = empty_tables, pg_now = 0, pg_ticks = [], pg_faults = [], pg_others = others\<rparr>"

theorem postgres_refines_contract_witness:
  "metadata_store_laws (postgres_metadata_store database_reference value_reference)
     (postgres_view value_reference) (postgres_inv database_reference value_reference) \<and>
   postgres_inv database_reference value_reference (fresh_postgres [])"
  using postgres_refines_contract [OF reference_values_documented]
  by (simp add: postgres_inv_def fresh_postgres_def tables_ok_def rows_ok_def empty_tables_def)

text \<open>
  C23. A commit among concurrent clients that remove no results decides as if it ran alone at the
  moment of its insertion, although the lookup after a conflict is a second statement: its
  outcome is the one of that moment, and what it then found or stored is still there when it
  returns.
\<close>

theorem postgres_commit_concurrent:
  assumes doc: "values_documented D V" and ok: "tables_ok D V (pg_tables s)"
    and others: "\<forall>f \<in> set (pg_others s). keeps_results D V f"
    and run: "postgres_commit D V ns a res s = (Inr out, t)"
  shows "out = fst (spec_commit ns a res (postgres_view V (pg_interfere s))) \<and>
    v_results (snd (spec_commit ns a res (postgres_view V (pg_interfere s)))) \<subseteq>\<^sub>m v_results (postgres_view V t)"
proof -
  note at = interfere_keeps [OF others ok]
  obtain v n u where v: "result_to_value V res = Inr v"
    and q: "statement (insert_result D (row_key ns a) v) s = (Inr n, u)"
    using run by (auto simp: postgres_commit_def bindp_def liftr_def split: prod.splits sum.splits)
  note ins = insert_result_commits [OF doc at(1) v statement_at(1) [OF q], folded postgres_view_def]
  show ?thesis
  proof (cases "n = 1")
    case True
    with run v q have "out = CommitCreated" "t = u" by (auto simp: postgres_commit_def bindp_def liftr_def ok_def)
    with ins(2) [OF True] show ?thesis by (simp add: postgres_view_def)
  next
    case False
    from ins(3) [OF False] have u: "pg_tables u = pg_tables (pg_interfere s)"
      and "v_results (postgres_view V (pg_interfere s)) (ns, a) \<noteq> None" by auto
    then obtain r0 where r0: "v_results (postgres_view V (pg_interfere s)) (ns, a) = Some r0" by blast
    have "\<forall>f \<in> set (pg_others u). keeps_results D V f" "tables_ok D V (pg_tables u)"
      using statement_at(2) [OF q] others at(1) u by (cases "pg_others s"; auto)+
    note later = interfere_keeps [OF this]
    obtain x w e where g: "postgres_get V ns a u = (Inr (Some x), w)" and e: "result_to_value V x = Inr e"
      and out: "out = (if e = v then CommitAlreadyExists else CommitConflict)" and t: "t = w"
      using run v q False
      by (auto simp: postgres_commit_def bindp_def liftr_def ok_def ok_or_def split: prod.splits sum.splits option.splits)
    note get = get_at [OF doc later(1) g]
    have mono: "v_results (postgres_view V (pg_interfere s)) \<subseteq>\<^sub>m v_results (postgres_view V (pg_interfere u))"
      using later(2) u by (simp add: postgres_view_def)
    with r0 get(1) have "x = r0" by (metis domI map_le_def option.inject)
    with r0 out compare_encodings [OF doc v e] have "spec_commit ns a res (postgres_view V (pg_interfere s)) =
        (out, postgres_view V (pg_interfere s))" by (simp add: spec_commit_def)
    with mono get(2) t show ?thesis by (simp add: postgres_view_def)
  qed
qed

text \<open>Another client of the witness: it commits a result of its own to the same action.\<close>

definition rival :: "string \<Rightarrow> digest \<Rightarrow> action_result \<Rightarrow> pg_tables \<Rightarrow> pg_tables" where
  "rival ns a r tb =
     (case insert_result database_reference (row_key ns a) (action_result_value r) 0 tb of Inl _ \<Rightarrow> tb | Inr (_, tb') \<Rightarrow> tb')"

lemma rival_keeps: "keeps_results database_reference value_reference (rival ns a r)"
  unfolding keeps_results_def
proof (intro allI impI)
  fix tb assume tb: "tables_ok database_reference value_reference tb"
  have v: "result_to_value value_reference r = Inr (action_result_value r)" by (simp add: value_reference_def)
  show "tables_ok database_reference value_reference (rival ns a r tb) \<and>
      v_results (tables_view value_reference tb) \<subseteq>\<^sub>m v_results (tables_view value_reference (rival ns a r tb))"
  proof (cases "insert_result database_reference (row_key ns a) (action_result_value r) 0 tb")
    case (Inr p)
    then obtain n tb' where ins: "insert_result database_reference (row_key ns a) (action_result_value r) 0 tb = Inr (n, tb')"
      by (cases p) auto
    note effect = insert_result_commits [OF reference_values_documented tb v ins]
    have "v_results (tables_view value_reference tb) \<subseteq>\<^sub>m v_results (tables_view value_reference tb')"
    proof (cases "n = 1")
      case True
      with effect(2) spec_grows(2) [of "tables_view value_reference tb" ns a r] show ?thesis by (simp add: view_grows_def)
    qed (use effect(3) in simp)
    with effect(1) ins show ?thesis by (simp add: rival_def)
  qed (simp add: rival_def tb)
qed

definition first_action :: digest where
  "first_action = \<lparr>dg_algorithm = ''blake3'', dg_hash = ''00'', dg_size = 3\<rparr>"

definition bare_result :: "u8 \<Rightarrow> digest option \<Rightarrow> action_result" where
  "bare_result n d = \<lparr>ar_version = n, ar_action = first_action, ar_metadata = d, ar_output_root = None\<rparr>"

definition contested :: postgres where
  "contested = fresh_postgres [rival ''team'' first_action (bare_result 1 None)]"

theorem postgres_commit_concurrent_witness:
  "\<exists>t. postgres_commit database_reference value_reference ''team'' first_action (bare_result 2 None) contested = (Inr CommitConflict, t) \<and>
     v_results (postgres_view value_reference t) (''team'', first_action) = Some (bare_result 1 None)"
proof -
  let ?run = "postgres_commit database_reference value_reference ''team'' first_action (bare_result 2 None) contested"
  have "fst ?run = Inr CommitConflict" by code_simp
  then obtain t where t: "?run = (Inr CommitConflict, t)" by (metis prod.collapse)
  have "tables_ok database_reference value_reference (pg_tables contested)"
    "\<forall>f \<in> set (pg_others contested). keeps_results database_reference value_reference f"
    by (simp_all add: contested_def fresh_postgres_def rival_keeps tables_ok_def rows_ok_def empty_tables_def)
  from postgres_commit_concurrent [OF reference_values_documented this t]
  have le: "v_results (snd (spec_commit ''team'' first_action (bare_result 2 None) (postgres_view value_reference (pg_interfere contested))))
      \<subseteq>\<^sub>m v_results (postgres_view value_reference t)" ..
  have "map_of (tb_results (pg_tables (pg_interfere contested))) (row_key ''team'' first_action) = Some (action_result_value (bare_result 1 None))"
    by code_simp
  then have "v_results (postgres_view value_reference (pg_interfere contested)) (''team'', first_action) = Some (bare_result 1 None)"
    by (simp add: postgres_view_def tables_view_def value_reference_def)
  with le have "v_results (postgres_view value_reference t) (''team'', first_action) = Some (bare_result 1 None)"
    by (auto simp: spec_commit_def map_le_def dom_def)
  with t show ?thesis by blast
qed

text \<open>
  C24. A sweep is exact and leaves nothing dangling: it removes precisely the blobs registered
  before the cut-off, a result that survives refers only to blobs that survive, no result or
  manifest is added or changed, and the outcome counts the rows removed of each table.
\<close>

theorem postgres_sweep_exact:
  assumes docs: "values_documented D V" "documents_documented D V"
    and ok: "tables_ok D V (pg_tables (pg_interfere s))"
    and run: "postgres_sweep D days s = (Inr out, t)"
  defines "old \<equiv> pg_tables (pg_interfere s)" and "cutoff \<equiv> db_days_before D (pg_now (pg_interfere s)) days"
  shows "tb_blobs (pg_tables t) = filter (\<lambda>(k, row). row_created row \<ge> cutoff) (tb_blobs old) \<and>
    (\<forall>ns a r d. v_results (postgres_view V t) (ns, a) = Some r \<and> (ar_metadata r = Some d \<or> ar_output_root r = Some d)
       \<longrightarrow> (ns, d) \<in> v_blobs (postgres_view V t)) \<and>
    tables_ok D V (pg_tables t) \<and> view_shrinks (tables_view V old) (postgres_view V t) \<and>
    out = \<lparr>so_blobs = of_nat (length (tb_blobs old) - length (tb_blobs (pg_tables t))),
           so_action_results = of_nat (length (tb_results old) - length (tb_results (pg_tables t))),
           so_manifests = of_nat (length (tb_manifests old) - length (tb_manifests (pg_tables t)))\<rparr>"
proof -
  from sweep_atomic [OF run] have sw: "swept D days (pg_now (pg_interfere s)) old = Inr (out, pg_tables t)"
    by (auto simp: old_def)
  note left = swept_tables [OF sw]
  show ?thesis
    using left(1,4) tables_shrink [OF ok [folded old_def] left(1,2,3)] swept_references [OF docs(2,1) ok [folded old_def] sw]
    unfolding postgres_view_def cutoff_def not_less by blast
qed

definition aged :: postgres where
  "aged = (fresh_postgres [])\<lparr>pg_now := 200000, pg_tables :=
     \<lparr>tb_results = [(row_key ''team'' first_action, action_result_value (bare_result 1 (Some first_action)))],
      tb_blobs = [(row_key ''team'' first_action, \<lparr>row_created = 5, row_accessed = 199999\<rparr>),
                  (row_key ''other'' first_action, \<lparr>row_created = 150000, row_accessed = 150000\<rparr>)],
      tb_manifests = []\<rparr>\<rparr>"

theorem postgres_sweep_exact_witness:
  "\<exists>t. postgres_sweep database_reference 1 aged =
       (Inr \<lparr>so_blobs = 1, so_action_results = 1, so_manifests = 0\<rparr>, t) \<and>
     tb_blobs (pg_tables t) = [(row_key ''other'' first_action, \<lparr>row_created = 150000, row_accessed = 150000\<rparr>)]"
proof -
  have "fst (postgres_sweep database_reference 1 aged) = Inr \<lparr>so_blobs = 1, so_action_results = 1, so_manifests = 0\<rparr>"
    by code_simp
  then obtain t where t: "postgres_sweep database_reference 1 aged =
      (Inr \<lparr>so_blobs = 1, so_action_results = 1, so_manifests = 0\<rparr>, t)" by (metis prod.collapse)
  have "tables_ok database_reference value_reference (pg_tables (pg_interfere aged))"
    by (auto simp: aged_def pg_interfere_def fresh_postgres_def tables_ok_def rows_ok_def stored_result_def blob_check_def
        row_key_def first_action_def value_reference_def database_reference_def)
  from postgres_sweep_exact [OF reference_values_documented reference_documents_documented this t] t show ?thesis
    by (simp add: aged_def pg_interfere_def fresh_postgres_def database_reference_def)
qed

end
