(* ===== verification/Config.thy ===== *)
theory Config
  imports Filesystem
begin

text \<open>
  \<^verbatim>\<open>src/config.rs\<close>: the configuration and how the command line gives it. The argument parser
  is a library; of it the model takes \<open>given\<close>, the text an option received from its flag or its
  environment variable, and \<open>switched\<close>, the value of a switch, and it follows the declared
  parsers, ranges and defaults.
\<close>

datatype storage_kind = KindAzure | KindFilesystem | KindS3

record config =
  cf_listen :: string
  cf_storage :: storage_kind
  cf_data_dir :: fpath
  cf_database_url :: string
  cf_database_max_connections :: u32
  cf_sweep_metadata_older_than_days :: "u32 option"
  cf_azure_account :: "string option"
  cf_azure_container :: "string option"
  cf_azure_prefix :: string
  cf_azure_credential_type :: string
  cf_azure_endpoint :: "string option"
  cf_azure_allow_http :: bool
  cf_s3_bucket :: "string option"
  cf_s3_prefix :: string
  cf_s3_endpoint :: "string option"
  cf_s3_region :: string
  cf_s3_path_style :: bool
  cf_tokens_json :: "string option"
  cf_oidc_providers_json :: "string option"
  cf_allow_anonymous :: bool
  cf_anonymous_read_namespaces_json :: "string option"
  cf_max_blob_bytes :: u64

text \<open>What the model takes from the argument parser and the standard library.\<close>

record command_line =
  given :: "string \<Rightarrow> string option"
  switched :: "string \<Rightarrow> string + bool"
  parse_address :: "string \<Rightarrow> string + string"
  parse_path :: "string \<Rightarrow> fpath"

definition given_or :: "command_line \<Rightarrow> string \<Rightarrow> string \<Rightarrow> string" where
  "given_or A name preset = (case given A name of None \<Rightarrow> preset | Some s \<Rightarrow> s)"

fun parse_storage :: "string \<Rightarrow> string + storage_kind" where
  "parse_storage s =
     (if s = ''azure'' then Inr KindAzure
      else if s = ''filesystem'' then Inr KindFilesystem
      else if s = ''s3'' then Inr KindS3
      else Inl ''invalid value for --storage'')"

text \<open>\<^verbatim>\<open>clap\<close> reads a \<^verbatim>\<open>u32\<close> as an \<^verbatim>\<open>i64\<close> and then checks its range.\<close>

definition parse_i64 :: "string \<Rightarrow> int option" where
  "parse_i64 s =
     (let (negative, ds) = (case s of [] \<Rightarrow> (False, [])
            | c # cs \<Rightarrow> if c = CHR ''-'' then (True, cs) else if c = CHR ''+'' then (False, cs) else (False, s))
      in if ds = [] then None
         else Option.bind (digits_value 0 ds) (\<lambda>n.
           let i = (if negative then - int n else int n) in
           if - (2 ^ 63) \<le> i \<and> i < 2 ^ 63 then Some i else None))"

definition parse_u32 :: "string \<Rightarrow> string + u32" where
  "parse_u32 s =
     (case parse_i64 s of
        Some n \<Rightarrow> if 0 \<le> n \<and> n < 4294967296 then Inr (of_int n) else Inl ''value is not in range''
      | None \<Rightarrow> Inl ''invalid digit found in string'')"

text \<open>\<^verbatim>\<open>clap::value_parser!(u32).range(1..)\<close>\<close>

definition parse_max_connections :: "string \<Rightarrow> string + u32" where
  "parse_max_connections s =
     bind_result (parse_u32 s) (\<lambda>n. bind_result (ensure (n \<ge> 1) ''value is not in 1..'') (\<lambda>_. Inr n))"

definition optional :: "('a \<Rightarrow> 'e + 'b) \<Rightarrow> 'a option \<Rightarrow> 'e + 'b option" where
  "optional f x = (case x of None \<Rightarrow> Inr None | Some y \<Rightarrow> bind_result (f y) (\<lambda>z. Inr (Some z)))"

definition Config_parse :: "command_line \<Rightarrow> string + config" where
  "Config_parse A =
     bind_result (parse_address A (given_or A ''listen'' ''0.0.0.0:8080'')) (\<lambda>listen.
     bind_result (parse_storage (given_or A ''storage'' ''filesystem'')) (\<lambda>storage.
     bind_result (case given A ''database-max-connections'' of None \<Rightarrow> Inr 32 | Some s \<Rightarrow> parse_max_connections s) (\<lambda>max_connections.
     bind_result (optional parse_u32 (given A ''sweep-metadata-older-than-days'')) (\<lambda>sweep_days.
     bind_result (switched A ''azure-allow-http'') (\<lambda>azure_allow_http.
     bind_result (switched A ''s3-path-style'') (\<lambda>s3_path_style.
     bind_result (switched A ''allow-anonymous'') (\<lambda>allow_anonymous.
     bind_result (case given A ''max-blob-bytes'' of None \<Rightarrow> Inr (5 * 1024 * 1024 * 1024)
                  | Some s \<Rightarrow> ok_or ''invalid value for --max-blob-bytes'' (parse_u64 s)) (\<lambda>max_blob_bytes.
     Inr \<lparr>cf_listen = listen,
          cf_storage = storage,
          cf_data_dir = parse_path A (given_or A ''data-dir'' ''/var/lib/mbx-cache''),
          cf_database_url = given_or A ''database-url'' ''memory://'',
          cf_database_max_connections = max_connections,
          cf_sweep_metadata_older_than_days = sweep_days,
          cf_azure_account = given A ''azure-account'',
          cf_azure_container = given A ''azure-container'',
          cf_azure_prefix = given_or A ''azure-prefix'' ''v1'',
          cf_azure_credential_type = given_or A ''azure-credential-type'' ''auto'',
          cf_azure_endpoint = given A ''azure-endpoint'',
          cf_azure_allow_http = azure_allow_http,
          cf_s3_bucket = given A ''s3-bucket'',
          cf_s3_prefix = given_or A ''s3-prefix'' ''v1'',
          cf_s3_endpoint = given A ''s3-endpoint'',
          cf_s3_region = given_or A ''s3-region'' ''us-east-1'',
          cf_s3_path_style = s3_path_style,
          cf_tokens_json = given A ''tokens-json'',
          cf_oidc_providers_json = given A ''oidc-providers-json'',
          cf_allow_anonymous = allow_anonymous,
          cf_anonymous_read_namespaces_json = given A ''anonymous-read-namespaces-json'',
          cf_max_blob_bytes = max_blob_bytes\<rparr>))))))))"

lemma Config_parse_fields:
  assumes "Config_parse A = Inr cfg"
  shows "cf_database_max_connections cfg \<noteq> 0"
    and "cf_database_url cfg = given_or A ''database-url'' ''memory://''"
    and "switched A ''allow-anonymous'' = Inr (cf_allow_anonymous cfg)"
proof -
  have "parse_max_connections s = Inr n \<Longrightarrow> n \<noteq> 0" for s n
    by (auto simp: parse_max_connections_def result_simps ensure_def split: if_splits)
  with assms show "cf_database_max_connections cfg \<noteq> 0"
    "cf_database_url cfg = given_or A ''database-url'' ''memory://''"
    "switched A ''allow-anonymous'' = Inr (cf_allow_anonymous cfg)"
    by (auto simp: Config_parse_def result_simps split: option.splits)
qed

end
