(* ===== verification/Object_Stores.thy ===== *)
theory Object_Stores
  imports Config
begin

text \<open>
  What the two object stores, \<^verbatim>\<open>src/storage/s3.rs\<close> and \<^verbatim>\<open>src/storage/azure.rs\<close>, have in common. A
  service keeps objects under keys, each with its bytes and whether it is complete: a copy
  that was accepted may be pending for a while. \<open>foreign\<close> says what other clients of the service
  may still write. Expiry by a lifecycle rule of the bucket is left out: no object is lost.
\<close>

type_synonym 'k objects = "'k \<Rightarrow> (bytes \<times> bool) option"

text \<open>
  What one request may do: outside the keys \<open>loose\<close> objects keep their bytes and stay
  complete, and what is new was to come from others or is in \<open>written\<close>.
\<close>

definition grows ::
  "('b \<Rightarrow> 'k objects) \<Rightarrow> ('b \<Rightarrow> 'k \<Rightarrow> bytes \<Rightarrow> bool) \<Rightarrow> 'k set \<Rightarrow> ('k \<times> bytes) set \<Rightarrow> 'b \<Rightarrow> 'b \<Rightarrow> bool" where
  "grows objects foreign loose written s t \<longleftrightarrow>
     (\<forall>k bs c. k \<notin> loose \<and> objects s k = Some (bs, c) \<longrightarrow> (\<exists>c'. objects t k = Some (bs, c') \<and> (c \<longrightarrow> c'))) \<and>
     (\<forall>k bs c. k \<notin> loose \<and> objects t k = Some (bs, c) \<longrightarrow>
        (\<exists>c'. objects s k = Some (bs, c')) \<or> foreign s k bs \<or> (k, bs) \<in> written) \<and>
     (\<forall>k bs. foreign t k bs \<longrightarrow> foreign s k bs)"

lemma grows_refl [simp, intro]: "grows objects foreign loose written s s"
  by (auto simp: grows_def)

lemma grows_trans:
  assumes "grows objects foreign loose written s t" and "grows objects foreign loose written t u"
  shows "grows objects foreign loose written s u"
  unfolding grows_def
proof (intro conjI allI impI)
  fix k bs c assume "k \<notin> loose \<and> objects s k = Some (bs, c)"
  with assms show "\<exists>c'. objects u k = Some (bs, c') \<and> (c \<longrightarrow> c')" unfolding grows_def by meson
next
  fix k bs c assume "k \<notin> loose \<and> objects u k = Some (bs, c)"
  with assms show "(\<exists>c'. objects s k = Some (bs, c')) \<or> foreign s k bs \<or> (k, bs) \<in> written" unfolding grows_def by meson
next
  fix k bs assume "foreign u k bs"
  with assms show "foreign s k bs" unfolding grows_def by blast
qed

lemma grows_mono:
  assumes "grows objects foreign loose written s t" and "loose \<subseteq> loose'" and "written \<subseteq> written'"
  shows "grows objects foreign loose' written' s t"
  using assms unfolding grows_def by (meson subset_iff)

lemma grows_complete:
  "grows objects foreign loose written s t \<Longrightarrow> k \<notin> loose \<Longrightarrow> objects s k = Some (bs, True) \<Longrightarrow> objects t k = Some (bs, True)"
  unfolding grows_def by (metis (full_types))

text \<open>The blobs among the objects: the complete ones under the keys of valid digests.\<close>

definition object_content :: "protocol \<Rightarrow> (digest \<Rightarrow> 'k) \<Rightarrow> ('b \<Rightarrow> 'k objects) \<Rightarrow> 'b \<Rightarrow> digest \<Rightarrow> bytes option" where
  "object_content P key objects s d =
     (if digest_validate P d then (case objects s (key d) of Some (bs, True) \<Rightarrow> Some bs | _ \<Rightarrow> None) else None)"

definition object_foreign ::
  "protocol \<Rightarrow> (digest \<Rightarrow> 'k) \<Rightarrow> ('b \<Rightarrow> 'k objects) \<Rightarrow> ('b \<Rightarrow> 'k \<Rightarrow> bytes \<Rightarrow> bool) \<Rightarrow> 'b \<Rightarrow> digest \<Rightarrow> bytes \<Rightarrow> bool" where
  "object_foreign P key objects foreign s d bs \<longleftrightarrow>
     digest_validate P d \<and> (foreign s (key d) bs \<or> objects s (key d) = Some (bs, False))"

lemma object_content_Some:
  "object_content P key objects s d = Some bs \<longleftrightarrow> digest_validate P d \<and> objects s (key d) = Some (bs, True)"
  by (auto simp: object_content_def split: option.splits bool.splits)

lemma grows_extends:
  assumes grows: "grows objects foreign loose written s t"
    and loose: "\<And>d. digest_validate P d \<Longrightarrow> key d \<notin> loose"
    and written: "\<And>d bs. digest_validate P d \<Longrightarrow> (key d, bs) \<in> written \<Longrightarrow> (d, bs) \<in> new"
  shows "extends (object_content P key objects) (object_foreign P key objects foreign) new s t"
  unfolding extends_def object_content_Some object_foreign_def
proof (intro conjI allI impI)
  note old = grows [unfolded grows_def, THEN conjunct1, rule_format]
  note origin = grows [unfolded grows_def, THEN conjunct2, THEN conjunct1, rule_format]
  fix d bs
  show "digest_validate P d" if "digest_validate P d \<and> objects s (key d) = Some (bs, True)" using that by simp
  show "objects t (key d) = Some (bs, True)" if "digest_validate P d \<and> objects s (key d) = Some (bs, True)"
    using that loose grows_complete [OF grows] by blast
  show "(digest_validate P d \<and> objects s (key d) = Some (bs, True)) \<or>
      (digest_validate P d \<and> (foreign s (key d) bs \<or> objects s (key d) = Some (bs, False))) \<or> (d, bs) \<in> new"
    if "digest_validate P d \<and> objects t (key d) = Some (bs, True)"
    using that origin [of "key d" bs True] loose written by (metis (full_types))
  show "digest_validate P d \<and> (foreign s (key d) bs \<or> objects s (key d) = Some (bs, False)) \<or> (d, bs) \<in> new"
    if pending: "digest_validate P d \<and> (foreign t (key d) bs \<or> objects t (key d) = Some (bs, False))"
  proof (cases "foreign t (key d) bs")
    case True
    with grows pending show ?thesis unfolding grows_def by blast
  next
    case False
    with pending have "objects t (key d) = Some (bs, False)" "digest_validate P d" "key d \<notin> loose"
      using loose by auto
    moreover from this have "objects s (key d) \<noteq> Some (bs, True)" using grows_complete [OF grows] by fastforce
    ultimately show ?thesis using origin [of "key d" bs False] written by (metis (full_types))
  qed
qed

text \<open>Valid digests have different keys.\<close>

definition keys_documented :: "protocol \<Rightarrow> bool" where
  "keys_documented P \<longleftrightarrow>
     (\<forall>d e. digest_validate P d \<and> digest_validate P e \<and> digest_key P d = digest_key P e \<longrightarrow> d = e)"

lemma reference_keys_documented: "keys_documented reference_protocol"
  unfolding keys_documented_def
proof (intro allI impI, elim conjE)
  fix d e
  assume valid: "digest_validate reference_protocol d" "digest_validate reference_protocol e"
    and key: "digest_key reference_protocol d = digest_key reference_protocol e"
  from valid have alg: "length (dg_algorithm d) = 6" "length (dg_algorithm e) = 6"
    and hash: "length (dg_hash d) = 64" "length (dg_hash e) = 64"
    by (auto simp: reference_protocol_def)
  from key alg hash have "dg_algorithm d = dg_algorithm e" "dg_hash d = dg_hash e" "show_u64 (dg_size d) = show_u64 (dg_size e)"
    by (auto simp: reference_protocol_def)
  then show "d = e" by (intro digest.equality) (simp_all add: show_u64_def word_unat_eq_iff)
qed

end
