(* ===== verification/S3.thy ===== *)
theory S3
  imports Object_Stores
begin

text \<open>
  \<^verbatim>\<open>src/storage/s3.rs\<close>. The client of the service is the record \<open>s3_client\<close> of the requests the
  store sends, over a state of the service and its environment; the locale \<open>s3_service\<close> states
  the documented behaviour the store relies on, conditional writes above all. The proof that
  the store then keeps the blob-store contract follows.
\<close>

section \<open>The client library\<close>

record s3_error =
  se_no_such_key :: bool
  se_status :: "nat option"
  se_message :: string

record s3_object =
  ob_content_length :: "int option"
  ob_body :: stream

record s3_location =
  lo_region :: string
  lo_endpoint :: "string option"
  lo_path_style :: bool

record 'b s3_client =
  s3_get_object :: "s3_location \<Rightarrow> string \<Rightarrow> string \<Rightarrow> ('b, s3_error, s3_object) prog"
  s3_put_object :: "s3_location \<Rightarrow> string \<Rightarrow> string \<Rightarrow> string option \<Rightarrow> bytes \<Rightarrow> ('b, s3_error, unit) prog"
  s3_from_path :: "bytes \<Rightarrow> ('b, string, bytes) prog"

section \<open>The store\<close>

record s3_store =
  s3_location :: s3_location
  s3_bucket :: string
  s3_prefix :: string

definition S3Store_new :: "config \<Rightarrow> string + s3_store" where
  "S3Store_new cfg =
     bind_result (ok_or ''--s3-bucket is required with S3 storage'' (cf_s3_bucket cfg)) (\<lambda>bucket.
       Inr \<lparr>s3_location = \<lparr>lo_region = cf_s3_region cfg, lo_endpoint = cf_s3_endpoint cfg, lo_path_style = cf_s3_path_style cfg\<rparr>,
            s3_bucket = bucket,
            s3_prefix = trim_matches (CHR ''/'') (cf_s3_prefix cfg)\<rparr>)"

definition S3Store_key :: "protocol \<Rightarrow> s3_store \<Rightarrow> digest \<Rightarrow> string" where
  "S3Store_key P self d = s3_prefix self @ ''/blobs/'' @ digest_key P d"

text \<open>\<^verbatim>\<open>u64::try_from\<close> of an \<^verbatim>\<open>i64\<close>.\<close>

definition u64_try_from :: "int \<Rightarrow> u64 option" where
  "u64_try_from n = (if n \<ge> 0 then Some (of_int n) else None)"

definition S3Store_get :: "protocol \<Rightarrow> 'b s3_client \<Rightarrow> s3_store \<Rightarrow> digest \<Rightarrow> ('b, string, blob option) prog" where
  "S3Store_get P client self d s =
     (case s3_get_object client (s3_location self) (s3_bucket self) (S3Store_key P self d) s of
        (Inl e, t) \<Rightarrow>
          if se_no_such_key e \<or> se_status e = Some 404 then (Inr None, t) else (Inl (se_message e), t)
      | (Inr output, t) \<Rightarrow>
          (case Option.bind (ob_content_length output) u64_try_from of
             None \<Rightarrow> (Inl ''S3 object response is missing content length'', t)
           | Some len \<Rightarrow> (Inr (Some \<lparr>bl_size = len, bl_stream = ob_body output\<rparr>), t)))"

definition S3Store_put ::
  "protocol \<Rightarrow> 'b s3_client \<Rightarrow> s3_store \<Rightarrow> digest \<Rightarrow> bytes \<Rightarrow> ('b, string, put_outcome) prog" where
  "S3Store_put P client self d source =
     bindp (s3_from_path client source) (\<lambda>body. \<lambda>s.
       case s3_put_object client (s3_location self) (s3_bucket self) (S3Store_key P self d) (Some ''*'') body s of
         (Inr _, t) \<Rightarrow> (Inr PutCreated, t)
       | (Inl e, t) \<Rightarrow> (if se_status e = Some 412 then Inr PutAlreadyExists else Inl (se_message e), t))"

definition s3_blob_store :: "protocol \<Rightarrow> 'b s3_client \<Rightarrow> s3_store \<Rightarrow> 'b blob_store" where
  "s3_blob_store P client self = \<lparr>bs_get = S3Store_get P client self, bs_put = S3Store_put P client self\<rparr>"

section \<open>The service\<close>

text \<open>
  Objects live under a bucket and a key, and are complete as soon as they are there. A write
  with \<^verbatim>\<open>If-None-Match: *\<close> that succeeds has created the object; it is answered by status 412 when
  there is one already. A read of an object that is there finds it or fails with another error.
\<close>

type_synonym s3_key = "string \<times> string"

locale s3_service =
  fixes client :: "'b s3_client"
    and objects :: "'b \<Rightarrow> s3_key objects"
    and foreign :: "'b \<Rightarrow> s3_key \<Rightarrow> bytes \<Rightarrow> bool"
  assumes get_grows: "s3_get_object client loc bucket key s = (r1, t) \<Longrightarrow> grows objects foreign {} {} s t"
    and get_found: "objects s (bucket, key) = Some (bs, True) \<Longrightarrow> s3_get_object client loc bucket key s = (r1, t) \<Longrightarrow>
      (case r1 of
         Inl e \<Rightarrow> \<not> se_no_such_key e \<and> se_status e \<noteq> Some 404
       | Inr output \<Rightarrow> delivers (ob_body output) bs \<and> ob_content_length output \<in> {None, Some (int (length bs))})"
    and from_path: "s3_from_path client src s = (r2, t) \<Longrightarrow> grows objects foreign {} {} s t \<and> (\<forall>body. r2 = Inr body \<longrightarrow> body = src)"
    and put_grows: "s3_put_object client loc bucket key (Some ''*'') src s = (r3, t) \<Longrightarrow>
      grows objects foreign {} {((bucket, key), src)} s t"
    and put_created: "s3_put_object client loc bucket key (Some ''*'') src s = (Inr (), t) \<Longrightarrow>
      objects t (bucket, key) = Some (src, True)"
    and put_refused: "s3_put_object client loc bucket key (Some ''*'') src s = (Inl e, t) \<Longrightarrow> se_status e = Some 412 \<Longrightarrow>
      \<exists>bs. objects t (bucket, key) = Some (bs, True)"

definition s3_content :: "protocol \<Rightarrow> ('b \<Rightarrow> s3_key objects) \<Rightarrow> s3_store \<Rightarrow> 'b \<Rightarrow> digest \<Rightarrow> bytes option" where
  "s3_content P objects self = object_content P (\<lambda>d. (s3_bucket self, S3Store_key P self d)) objects"

definition s3_foreign ::
  "protocol \<Rightarrow> ('b \<Rightarrow> s3_key objects) \<Rightarrow> ('b \<Rightarrow> s3_key \<Rightarrow> bytes \<Rightarrow> bool) \<Rightarrow> s3_store \<Rightarrow> 'b \<Rightarrow> digest \<Rightarrow> bytes \<Rightarrow> bool" where
  "s3_foreign P objects foreign self =
     object_foreign P (\<lambda>d. (s3_bucket self, S3Store_key P self d)) objects foreign"

context s3_service
begin

lemma store_get:
  assumes "S3Store_get P client self d s = (r, t)"
  shows "grows objects foreign {} {} s t"
    and "objects s (s3_bucket self, S3Store_key P self d) = Some (bs, True) \<Longrightarrow> r = Inr b \<Longrightarrow>
      \<exists>blob. b = Some blob \<and> bl_size blob = of_nat (length bs) \<and> delivers (bl_stream blob) bs"
proof -
  obtain q u where q: "s3_get_object client (s3_location self) (s3_bucket self) (S3Store_key P self d) s = (q, u)"
    by (rule prod.exhaust)
  with assms have u: "t = u" by (auto simp: S3Store_get_def split: sum.splits option.splits if_splits)
  with get_grows [OF q] show "grows objects foreign {} {} s t" by simp
  show "\<exists>blob. b = Some blob \<and> bl_size blob = of_nat (length bs) \<and> delivers (bl_stream blob) bs"
    if "objects s (s3_bucket self, S3Store_key P self d) = Some (bs, True)" "r = Inr b"
    using get_found [OF that(1) q] assms q that(2)
    by (auto simp: S3Store_get_def u64_try_from_def split: sum.splits option.splits if_splits)
qed

lemma store_put:
  assumes "S3Store_put P client self d src s = (r, t)"
  shows "grows objects foreign {} {((s3_bucket self, S3Store_key P self d), src)} s t"
    and "r = Inr PutCreated \<Longrightarrow> objects t (s3_bucket self, S3Store_key P self d) = Some (src, True)"
    and "r = Inr PutAlreadyExists \<Longrightarrow> \<exists>bs. objects t (s3_bucket self, S3Store_key P self d) = Some (bs, True)"
proof -
  let ?k = "(s3_bucket self, S3Store_key P self d)"
  obtain q u where q: "s3_from_path client src s = (q, u)" by (rule prod.exhaust)
  obtain p v where p: "s3_put_object client (s3_location self) (s3_bucket self) (S3Store_key P self d) (Some ''*'') src u = (p, v)"
    by (rule prod.exhaust)
  note opened = from_path [OF q] and sent = put_grows [OF p]
  note first = grows_mono [OF conjunct1 [OF opened] empty_subsetI empty_subsetI]
  consider (unread) e where "q = Inl e" "t = u" "r = Inl e"
    | (sent) "t = v" "r = (case p of Inr _ \<Rightarrow> Inr PutCreated
        | Inl e \<Rightarrow> if se_status e = Some 412 then Inr PutAlreadyExists else Inl (se_message e))"
    using assms q p opened by (cases q) (auto simp: S3Store_put_def bindp_def split: sum.splits)
  note cases = this
  from cases show "grows objects foreign {} {(?k, src)} s t"
    by cases (use first grows_trans [OF first sent] in simp_all)
  from cases show "objects t ?k = Some (src, True)" if "r = Inr PutCreated"
    using that put_created p by cases (auto split: sum.splits if_splits)
  from cases show "\<exists>bs. objects t ?k = Some (bs, True)" if "r = Inr PutAlreadyExists"
    using that put_refused p by cases (auto split: sum.splits if_splits)
qed

lemma blob_laws:
  assumes keys: "keys_documented P"
  shows "blob_store_laws (s3_blob_store P client self) (s3_content P objects self) (s3_foreign P objects foreign self)
    (\<lambda>d _. digest_validate P d)"
proof (unfold_locales, unfold s3_blob_store_def blob_store.select_convs, goal_cases)
  case (1 d s r t)
  show ?case
    unfolding s3_content_def s3_foreign_def by (rule grows_extends [OF store_get(1) [OF 1]]) auto
next
  case (2 s d bs b t)
  then have "objects s (s3_bucket self, S3Store_key P self d) = Some (bs, True)"
    unfolding s3_content_def object_content_Some by blast
  from store_get(2) [OF 2(2) this refl] show ?case .
next
  case (3 d src s out t)
  show ?case
    unfolding s3_content_def s3_foreign_def
    by (rule grows_extends [OF store_put(1) [OF 3(2)]])
      (use keys 3(1) in \<open>auto simp: keys_documented_def S3Store_key_def\<close>)
next
  case (4 d src s t)
  then show ?case using store_put(2) [OF 4(2) refl] by (simp add: s3_content_def object_content_Some)
next
  case (5 d src s t)
  with store_put(3) [OF 5(3) refl] show ?case by (auto simp: s3_content_def object_content_def)
qed

end

section \<open>A simulated service\<close>

text \<open>
  A bucket in memory with other clients that write between the requests, and answers that
  get lost after the request was carried out.
\<close>

record bucket_sim =
  bu_objects :: "(s3_key \<times> bytes) list"
  bu_others :: "(s3_key \<times> bytes) list"
  bu_lost :: "bool list"

definition sim_add :: "s3_key \<Rightarrow> bytes \<Rightarrow> (s3_key \<times> bytes) list \<Rightarrow> (s3_key \<times> bytes) list" where
  "sim_add k bs objs = (if map_of objs k = None then (k, bs) # objs else objs)"

definition sim_others :: "bucket_sim \<Rightarrow> bucket_sim" where
  "sim_others s = (case bu_others s of [] \<Rightarrow> s
     | (k, bs) # rest \<Rightarrow> s\<lparr>bu_objects := sim_add k bs (bu_objects s), bu_others := rest\<rparr>)"

definition sim_answer :: "s3_error + 'a \<Rightarrow> bucket_sim \<Rightarrow> (s3_error + 'a) \<times> bucket_sim" where
  "sim_answer r s =
     (case bu_lost s of
        True # rest \<Rightarrow> (Inl \<lparr>se_no_such_key = False, se_status = None, se_message = ''connection reset''\<rparr>, s\<lparr>bu_lost := rest\<rparr>)
      | _ \<Rightarrow> (r, s\<lparr>bu_lost := tl (bu_lost s)\<rparr>))"

definition sim_status :: "nat \<Rightarrow> s3_error" where
  "sim_status n = \<lparr>se_no_such_key = (n = 404), se_status = Some n, se_message = ''service error''\<rparr>"

definition bucket_client :: "bucket_sim s3_client" where
  "bucket_client =
     \<lparr>s3_get_object = (\<lambda>loc bucket key s. let t = sim_others s in
        sim_answer (case map_of (bu_objects t) (bucket, key) of
            None \<Rightarrow> Inl (sim_status 404)
          | Some bs \<Rightarrow> Inr \<lparr>ob_content_length = Some (int (length bs)), ob_body = [Inr bs]\<rparr>) t),
      s3_put_object = (\<lambda>loc bucket key cond src s. let t = sim_others s in
        if map_of (bu_objects t) (bucket, key) = None \<or> cond = None
        then sim_answer (Inr ()) (t\<lparr>bu_objects := ((bucket, key), src) # bu_objects t\<rparr>)
        else sim_answer (Inl (sim_status 412)) t),
      s3_from_path = (\<lambda>src. ok src)\<rparr>"

definition bucket_objects :: "bucket_sim \<Rightarrow> s3_key objects" where
  "bucket_objects s k = map_option (\<lambda>bs. (bs, True)) (map_of (bu_objects s) k)"

definition bucket_foreign :: "bucket_sim \<Rightarrow> s3_key \<Rightarrow> bytes \<Rightarrow> bool" where
  "bucket_foreign s k bs \<longleftrightarrow> (k, bs) \<in> set (bu_others s)"

lemma sim_answer_state:
  "bu_objects (snd (sim_answer r s)) = bu_objects s" "bu_others (snd (sim_answer r s)) = bu_others s"
  by (auto simp: sim_answer_def split: list.splits bool.splits)

lemma sim_answer_result: "sim_answer r s = (q, t) \<Longrightarrow> q = r \<or> (\<exists>e. q = Inl e \<and> \<not> se_no_such_key e \<and> se_status e = None)"
  by (auto simp: sim_answer_def split: list.splits bool.splits)

lemma sim_others_grows: "grows bucket_objects bucket_foreign {} {} s (sim_others s)"
  by (cases "bu_others s")
    (auto simp: grows_def sim_others_def sim_add_def bucket_objects_def bucket_foreign_def split: if_splits)

lemma bucket_grows:
  assumes "bu_others t = bu_others (sim_others s)"
    and "bu_objects t = bu_objects (sim_others s) \<or>
      map_of (bu_objects (sim_others s)) k = None \<and> bu_objects t = (k, src) # bu_objects (sim_others s) \<and> (k, src) \<in> written"
  shows "grows bucket_objects bucket_foreign {} written s t"
proof -
  have "grows bucket_objects bucket_foreign {} written (sim_others s) t"
    using assms by (auto simp: grows_def bucket_objects_def bucket_foreign_def split: if_splits)
  with grows_mono [OF sim_others_grows empty_subsetI empty_subsetI] show ?thesis by (rule grows_trans)
qed

lemma bucket_service: "s3_service bucket_client bucket_objects bucket_foreign"
proof (unfold_locales, goal_cases)
  case (1 loc bucket key s r t)
  then have "t = snd (s3_get_object bucket_client loc bucket key s)" by simp
  then show ?case by (intro bucket_grows) (simp_all add: bucket_client_def Let_def sim_answer_state)
next
  case (2 s bucket key bs loc r t)
  then have "bucket_objects (sim_others s) (bucket, key) = Some (bs, True)"
    using grows_complete [OF sim_others_grows] by blast
  then have "map_of (bu_objects (sim_others s)) (bucket, key) = Some bs" by (auto simp: bucket_objects_def)
  with 2(2) show ?case
    by (auto simp: bucket_client_def Let_def dest!: sim_answer_result split: sum.splits)
next
  case (3 src s r t)
  then show ?case by (auto simp: bucket_client_def ok_def)
next
  case (4 loc bucket key src s r t)
  then have "t = snd (s3_put_object bucket_client loc bucket key (Some ''*'') src s)" by simp
  then show ?case
    by (intro bucket_grows [where k = "(bucket, key)" and src = src]) (auto simp: bucket_client_def Let_def sim_answer_state)
next
  case (5 loc bucket key src s t)
  then show ?case
    using sim_answer_state(1)
    by (auto simp: bucket_client_def Let_def bucket_objects_def sim_answer_def split: if_splits list.splits bool.splits)
next
  case (6 loc bucket key src s e t)
  then show ?case
    by (auto simp: bucket_client_def Let_def bucket_objects_def sim_answer_def split: if_splits list.splits bool.splits)
qed

interpretation bucket: s3_service bucket_client bucket_objects bucket_foreign
  by (rule bucket_service)

section \<open>Properties\<close>

text \<open>
  C26. Objects in S3 are write-once and read back: after an upload that created the object,
  whatever uploads and downloads follow, with whatever content, a download that does not fail
  finds the object, announces its length and delivers its bytes.
\<close>

theorem s3_round_trip:
  assumes "s3_service client objects foreign" and "keys_documented P" and "digest_validate P d"
    and "S3Store_put P client self d src s = (Inr PutCreated, t)"
    and "(store_step (s3_blob_store P client self) (\<lambda>d _. digest_validate P d))\<^sup>*\<^sup>* t u"
    and "S3Store_get P client self d u = (Inr b, v)"
  shows "\<exists>blob. b = Some blob \<and> bl_size blob = of_nat (length src) \<and> delivers (bl_stream blob) src"
  using blob_store_laws.get_after_put [OF s3_service.blob_laws [OF assms(1,2)] assms(3) _ assms(5)] assms(4,6)
  by (simp add: s3_blob_store_def)

definition example_bucket :: bucket_sim where
  "example_bucket = \<lparr>bu_objects = [], bu_others = [((''cache'', ''v1/other''), [9])], bu_lost = []\<rparr>"

definition example_s3 :: s3_store where
  "example_s3 =
     \<lparr>s3_location = \<lparr>lo_region = ''us-east-1'', lo_endpoint = None, lo_path_style = False\<rparr>, s3_bucket = ''cache'', s3_prefix = ''v1''\<rparr>"

theorem s3_round_trip_witness:
  "\<exists>t u blob. S3Store_put reference_protocol bucket_client example_s3 example_digest [1, 2] example_bucket = (Inr PutCreated, t) \<and>
     S3Store_put reference_protocol bucket_client example_s3 example_digest [7] t = (Inr PutAlreadyExists, u) \<and>
     fst (S3Store_get reference_protocol bucket_client example_s3 example_digest u) = Inr (Some blob) \<and>
     bl_size blob = 2 \<and> delivers (bl_stream blob) [1, 2]"
proof -
  let ?put = "S3Store_put reference_protocol bucket_client example_s3 example_digest"
  let ?get = "S3Store_get reference_protocol bucket_client example_s3 example_digest"
  have valid: "digest_validate reference_protocol example_digest" by code_simp
  have "fst (?put [1, 2] example_bucket) = Inr PutCreated" "fst (?put [7] (snd (?put [1, 2] example_bucket))) = Inr PutAlreadyExists"
    "\<not> isl (fst (?get (snd (?put [7] (snd (?put [1, 2] example_bucket))))))"
    by code_simp+
  then obtain t u b v where t: "?put [1, 2] example_bucket = (Inr PutCreated, t)" and u: "?put [7] t = (Inr PutAlreadyExists, u)"
    and get: "?get u = (Inr b, v)"
    by (metis isl_def obj_sumE prod.collapse snd_conv)
  from u valid have "(store_step (s3_blob_store reference_protocol bucket_client example_s3)
      (\<lambda>d _. digest_validate reference_protocol d))\<^sup>*\<^sup>* t u"
    by (intro r_into_rtranclp store_step.put) (auto simp: s3_blob_store_def)
  from s3_round_trip [OF bucket_service reference_keys_documented valid t this get] t u get
  show ?thesis by auto
qed

end
