(* ===== verification/Azure.thy ===== *)
theory Azure
  imports Object_Stores
begin

text \<open>
  \<^verbatim>\<open>src/storage/azure.rs\<close>. The object-store library is the record \<open>object_store\<close> of the calls the
  store makes, over a state of the service and its environment; the locale \<open>object_service\<close>
  states the documented behaviour relied on. An upload goes to a key of its own and is then
  copied to its destination; the copy is accepted before it is complete, so the store polls
  the destination until its last byte can be read.
\<close>

section \<open>The object-store library\<close>

datatype os_error = OsNotFound | OsAlreadyExists | OsPrecondition | OsOther string

datatype os_mode = ModeOverwrite | ModeCreate

record os_result =
  or_size :: u64
  or_stream :: stream

record writer =
  wr_key :: string
  wr_bytes :: bytes

record 'b object_store =
  os_path :: "string \<Rightarrow> string"
  os_message :: "os_error \<Rightarrow> string"
  os_get :: "string \<Rightarrow> ('b, os_error, os_result) prog"
  os_get_range :: "string \<Rightarrow> u64 \<times> u64 \<Rightarrow> ('b, os_error, bytes) prog"
  os_put_opts :: "string \<Rightarrow> bytes \<Rightarrow> os_mode \<Rightarrow> ('b, os_error, unit) prog"
  os_copy_opts :: "string \<Rightarrow> string \<Rightarrow> os_mode \<Rightarrow> ('b, os_error, unit) prog"
  os_delete :: "string \<Rightarrow> ('b, os_error, unit) prog"
  os_new_v4 :: "('b, string, string) prog"
  os_open_source :: "('b, string, unit) prog"
  os_copy_into :: "writer \<Rightarrow> bytes \<Rightarrow> ('b, string, writer) prog"
  os_abort :: "writer \<Rightarrow> ('b, string, unit) prog"
  os_shutdown :: "writer \<Rightarrow> ('b, string, unit) prog"

record azure_settings =
  as_account :: string
  as_container :: string
  as_credential_type :: string
  as_allow_http :: bool
  as_endpoint :: "string option"

section \<open>The store\<close>

record 'b azure_store =
  az_store :: "'b object_store"
  az_prefix :: string

definition AzureStore_from_store :: "'b object_store \<Rightarrow> string \<Rightarrow> 'b azure_store" where
  "AzureStore_from_store store prefix = \<lparr>az_store = store, az_prefix = trim_matches (CHR ''/'') prefix\<rparr>"

definition AzureStore_new :: "(azure_settings \<Rightarrow> string + 'b object_store) \<Rightarrow> config \<Rightarrow> string + 'b azure_store" where
  "AzureStore_new build cfg =
     bind_result (ok_or ''--azure-account is required with Azure storage'' (cf_azure_account cfg)) (\<lambda>account.
     bind_result (ok_or ''--azure-container is required with Azure storage'' (cf_azure_container cfg)) (\<lambda>container.
     bind_result (build \<lparr>as_account = account, as_container = container,
         as_credential_type = cf_azure_credential_type cfg, as_allow_http = cf_azure_allow_http cfg,
         as_endpoint = (case cf_azure_endpoint cfg of None \<Rightarrow> None | Some e \<Rightarrow> if e = [] then None else Some e)\<rparr>) (\<lambda>store.
       Inr (AzureStore_from_store store (cf_azure_prefix cfg)))))"

definition AzureStore_key :: "protocol \<Rightarrow> 'b azure_store \<Rightarrow> digest \<Rightarrow> string" where
  "AzureStore_key P self d = os_path (az_store self) (az_prefix self @ ''/blobs/'' @ digest_key P d)"

definition AzureStore_upload_key :: "'b azure_store \<Rightarrow> ('b, string, string) prog" where
  "AzureStore_upload_key self =
     bindp (os_new_v4 (az_store self)) (\<lambda>u. ok (os_path (az_store self) (az_prefix self @ ''/uploads/'' @ u)))"

fun poll_readable :: "'b object_store \<Rightarrow> string \<Rightarrow> u64 \<times> u64 \<Rightarrow> nat \<Rightarrow> ('b, string, unit) prog" where
  "poll_readable store key last_byte 0 = throw (''Azure blob did not become readable after copy: '' @ key)"
| "poll_readable store key last_byte (Suc n) =
     (\<lambda>s. case os_get_range store key last_byte s of
            (Inr _, t) \<Rightarrow> (Inr (), t)
          | (Inl _, t) \<Rightarrow> poll_readable store key last_byte n t)"

definition wait_until_readable :: "'b object_store \<Rightarrow> string \<Rightarrow> u64 \<Rightarrow> ('b, string, unit) prog" where
  "wait_until_readable store key len = poll_readable store key (len - 1, len) 120"

definition AzureStore_get :: "protocol \<Rightarrow> 'b azure_store \<Rightarrow> digest \<Rightarrow> ('b, string, blob option) prog" where
  "AzureStore_get P self d s =
     (case os_get (az_store self) (AzureStore_key P self d) s of
        (Inl OsNotFound, t) \<Rightarrow> (Inr None, t)
      | (Inl e, t) \<Rightarrow> (Inl (os_message (az_store self) e), t)
      | (Inr r, t) \<Rightarrow> (Inr (Some \<lparr>bl_size = or_size r, bl_stream = or_stream r\<rparr>), t))"

text \<open>An error after which a call is made whose result is ignored.\<close>

definition failing :: "('b, 'x, unit) prog \<Rightarrow> string \<Rightarrow> ('b, string, 'a) prog" where
  "failing cleanup e s = (Inl e, snd (cleanup s))"

definition os_refused :: "os_error \<Rightarrow> bool" where
  "os_refused e \<longleftrightarrow> e = OsAlreadyExists \<or> e = OsPrecondition"

definition put_empty :: "'b object_store \<Rightarrow> string \<Rightarrow> ('b, string, put_outcome) prog" where
  "put_empty store key s =
     (case os_put_opts store key [] ModeCreate s of
        (Inr _, t) \<Rightarrow> (Inr PutCreated, t)
      | (Inl e, t) \<Rightarrow> (if os_refused e then Inr PutAlreadyExists else Inl (os_message store e), t))"

definition upload_source :: "'b object_store \<Rightarrow> string \<Rightarrow> bytes \<Rightarrow> ('b, string, unit) prog" where
  "upload_source store upload_key source =
     bindp (os_open_source store) (\<lambda>_. \<lambda>s.
       case os_copy_into store \<lparr>wr_key = upload_key, wr_bytes = []\<rparr> source s of
         (Inl e, t) \<Rightarrow> failing (os_abort store \<lparr>wr_key = upload_key, wr_bytes = []\<rparr>) e t
       | (Inr w, t) \<Rightarrow>
           (case os_shutdown store w t of
              (Inl e, u) \<Rightarrow> failing (os_delete store upload_key) e u
            | (Inr _, u) \<Rightarrow> (Inr (), u)))"

definition publish_upload :: "'b object_store \<Rightarrow> string \<Rightarrow> string \<Rightarrow> u64 \<Rightarrow> ('b, string, put_outcome) prog" where
  "publish_upload store upload_key destination_key len s =
     (case os_copy_opts store upload_key destination_key ModeCreate s of
        (Inr _, t) \<Rightarrow> bindp (wait_until_readable store destination_key len) (\<lambda>_. ok PutCreated) t
      | (Inl e, t) \<Rightarrow>
          if os_refused e
          then bindp (wait_until_readable store destination_key len) (\<lambda>_. ok PutAlreadyExists)
                 (snd (os_delete store upload_key t))
          else failing (os_delete store upload_key) (os_message store e) t)"

definition AzureStore_put :: "protocol \<Rightarrow> 'b azure_store \<Rightarrow> digest \<Rightarrow> bytes \<Rightarrow> ('b, string, put_outcome) prog" where
  "AzureStore_put P self d source =
     (let destination_key = AzureStore_key P self d in
      if dg_size d = 0 then put_empty (az_store self) destination_key
      else
        bindp (AzureStore_upload_key self) (\<lambda>upload_key.
        bindp (upload_source (az_store self) upload_key source) (\<lambda>_.
          publish_upload (az_store self) upload_key destination_key (dg_size d))))"

definition azure_blob_store :: "protocol \<Rightarrow> 'b azure_store \<Rightarrow> 'b blob_store" where
  "azure_blob_store P self = \<lparr>bs_get = AzureStore_get P self, bs_put = AzureStore_put P self\<rparr>"

section \<open>The service\<close>

text \<open>
  A create-only write that succeeds has created a complete object, a create-only copy one that
  may be pending; either is refused only when there is an object, complete or pending. A pending
  object is read as an empty one, so one that is to have no bytes reads the same before and after
  it is complete. A byte that can be read is a byte of a complete object. The writer of an upload
  touches its own key only.
\<close>

locale object_service =
  fixes store :: "'b object_store"
    and objects :: "'b \<Rightarrow> string objects"
    and foreign :: "'b \<Rightarrow> string \<Rightarrow> bytes \<Rightarrow> bool"
  assumes get_grows: "os_get store k s = (r1, t) \<Longrightarrow> grows objects foreign {} {} s t"
    and get_found: "objects s k = Some (bs, c) \<Longrightarrow> c \<or> bs = [] \<Longrightarrow> os_get store k s = (r1, t) \<Longrightarrow>
      (case r1 of Inl e \<Rightarrow> e \<noteq> OsNotFound | Inr res \<Rightarrow> or_size res = of_nat (length bs) \<and> delivers (or_stream res) bs)"
    and range_grows: "os_get_range store k rg s = (r2, t) \<Longrightarrow> grows objects foreign {} {} s t"
    and range_readable: "os_get_range store k (i, j) s = (Inr x, t) \<Longrightarrow> i < j \<Longrightarrow> \<exists>bs. objects t k = Some (bs, True)"
    and put_grows: "os_put_opts store k bs ModeCreate s = (r3, t) \<Longrightarrow> grows objects foreign {} {(k, bs)} s t"
    and put_created: "os_put_opts store k bs ModeCreate s = (Inr (), t) \<Longrightarrow> objects t k = Some (bs, True)"
    and put_refused: "os_put_opts store k bs ModeCreate s = (Inl e, t) \<Longrightarrow> os_refused e \<Longrightarrow> objects t k \<noteq> None"
    and copy_grows: "objects s k = Some (bs, True) \<Longrightarrow> os_copy_opts store k k' ModeCreate s = (r3, t) \<Longrightarrow>
      grows objects foreign {} {(k', bs)} s t"
    and copy_created: "objects s k = Some (bs, True) \<Longrightarrow> os_copy_opts store k k' ModeCreate s = (Inr (), t) \<Longrightarrow>
      \<exists>c. objects t k' = Some (bs, c)"
    and delete_grows: "os_delete store k s = (r3, t) \<Longrightarrow> grows objects foreign {k} {} s t"
    and uuid_grows: "os_new_v4 store s = (r4, t) \<Longrightarrow> grows objects foreign {} {} s t"
    and open_grows: "os_open_source store s = (r5, t) \<Longrightarrow> grows objects foreign {} {} s t"
    and write_grows: "os_copy_into store w src s = (r6, t) \<Longrightarrow> grows objects foreign {wr_key w} {} s t"
    and written: "os_copy_into store w src s = (Inr w', t) \<Longrightarrow> wr_key w' = wr_key w \<and> wr_bytes w' = wr_bytes w @ src"
    and abort_grows: "os_abort store w s = (r5, t) \<Longrightarrow> grows objects foreign {wr_key w} {} s t"
    and shutdown_grows: "os_shutdown store w s = (r5, t) \<Longrightarrow> grows objects foreign {wr_key w} {} s t"
    and shutdown: "os_shutdown store w s = (Inr (), t) \<Longrightarrow> objects t (wr_key w) = Some (wr_bytes w, True)"

text \<open>What a read delivers: complete objects, and pending ones that are to have no bytes.\<close>

definition readable :: "('b \<Rightarrow> string objects) \<Rightarrow> 'b \<Rightarrow> string objects" where
  "readable objects s k = map_option (\<lambda>(bs, c). (bs, c \<or> bs = [])) (objects s k)"

lemma readable_Some: "readable objects s k = Some (bs, c) \<longleftrightarrow> (\<exists>c'. objects s k = Some (bs, c') \<and> c = (c' \<or> bs = []))"
  by (auto simp: readable_def)

lemma readable_True: "readable objects s k = Some (bs, True) \<longleftrightarrow> (\<exists>c. objects s k = Some (bs, c) \<and> (c \<or> bs = []))"
  by (auto simp: readable_def)

lemma grows_readable:
  assumes "grows objects foreign loose written s t"
  shows "grows (readable objects) foreign loose written s t"
  unfolding grows_def
proof (intro conjI allI impI)
  note kept = assms [unfolded grows_def, THEN conjunct1, rule_format]
    and origin = assms [unfolded grows_def, THEN conjunct2, THEN conjunct1, rule_format]
  fix k bs c
  show "\<exists>c'. readable objects t k = Some (bs, c') \<and> (c \<longrightarrow> c')"
    if old: "k \<notin> loose \<and> readable objects s k = Some (bs, c)"
  proof -
    obtain x where x: "objects s k = Some (bs, x)" "c = (x \<or> bs = [])" using old unfolding readable_Some by blast
    obtain y where "objects t k = Some (bs, y)" "x \<longrightarrow> y" using kept [of k bs x] old x(1) by blast
    then have "readable objects t k = Some (bs, y \<or> bs = []) \<and> (c \<longrightarrow> y \<or> bs = [])" using x(2) by (auto simp: readable_def)
    then show ?thesis by blast
  qed
  show "(\<exists>c'. readable objects s k = Some (bs, c')) \<or> foreign s k bs \<or> (k, bs) \<in> written"
    if "k \<notin> loose \<and> readable objects t k = Some (bs, c)"
    using that origin [of k bs] by (fastforce simp: readable_Some)
  show "foreign s k bs" if "foreign t k bs" using assms that unfolding grows_def by blast
qed

definition azure_content :: "protocol \<Rightarrow> ('b \<Rightarrow> string objects) \<Rightarrow> 'b azure_store \<Rightarrow> 'b \<Rightarrow> digest \<Rightarrow> bytes option" where
  "azure_content P objects self = object_content P (AzureStore_key P self) (readable objects)"

definition azure_foreign ::
  "protocol \<Rightarrow> ('b \<Rightarrow> string objects) \<Rightarrow> ('b \<Rightarrow> string \<Rightarrow> bytes \<Rightarrow> bool) \<Rightarrow> 'b azure_store \<Rightarrow> 'b \<Rightarrow> digest \<Rightarrow> bytes \<Rightarrow> bool" where
  "azure_foreign P objects foreign self = object_foreign P (AzureStore_key P self) (readable objects) foreign"

text \<open>Object paths keep the keys of valid digests and the keys of uploads apart.\<close>

definition paths_documented :: "protocol \<Rightarrow> 'b object_store \<Rightarrow> bool" where
  "paths_documented P store \<longleftrightarrow>
     (\<forall>prefix d e. digest_validate P d \<and> digest_validate P e \<and>
        os_path store (prefix @ ''/blobs/'' @ digest_key P d) = os_path store (prefix @ ''/blobs/'' @ digest_key P e) \<longrightarrow> d = e) \<and>
     (\<forall>prefix d u. digest_validate P d \<longrightarrow>
        os_path store (prefix @ ''/blobs/'' @ digest_key P d) \<noteq> os_path store (prefix @ ''/uploads/'' @ u))"

text \<open>What the store is given: a valid digest, and no bytes under a digest of size zero.\<close>

definition azure_fits :: "protocol \<Rightarrow> digest \<Rightarrow> bytes \<Rightarrow> bool" where
  "azure_fits P d bs \<longleftrightarrow> digest_validate P d \<and> (dg_size d = 0 \<longrightarrow> bs = [])"

context object_service
begin

lemma poll_grows: "poll_readable store k rg n s = (r, t) \<Longrightarrow> grows objects foreign {} {} s t"
proof (induction n arbitrary: s)
  case (Suc n)
  obtain q u where q: "os_get_range store k rg s = (q, u)" by (rule prod.exhaust)
  note step = range_grows [OF q]
  show ?case
  proof (cases q)
    case (Inl e)
    with Suc.prems q have "poll_readable store k rg n u = (r, t)" by simp
    from grows_trans [OF step Suc.IH [OF this]] show ?thesis .
  next
    case (Inr x)
    with Suc.prems q step show ?thesis by simp
  qed
qed (simp add: throw_def)

lemma poll_readable:
  "poll_readable store k (i, j) n s = (Inr (), t) \<Longrightarrow> i < j \<Longrightarrow> \<exists>bs. objects t k = Some (bs, True)"
proof (induction n arbitrary: s)
  case (Suc n)
  then show ?case
    using range_readable [of k i j s] by (auto split: prod.splits sum.splits)
qed (simp add: throw_def)

lemma wait_grows: "wait_until_readable store k len s = (r, t) \<Longrightarrow> grows objects foreign {} {} s t"
  unfolding wait_until_readable_def by (rule poll_grows)

lemma wait_readable:
  assumes "wait_until_readable store k len s = (Inr (), t)" and "len \<noteq> 0"
  shows "\<exists>bs. objects t k = Some (bs, True)"
proof -
  have "0 < unat len" using assms(2) by (metis gr0I unat_eq_zero)
  then have "len - 1 < len" using assms(2) by (simp add: word_less_nat_alt unat_minus_one)
  with assms(1) poll_readable show ?thesis unfolding wait_until_readable_def by blast
qed

lemma put_empty_correct:
  assumes "put_empty store k s = (r, t)"
  shows "grows objects foreign {} {(k, [])} s t"
    and "r = Inr PutCreated \<Longrightarrow> objects t k = Some ([], True)"
    and "r = Inr PutAlreadyExists \<Longrightarrow> objects t k \<noteq> None"
proof -
  obtain q u where q: "os_put_opts store k [] ModeCreate s = (q, u)" by (rule prod.exhaust)
  with assms have u: "u = t" by (auto simp: put_empty_def split: sum.splits if_splits)
  with put_grows [OF q] show "grows objects foreign {} {(k, [])} s t" by simp
  show "objects t k = Some ([], True)" if "r = Inr PutCreated"
    using assms q that u put_created [of k "[]" s t] by (auto simp: put_empty_def split: sum.splits if_splits)
  show "objects t k \<noteq> None" if "r = Inr PutAlreadyExists"
    using assms q that u put_refused [of k "[]" s _ t] by (auto simp: put_empty_def split: sum.splits if_splits)
qed

lemma upload_correct:
  assumes "upload_source store k src s = (r, t)"
  shows "grows objects foreign {k} {} s t" and "r = Inr () \<Longrightarrow> objects t k = Some (src, True)"
proof -
  let ?w = "\<lparr>wr_key = k, wr_bytes = []\<rparr>"
  obtain q u where q: "os_open_source store s = (q, u)" by (rule prod.exhaust)
  obtain p v where p: "os_copy_into store ?w src u = (p, v)" by (rule prod.exhaust)
  have su: "grows objects foreign {k} {} s u" using open_grows [OF q] by (rule grows_mono) auto
  have uv: "grows objects foreign {k} {} u v" using write_grows [OF p] by simp
  have after: "grows objects foreign {k} {} v (snd (os_abort store ?w v))"
    using abort_grows [of ?w v] by (metis prod.collapse writer.select_convs(1))
  consider (unopened) e where "q = Inl e" | (unwritten) e where "q = Inr ()" "p = Inl e"
    | (copied) w where "q = Inr ()" "p = Inr w" by (cases q; cases p) auto
  then have "grows objects foreign {k} {} s t \<and> (r = Inr () \<longrightarrow> objects t k = Some (src, True))"
  proof cases
    case unopened
    with assms q su show ?thesis by (auto simp: upload_source_def bindp_def)
  next
    case unwritten
    with assms q p have "t = snd (os_abort store ?w v)" "isl r" by (auto simp: upload_source_def bindp_def failing_def)
    with grows_trans [OF grows_trans [OF su uv] after] show ?thesis by auto
  next
    case copied
    obtain sh x where sh: "os_shutdown store w v = (sh, x)" by (rule prod.exhaust)
    from written [of ?w src u w v] p copied have w: "wr_key w = k" "wr_bytes w = src" by auto
    have sx: "grows objects foreign {k} {} s x"
      using grows_trans [OF grows_trans [OF su uv]] shutdown_grows [OF sh] w(1) by simp
    have del: "grows objects foreign {k} {} x (snd (os_delete store k x))"
      using delete_grows [of k x] by (metis prod.collapse)
    show ?thesis
      using assms q p copied sh sx grows_trans [OF sx del] shutdown [of w v x] w
      by (cases sh) (auto simp: upload_source_def bindp_def failing_def)
  qed
  then show "grows objects foreign {k} {} s t" "r = Inr () \<Longrightarrow> objects t k = Some (src, True)" by auto
qed

lemma publish_correct:
  assumes run: "publish_upload store k k' len s = (r, t)" and from_ok: "objects s k = Some (src, True)"
    and "len \<noteq> 0" and "k \<noteq> k'"
  shows "grows objects foreign {k} {(k', src)} s t"
    and "r = Inr PutCreated \<Longrightarrow> objects t k' = Some (src, True)"
    and "r = Inr PutAlreadyExists \<Longrightarrow> \<exists>bs. objects t k' = Some (bs, True)"
proof -
  obtain q u where q: "os_copy_opts store k k' ModeCreate s = (q, u)" by (rule prod.exhaust)
  have su: "grows objects foreign {k} {(k', src)} s u" using copy_grows [OF from_ok q] by (rule grows_mono) auto
  obtain v where v: "snd (os_delete store k u) = v" by simp
  have uv: "grows objects foreign {k} {(k', src)} u v"
    using delete_grows [of k u] v by (metis prod.collapse grows_mono order_refl empty_subsetI)
  have wait: "grows objects foreign {k} {(k', src)} x y \<and> (w = Inr () \<longrightarrow> (\<exists>bs. objects y k' = Some (bs, True)))"
    if "wait_until_readable store k' len x = (w, y)" for w x y
    using wait_grows [OF that] wait_readable [OF _ assms(3)] that by (auto intro: grows_mono)
  have same: "bs = src" if "objects u k' = Some (src, c)" "objects y k' = Some (bs, True)" "grows objects foreign {k} {(k', src)} u y" for c y bs
    using that assms(4) unfolding grows_def by fastforce
  consider (copied) w where "q = Inr ()" "wait_until_readable store k' len u = (w, t)" "r = Inr PutCreated \<longrightarrow> w = Inr ()"
      "r \<noteq> Inr PutAlreadyExists"
    | (refused) w where "wait_until_readable store k' len v = (w, t)" "r \<noteq> Inr PutCreated" "r = Inr PutAlreadyExists \<longrightarrow> w = Inr ()"
    | (failed) "t = v" "isl r"
    using run q v
    by (auto simp: publish_upload_def bindp_def ok_def failing_def split: sum.splits if_splits prod.splits)
  note cases = this
  from cases show "grows objects foreign {k} {(k', src)} s t"
    by cases (use wait su uv grows_trans in meson)+
  from cases show "objects t k' = Some (src, True)" if "r = Inr PutCreated"
  proof cases
    case copied
    then obtain c where "objects u k' = Some (src, c)" using copy_created [OF from_ok] q by blast
    with same wait [OF copied(2)] copied(3) that show ?thesis by blast
  qed (use that in auto)
  from cases show "\<exists>bs. objects t k' = Some (bs, True)" if "r = Inr PutAlreadyExists"
    by cases (use that wait in auto)
qed

end

lemma azure_put:
  assumes service: "object_service (az_store self) objects foreign" and paths: "paths_documented P (az_store self)"
    and fits: "azure_fits P d src" and run: "AzureStore_put P self d src s = (r, t)"
  defines "k \<equiv> AzureStore_key P self d"
  shows "\<exists>u. grows objects foreign {os_path (az_store self) (az_prefix self @ ''/uploads/'' @ u)} {(k, src)} s t"
    and "r = Inr PutCreated \<Longrightarrow> objects t k = Some (src, True)"
    and "r = Inr PutAlreadyExists \<Longrightarrow> \<exists>bs c. objects t k = Some (bs, c) \<and> (c \<or> dg_size d = 0)"
proof -
  let ?store = "az_store self" and ?up = "\<lambda>u. os_path (az_store self) (az_prefix self @ ''/uploads/'' @ u)"
  have "(\<exists>u. grows objects foreign {?up u} {(k, src)} s t) \<and> (r = Inr PutCreated \<longrightarrow> objects t k = Some (src, True)) \<and>
      (r = Inr PutAlreadyExists \<longrightarrow> (\<exists>bs c. objects t k = Some (bs, c) \<and> (c \<or> dg_size d = 0)))"
  proof (cases "dg_size d = 0")
    case True
    with run fits have "put_empty ?store k s = (r, t)" "src = []"
      by (simp_all add: AzureStore_put_def azure_fits_def k_def)
    with object_service.put_empty_correct [OF service this(1)] True show ?thesis
      by (auto intro: grows_mono [OF _ empty_subsetI order_refl])
  next
    case False
    obtain q x where q: "os_new_v4 ?store s = (q, x)" by (rule prod.exhaust)
    have sx: "grows objects foreign loose written s x" for loose written
      using object_service.uuid_grows [OF service q] by (rule grows_mono) auto
    show ?thesis
    proof (cases q)
      case (Inl e)
      with run False q sx show ?thesis by (auto simp: AzureStore_put_def AzureStore_upload_key_def bindp_def)
    next
      case (Inr u)
      obtain p y where p: "upload_source ?store (?up u) src x = (p, y)" by (rule prod.exhaust)
      note up = object_service.upload_correct [OF service p]
      have sy: "grows objects foreign {?up u} {(k, src)} s y"
        using grows_trans [OF sx grows_mono [OF up(1) order_refl empty_subsetI]] .
      show ?thesis
      proof (cases p)
        case (Inl e)
        with run False q Inr p sy show ?thesis
          by (auto simp: AzureStore_put_def AzureStore_upload_key_def bindp_def ok_def)
      next
        case (Inr z)
        have pub: "publish_upload ?store (?up u) k (dg_size d) y = (r, t)"
          using run False q \<open>q = Inr u\<close> p Inr
          by (simp add: AzureStore_put_def AzureStore_upload_key_def bindp_def ok_def k_def)
        have "?up u \<noteq> k"
          using paths fits unfolding paths_documented_def azure_fits_def k_def AzureStore_key_def by metis
        moreover have "objects y (?up u) = Some (src, True)" using up(2) Inr by simp
        ultimately have published: "grows objects foreign {?up u} {(k, src)} y t"
          "r = Inr PutCreated \<longrightarrow> objects t k = Some (src, True)"
          "r = Inr PutAlreadyExists \<longrightarrow> (\<exists>bs. objects t k = Some (bs, True))"
          using object_service.publish_correct [OF service pub _ False] by simp_all
        from grows_trans [OF sy published(1)] published(2,3) show ?thesis by blast
      qed
    qed
  qed
  then show "\<exists>u. grows objects foreign {?up u} {(k, src)} s t" "r = Inr PutCreated \<Longrightarrow> objects t k = Some (src, True)"
    "r = Inr PutAlreadyExists \<Longrightarrow> \<exists>bs c. objects t k = Some (bs, c) \<and> (c \<or> dg_size d = 0)" by blast+
qed

lemma azure_get:
  assumes service: "object_service (az_store self) objects foreign" and run: "AzureStore_get P self d s = (r, t)"
  shows "grows objects foreign {} {} s t"
    and "readable objects s (AzureStore_key P self d) = Some (bs, True) \<Longrightarrow> r = Inr b \<Longrightarrow>
      \<exists>blob. b = Some blob \<and> bl_size blob = of_nat (length bs) \<and> delivers (bl_stream blob) bs"
proof -
  obtain q u where q: "os_get (az_store self) (AzureStore_key P self d) s = (q, u)" by (rule prod.exhaust)
  with run have "t = u" by (auto simp: AzureStore_get_def split: sum.splits os_error.splits)
  with object_service.get_grows [OF service q] show "grows objects foreign {} {} s t" by simp
  show "\<exists>blob. b = Some blob \<and> bl_size blob = of_nat (length bs) \<and> delivers (bl_stream blob) bs"
    if found: "readable objects s (AzureStore_key P self d) = Some (bs, True)" and r: "r = Inr b"
  proof -
    obtain c where "objects s (AzureStore_key P self d) = Some (bs, c)" "c \<or> bs = []"
      using found unfolding readable_True by blast
    from object_service.get_found [OF service this q] run q r show ?thesis
      by (auto simp: AzureStore_get_def split: sum.splits os_error.splits)
  qed
qed

text \<open>
  A refused put finds something to read, if whatever is pending there or to come from others fits
  the digest: under the digest of the empty blob a pending object is then one without bytes.
\<close>

lemma azure_refused:
  assumes service: "object_service (az_store self) objects foreign" and paths: "paths_documented P (az_store self)"
    and fits: "azure_fits P d src" and others: "\<And>bs. azure_foreign P objects foreign self s d bs \<Longrightarrow> azure_fits P d bs"
    and run: "AzureStore_put P self d src s = (Inr PutAlreadyExists, t)"
  shows "\<exists>bs c. objects t (AzureStore_key P self d) = Some (bs, c) \<and> (c \<or> dg_size d = 0 \<and> bs = [])"
proof -
  let ?k = "AzureStore_key P self d"
  obtain bs c where t: "objects t ?k = Some (bs, c)" "c \<or> dg_size d = 0"
    using azure_put(3) [OF service paths fits run refl] by blast
  obtain u where step: "grows objects foreign {os_path (az_store self) (az_prefix self @ ''/uploads/'' @ u)} {(?k, src)} s t"
    using azure_put(1) [OF service paths fits run] by blast
  have "?k \<noteq> os_path (az_store self) (az_prefix self @ ''/uploads/'' @ u)"
    using paths fits unfolding paths_documented_def azure_fits_def AzureStore_key_def by metis
  note kept = grows_complete [OF step, of ?k] and apart = this
  note origin = step [unfolded grows_def, THEN conjunct2, THEN conjunct1, rule_format, of ?k bs c]
  have valid: "digest_validate P d" using fits by (simp add: azure_fits_def)
  consider c' where "objects s ?k = Some (bs, c')" | "foreign s ?k bs" | "bs = src"
    using origin t(1) apart by auto
  then have "c \<or> azure_fits P d bs"
  proof cases
    case 1
    show ?thesis
    proof (cases "c' \<or> bs = []")
      case True
      with kept [of bs] 1 t(1) apart valid show ?thesis by (cases c') (auto simp: azure_fits_def)
    next
      case False
      with 1 valid others [of bs] show ?thesis by (simp add: azure_foreign_def object_foreign_def readable_def)
    qed
  next
    case 2
    with valid others [of bs] show ?thesis by (simp add: azure_foreign_def object_foreign_def)
  qed (use fits in simp)
  with t show ?thesis unfolding azure_fits_def by blast
qed

lemma azure_laws:
  assumes service: "object_service (az_store self) objects foreign" and paths: "paths_documented P (az_store self)"
  shows "blob_store_laws (azure_blob_store P self) (azure_content P objects self) (azure_foreign P objects foreign self)
    (azure_fits P)"
proof (unfold_locales, unfold azure_blob_store_def blob_store.select_convs, goal_cases)
  case (1 d s r t)
  show ?case
    unfolding azure_content_def azure_foreign_def
    by (rule grows_extends [OF grows_readable [OF azure_get(1) [OF service 1]]]) auto
next
  case (2 s d bs b t)
  then have "readable objects s (AzureStore_key P self d) = Some (bs, True)"
    unfolding azure_content_def object_content_Some by blast
  from azure_get(2) [OF service 2(2) this refl] show ?case .
next
  case (3 d src s out t)
  note valid = 3(1) [unfolded azure_fits_def, THEN conjunct1]
  obtain u where "grows objects foreign {os_path (az_store self) (az_prefix self @ ''/uploads/'' @ u)}
      {(AzureStore_key P self d, src)} s t" using azure_put(1) [OF service paths 3] by blast
  then show ?case
    unfolding azure_content_def azure_foreign_def
    by (rule grows_extends [OF grows_readable])
      (use paths valid in \<open>auto simp: paths_documented_def AzureStore_key_def\<close>)
next
  case (4 d src s t)
  then show ?case
    using azure_put(2) [OF service paths 4 refl]
    by (auto simp: azure_content_def object_content_Some azure_fits_def readable_True)
next
  case (5 d src s t)
  then obtain bs c where "objects t (AzureStore_key P self d) = Some (bs, c)" "c \<or> bs = []"
    using azure_refused [OF service paths 5] by blast
  then have "azure_content P objects self t d = Some bs"
    using 5(1) unfolding azure_content_def object_content_Some readable_True azure_fits_def by blast
  then show ?case by simp
qed

section \<open>A simulated service\<close>

text \<open>
  A container in memory: with each object the number of reads after which it is complete, which a
  copy takes from \<open>co_delays\<close>. A read of a pending object finds it empty.
\<close>

record container_sim =
  co_objects :: "string \<Rightarrow> (bytes \<times> nat) option"
  co_delays :: "nat list"
  co_uuid :: nat

definition sim_store :: "string \<Rightarrow> bytes \<times> nat \<Rightarrow> container_sim \<Rightarrow> container_sim" where
  "sim_store k x s = s\<lparr>co_objects := (co_objects s)(k \<mapsto> x)\<rparr>"

definition container_store :: "container_sim object_store" where
  "container_store =
     \<lparr>os_path = (\<lambda>p. p),
      os_message = (\<lambda>e. ''storage error''),
      os_get = (\<lambda>k s. (case co_objects s k of None \<Rightarrow> Inl OsNotFound
         | Some (bs, n) \<Rightarrow> Inr (if n = 0 then \<lparr>or_size = of_nat (length bs), or_stream = [Inr bs]\<rparr>
                               else \<lparr>or_size = 0, or_stream = []\<rparr>), s)),
      os_get_range = (\<lambda>k (i, j) s. case co_objects s k of None \<Rightarrow> (Inl OsNotFound, s)
         | Some (bs, n) \<Rightarrow> (if n \<le> 1 \<and> unat j \<le> length bs then Inr (drop (unat i) (take (unat j) bs)) else Inl (OsOther ''invalid range''),
                           sim_store k (bs, n - 1) s)),
      os_put_opts = (\<lambda>k bs mode s. if mode = ModeCreate \<and> co_objects s k \<noteq> None then (Inl OsAlreadyExists, s)
         else (Inr (), sim_store k (bs, 0) s)),
      os_copy_opts = (\<lambda>k k' mode s. case co_objects s k of None \<Rightarrow> (Inl OsNotFound, s)
         | Some (bs, _) \<Rightarrow> if mode = ModeCreate \<and> co_objects s k' \<noteq> None then (Inl OsAlreadyExists, s)
             else (Inr (), (sim_store k' (bs, case co_delays s of [] \<Rightarrow> 0 | n # _ \<Rightarrow> n) s)\<lparr>co_delays := tl (co_delays s)\<rparr>)),
      os_delete = (\<lambda>k s. (Inr (), s\<lparr>co_objects := (co_objects s)(k := None)\<rparr>)),
      os_new_v4 = (\<lambda>s. (Inr (show_nat (co_uuid s)), s\<lparr>co_uuid := Suc (co_uuid s)\<rparr>)),
      os_open_source = ok (),
      os_copy_into = (\<lambda>w src. ok (w\<lparr>wr_bytes := wr_bytes w @ src\<rparr>)),
      os_abort = (\<lambda>w. ok ()),
      os_shutdown = (\<lambda>w s. (Inr (), sim_store (wr_key w) (wr_bytes w, 0) s))\<rparr>"

definition container_objects :: "container_sim \<Rightarrow> string objects" where
  "container_objects s k = map_option (\<lambda>(bs, n). (bs, n = 0)) (co_objects s k)"

lemma sim_store_grows:
  assumes "\<forall>bs n. co_objects s k = Some (bs, n) \<longrightarrow> bs = fst x \<and> (n = 0 \<longrightarrow> snd x = 0)"
    and "co_objects s k = None \<longrightarrow> (k, fst x) \<in> written"
  shows "grows container_objects (\<lambda>_ _ _. False) {} written s (sim_store k x s)"
  using assms by (cases x; cases "co_objects s k") (auto simp: grows_def container_objects_def sim_store_def)

lemma sim_touch_grows:
  "grows container_objects (\<lambda>_ _ _. False) {k} {} s (s\<lparr>co_objects := (co_objects s)(k := x)\<rparr>)"
  by (auto simp: grows_def container_objects_def)

lemma sim_same_objects: "co_objects t = co_objects s \<Longrightarrow> grows container_objects (\<lambda>_ _ _. False) loose written s t"
  by (auto simp: grows_def container_objects_def)

lemma container_service: "object_service container_store container_objects (\<lambda>_ _ _. False)"
proof (unfold_locales, goal_cases)
  case (1 k s r t)
  then show ?case by (auto simp: container_store_def)
next
  case (2 s k bs r t)
  then show ?case by (auto simp: container_store_def container_objects_def split: option.splits)
next
  case (3 k rg s r t)
  then show ?case
    by (cases rg) (auto simp: container_store_def split: option.splits intro!: sim_store_grows)
next
  case (4 k i j s x t)
  then show ?case
    by (auto simp: container_store_def container_objects_def sim_store_def split: option.splits if_splits)
next
  case (5 k bs s r t)
  then show ?case
    by (auto simp: container_store_def split: if_splits option.splits intro!: sim_store_grows)
next
  case (6 k bs s t)
  then show ?case by (auto simp: container_store_def container_objects_def sim_store_def split: if_splits)
next
  case (7 k s e t)
  then show ?case by (auto simp: container_store_def container_objects_def sim_store_def split: if_splits)
next
  case (8 s k bs k' r t)
  show ?case
  proof (cases "co_objects s k'")
    case None
    with 8 obtain n ds where t: "t = (sim_store k' (bs, n) s)\<lparr>co_delays := ds\<rparr>"
      by (auto simp: container_store_def container_objects_def)
    have "grows container_objects (\<lambda>_ _ _. False) {} {(k', bs)} s (sim_store k' (bs, n) s)"
      using None by (intro sim_store_grows) auto
    then show ?thesis unfolding t by (rule grows_trans) (rule sim_same_objects, simp)
  next
    case (Some x)
    with 8 show ?thesis by (auto simp: container_store_def container_objects_def)
  qed
next
  case (9 s k bs k' t)
  then show ?case
    by (auto simp: container_store_def container_objects_def sim_store_def split: if_splits option.splits)
next
  case (10 k s r t)
  then show ?case by (auto simp: container_store_def sim_touch_grows)
next
  case (11 s r t)
  then show ?case by (auto simp: container_store_def intro!: sim_same_objects)
qed (auto simp: container_store_def ok_def sim_store_def container_objects_def sim_touch_grows)

interpretation container: object_service container_store container_objects "\<lambda>_ _ _. False"
  by (rule container_service)

lemma container_paths: "paths_documented reference_protocol container_store"
  using reference_keys_documented
  by (auto simp: paths_documented_def keys_documented_def container_store_def)

section \<open>Properties\<close>

text \<open>
  C27. An upload to Azure that reports success is readable, although the service accepts a copy
  before it is complete and refuses an upload while a copy is pending. When the call returns there
  is an object, complete unless the blob is the empty one, and complete with the uploaded bytes if the
  upload created it. A download after any further calls finds it if it does not fail, and delivers
  its bytes. What others have pending or may still write under the digest of the empty blob is
  supposed to be empty.
\<close>

theorem azure_put_readable:
  assumes "object_service (az_store self) objects foreign" and "paths_documented P (az_store self)"
    and "azure_fits P d src" and "\<forall>bs. azure_foreign P objects foreign self s d bs \<longrightarrow> azure_fits P d bs"
    and "AzureStore_put P self d src s = (Inr out, t)"
    and "(store_step (azure_blob_store P self) (azure_fits P))\<^sup>*\<^sup>* t u"
    and "AzureStore_get P self d u = (Inr b, v)"
  shows "\<exists>bs c blob. objects t (AzureStore_key P self d) = Some (bs, c) \<and>
    (c \<or> out = PutAlreadyExists \<and> dg_size d = 0 \<and> bs = []) \<and> (out = PutCreated \<longrightarrow> bs = src) \<and>
    b = Some blob \<and> bl_size blob = of_nat (length bs) \<and> delivers (bl_stream blob) bs"
proof -
  obtain bs c where bs: "objects t (AzureStore_key P self d) = Some (bs, c)"
    "c \<or> out = PutAlreadyExists \<and> dg_size d = 0 \<and> bs = []" "out = PutCreated \<longrightarrow> bs = src"
  proof (cases out)
    case PutCreated
    with azure_put(2) [OF assms(1-3,5)] that show ?thesis by blast
  next
    case PutAlreadyExists
    with azure_refused [OF assms(1-3) _ assms(5) [unfolded PutAlreadyExists]] assms(4) that show ?thesis by blast
  qed
  have "azure_content P objects self t d = Some bs"
    using bs(1,2) assms(3) by (auto simp: azure_content_def object_content_Some azure_fits_def readable_True)
  from blob_store_laws.steps_content [OF azure_laws [OF assms(1,2)] assms(6) this]
  have "readable objects u (AzureStore_key P self d) = Some (bs, True)"
    by (simp add: azure_content_def object_content_Some)
  from azure_get(2) [OF assms(1,7) this refl] bs show ?thesis by blast
qed

definition example_container :: container_sim where
  "example_container = \<lparr>co_objects = Map.empty, co_delays = [3], co_uuid = 0\<rparr>"

definition example_azure :: "container_sim azure_store" where
  "example_azure = AzureStore_from_store container_store ''/v1/''"

definition empty_digest :: digest where
  "empty_digest = \<lparr>dg_algorithm = ''blake3'', dg_hash = replicate 64 (CHR ''b''), dg_size = 0\<rparr>"

text \<open>A container in which a copy to the key of the empty blob is pending.\<close>

definition pending_container :: container_sim where
  "pending_container =
     \<lparr>co_objects = [AzureStore_key reference_protocol example_azure empty_digest \<mapsto> ([], 5)], co_delays = [], co_uuid = 0\<rparr>"

lemma example_azure_store [simp]: "az_store example_azure = container_store"
  by (simp add: example_azure_def AzureStore_from_store_def)

theorem azure_put_readable_witness:
  "(\<exists>t blob. AzureStore_put reference_protocol example_azure example_digest [1, 2] example_container = (Inr PutCreated, t) \<and>
     fst (AzureStore_get reference_protocol example_azure example_digest t) = Inr (Some blob) \<and>
     bl_size blob = 2 \<and> delivers (bl_stream blob) [1, 2]) \<and>
   (\<exists>t blob. AzureStore_put reference_protocol example_azure empty_digest [] pending_container = (Inr PutAlreadyExists, t) \<and>
     fst (AzureStore_get reference_protocol example_azure empty_digest t) = Inr (Some blob) \<and>
     bl_size blob = 0 \<and> delivers (bl_stream blob) [])"
proof
  let ?put = "AzureStore_put reference_protocol example_azure example_digest [1, 2] example_container"
  let ?get = "AzureStore_get reference_protocol example_azure example_digest"
  have "digest_validate reference_protocol example_digest" by code_simp
  then have fits: "azure_fits reference_protocol example_digest [1, 2]" by (simp add: azure_fits_def example_digest_def)
  have quiet: "\<forall>bs. azure_foreign reference_protocol container_objects (\<lambda>_ _ _. False) example_azure example_container
      example_digest bs \<longrightarrow> azure_fits reference_protocol example_digest bs"
    by (simp add: azure_foreign_def object_foreign_def readable_def container_objects_def example_container_def)
  have "fst ?put = Inr PutCreated" "\<not> isl (fst (?get (snd ?put)))" by code_simp+
  then obtain t b v where t: "?put = (Inr PutCreated, t)" and get: "?get t = (Inr b, v)"
    by (metis isl_def obj_sumE prod.collapse snd_conv)
  from azure_put_readable [of example_azure, unfolded example_azure_store, OF container_service container_paths fits quiet t
      rtranclp.rtrancl_refl get] t get
  show "\<exists>t blob. ?put = (Inr PutCreated, t) \<and> fst (?get t) = Inr (Some blob) \<and>
      bl_size blob = 2 \<and> delivers (bl_stream blob) [1, 2]" by auto
next
  let ?put = "AzureStore_put reference_protocol example_azure empty_digest [] pending_container"
  let ?get = "AzureStore_get reference_protocol example_azure empty_digest"
  have "digest_validate reference_protocol empty_digest" by code_simp
  then have fits: "azure_fits reference_protocol empty_digest []" by (simp add: azure_fits_def)
  have quiet: "\<forall>bs. azure_foreign reference_protocol container_objects (\<lambda>_ _ _. False) example_azure pending_container
      empty_digest bs \<longrightarrow> azure_fits reference_protocol empty_digest bs"
    by (simp add: azure_foreign_def object_foreign_def readable_def container_objects_def pending_container_def)
  have "fst ?put = Inr PutAlreadyExists" "\<not> isl (fst (?get (snd ?put)))" by code_simp+
  then obtain t b v where t: "?put = (Inr PutAlreadyExists, t)" and get: "?get t = (Inr b, v)"
    by (metis isl_def obj_sumE prod.collapse snd_conv)
  have "co_objects t (AzureStore_key reference_protocol example_azure empty_digest) = Some ([], 5)"
    using t by (auto simp: AzureStore_put_def empty_digest_def put_empty_def container_store_def pending_container_def
        split: if_splits)
  from azure_put_readable [of example_azure, unfolded example_azure_store, OF container_service container_paths fits quiet t
      rtranclp.rtrancl_refl get] t get
    \<open>co_objects t (AzureStore_key reference_protocol example_azure empty_digest) = Some ([], 5)\<close>
  show "\<exists>t blob. ?put = (Inr PutAlreadyExists, t) \<and> fst (?get t) = Inr (Some blob) \<and>
      bl_size blob = 0 \<and> delivers (bl_stream blob) []" by (auto simp: container_objects_def)
qed

end
