(* ===== verification/Startup.thy ===== *)
theory Startup
  imports Service_Example Postgres S3 Azure "HOL-Library.Code_Target_Nat"
begin

text \<open>
  Start-up: \<^verbatim>\<open>metadata::from_url\<close>, \<^verbatim>\<open>storage::from_config\<close> and \<^verbatim>\<open>src/main.rs\<close> up to the point where
  the router serves requests (theory \<^verbatim>\<open>Router\<close>), and the server over the durable back ends, S3
  and PostgreSQL. Logging and waiting for the shutdown signal are left out.
\<close>

section \<open>Choosing the back ends\<close>

datatype metadata_backend = MemoryBackend memory_metadata | PostgresBackend postgres

datatype 'b storage_backend = AzureBackend "'b azure_store" | FilesystemBackend filesystem_store | S3Backend s3_store

definition from_url :: "(string \<Rightarrow> u32 \<Rightarrow> string + postgres) \<Rightarrow> string \<Rightarrow> u32 \<Rightarrow> string + metadata_backend" where
  "from_url open_pool url max_connections =
     (if url = ''memory://'' then Inr (MemoryBackend MemoryMetadata_default)
      else bind_result (PostgresMetadata_connect open_pool url max_connections) (\<lambda>m. Inr (PostgresBackend m)))"

definition from_config :: "(azure_settings \<Rightarrow> string + 'b object_store) \<Rightarrow> config \<Rightarrow> (fs, string, 'b storage_backend) prog" where
  "from_config build cfg =
     (case cf_storage cfg of
        KindAzure \<Rightarrow> liftr (bind_result (AzureStore_new build cfg) (\<lambda>s. Inr (AzureBackend s)))
      | KindFilesystem \<Rightarrow> bindp (FilesystemStore_new (cf_data_dir cfg)) (\<lambda>s. ok (FilesystemBackend s))
      | KindS3 \<Rightarrow> liftr (bind_result (S3Store_new cfg) (\<lambda>s. Inr (S3Backend s))))"

text \<open>The method of the chosen store.\<close>

definition sweep_backend :: "database \<Rightarrow> u32 \<Rightarrow> (metadata_backend, string, sweep_outcome) prog" where
  "sweep_backend D days m =
     (case m of
        MemoryBackend s \<Rightarrow> map_prod id MemoryBackend (default_sweep days s)
      | PostgresBackend s \<Rightarrow> map_prod id PostgresBackend (postgres_sweep D days s))"

section \<open>The process\<close>

record process =
  ps_fs :: fs
  ps_auth :: auth_state
  ps_listening :: "string list"

record 'b startup_libraries =
  sl_open_pool :: "string \<Rightarrow> u32 \<Rightarrow> string + postgres"
  sl_build :: "azure_settings \<Rightarrow> string + 'b object_store"
  sl_database :: database
  sl_jwt :: jwt_library
  sl_network :: network
  sl_parsers :: auth_parsers
  sl_bind :: "string \<Rightarrow> string + unit"

datatype 'b startup =
    Swept sweep_outcome metadata_backend
  | Serving "'b storage_backend" metadata_backend authorizer u64

definition listen :: "'b startup_libraries \<Rightarrow> string \<Rightarrow> (process, string, unit) prog" where
  "listen L address =
     bindp (liftr (sl_bind L address)) (\<lambda>_. modifyp (ps_listening_update (Cons address)))"

definition main_run :: "'b startup_libraries \<Rightarrow> command_line \<Rightarrow> (process, string, 'b startup) prog" where
  "main_run L A =
     bindp (liftr (Config_parse A)) (\<lambda>cfg.
     bindp (liftr (from_url (sl_open_pool L) (cf_database_url cfg) (cf_database_max_connections cfg))) (\<lambda>metadata.
       case cf_sweep_metadata_older_than_days cfg of
         Some days \<Rightarrow>
           (case sweep_backend (sl_database L) days metadata of
              (result, metadata) \<Rightarrow> bindp (liftr result) (\<lambda>out. ok (Swept out metadata)))
       | None \<Rightarrow>
           bindp (zoom ps_fs ps_fs_update (from_config (sl_build L) cfg)) (\<lambda>blobs.
           bindp (zoom ps_auth ps_auth_update
               (Authorizer_new (sl_jwt L) (sl_network L) (sl_parsers L) (cf_tokens_json cfg) (cf_oidc_providers_json cfg)
                  (cf_allow_anonymous cfg) (cf_anonymous_read_namespaces_json cfg))) (\<lambda>auth.
           bindp (listen L (cf_listen cfg)) (\<lambda>_.
             ok (Serving blobs metadata auth (cf_max_blob_bytes cfg)))))))"

section \<open>S3 and PostgreSQL\<close>

definition s3_postgres_backend ::
  "protocol \<Rightarrow> ('b \<Rightarrow> s3_key objects) \<Rightarrow> ('b \<Rightarrow> s3_key \<Rightarrow> bytes \<Rightarrow> bool) \<Rightarrow> s3_store \<Rightarrow> database \<Rightarrow> value_codec
     \<Rightarrow> ('b, postgres) backend" where
  "s3_postgres_backend P objects foreign self D V =
     \<lparr>bk_content = s3_content P objects self, bk_foreign = s3_foreign P objects foreign self,
      bk_view = postgres_view V, bk_inv = postgres_inv D V\<rparr>"

lemma s3_postgres_server:
  assumes "s3_service client objects foreign" and "keys_documented (lb_protocol B)" and "values_documented D V"
    and "digests_documented (lb_protocol B)" and "hashes_documented (lb_hash B)"
    and "st_blobs st = s3_blob_store (lb_protocol B) client self" and "st_metadata st = postgres_metadata_store D V"
  shows "cache_server B st (s3_postgres_backend (lb_protocol B) objects foreign self D V)"
proof -
  have "\<forall>d bs. verified B d bs \<longrightarrow> digest_validate (lb_protocol B) d" by (simp add: verified_def)
  note blobs = blob_store_laws_mono [OF s3_service.blob_laws [OF assms(1,2), of self] this]
  from blobs postgres_laws [OF assms(3)] assms(4-7) show ?thesis
    by (simp add: cache_server_def s3_postgres_backend_def)
qed

lemma empty_s3_postgres_ok:
  assumes "\<forall>k. objects (w_blobs w) k = None" and "\<forall>k bs. \<not> foreign (w_blobs w) k bs"
    and "pg_tables (w_meta w) = empty_tables" and "pg_others (w_meta w) = []" and "w_env w = []"
  shows "world_ok B (s3_postgres_backend P objects foreign self D V) w"
  using assms
  by (auto simp: world_ok_def sys_ok_def stores_def s3_postgres_backend_def all_content_def s3_content_def s3_foreign_def
      object_content_def object_foreign_def postgres_view_def postgres_inv_def tables_view_def tables_ok_def rows_ok_def
      empty_tables_def)

section \<open>Properties\<close>

text \<open>
  C32. A process either sweeps or serves: with a sweep age it opens no storage, trusts no
  identity provider and listens nowhere, and what it did to the metadata is one sweep of a freshly opened
  store; without one it serves the storage back end the configuration names, with freshly opened metadata,
  on the configured address and with the configured size limit. A configuration from the command
  line never asks for a pool without connections.
\<close>

theorem startup_sweeps_or_serves:
  assumes cfg: "Config_parse A = Inr cfg" and run: "main_run L A p = (Inr mode, q)"
  shows "cf_database_max_connections cfg \<noteq> 0 \<and>
    (\<exists>m. from_url (sl_open_pool L) (cf_database_url cfg) (cf_database_max_connections cfg) = Inr m \<and>
    (cf_database_url cfg \<noteq> ''memory://'' \<longrightarrow>
       (\<exists>s. sl_open_pool L (cf_database_url cfg) (cf_database_max_connections cfg) = Inr s \<and> m = PostgresBackend s)) \<and>
    (case cf_sweep_metadata_older_than_days cfg of
       Some days \<Rightarrow> q = p \<and> (\<exists>out m'. sweep_backend (sl_database L) days m = (Inr out, m') \<and> mode = Swept out m')
     | None \<Rightarrow>
         ps_listening q = cf_listen cfg # ps_listening p \<and> sl_bind L (cf_listen cfg) = Inr () \<and>
         (\<exists>blobs auth. mode = Serving blobs m auth (cf_max_blob_bytes cfg) \<and>
            au_allow_anonymous auth = cf_allow_anonymous cfg \<and>
            (case blobs of AzureBackend _ \<Rightarrow> cf_storage cfg = KindAzure | FilesystemBackend _ \<Rightarrow> cf_storage cfg = KindFilesystem
             | S3Backend _ \<Rightarrow> cf_storage cfg = KindS3))))"
proof -
  obtain m where m: "from_url (sl_open_pool L) (cf_database_url cfg) (cf_database_max_connections cfg) = Inr m"
    using run cfg by (auto simp: main_run_def prog_simps)
  have pool: "\<exists>s. sl_open_pool L (cf_database_url cfg) (cf_database_max_connections cfg) = Inr s \<and> m = PostgresBackend s"
    if "cf_database_url cfg \<noteq> ''memory://''"
    using m that by (auto simp: from_url_def PostgresMetadata_connect_def result_simps)
  show ?thesis
  proof (cases "cf_sweep_metadata_older_than_days cfg")
    case (Some days)
    with run cfg m pool Config_parse_fields(1) [OF cfg] show ?thesis
      by (cases "sweep_backend (sl_database L) days m") (auto simp: main_run_def prog_simps)
  next
    case None
    have kind: "case blobs of AzureBackend _ \<Rightarrow> cf_storage cfg = KindAzure | FilesystemBackend _ \<Rightarrow> cf_storage cfg = KindFilesystem
        | S3Backend _ \<Rightarrow> cf_storage cfg = KindS3" if "from_config (sl_build L) cfg s = (Inr blobs, t)" for blobs s t
      using that by (auto simp: from_config_def prog_simps result_simps split: storage_kind.splits)
    from None run cfg m pool kind Config_parse_fields(1) [OF cfg] show ?thesis
      by (auto simp: main_run_def prog_simps zoom_def listen_def Authorizer_new_def modifyp_def split: prod.splits)
  qed
qed

text \<open>A command line that asks for a sweep.\<close>

definition sweep_command :: command_line where
  "sweep_command =
     \<lparr>given = [''sweep-metadata-older-than-days'' \<mapsto> ''1'', ''database-url'' \<mapsto> ''postgres://db/cache''],
      switched = (\<lambda>_. Inr False), parse_address = Inr, parse_path = (\<lambda>s. [s])\<rparr>"

definition sweep_config :: config where
  "sweep_config = projr (Config_parse sweep_command)"

definition example_startup :: "container_sim startup_libraries" where
  "example_startup =
     \<lparr>sl_open_pool = (\<lambda>_ _. Inr aged), sl_build = (\<lambda>_. Inr container_store), sl_database = database_reference,
      sl_jwt = example_library, sl_network = example_network, sl_parsers = example_parsers, sl_bind = (\<lambda>_. Inr ())\<rparr>"

definition idle :: process where
  "idle = \<lparr>ps_fs = example_fs, ps_auth = example_auth_state 0, ps_listening = []\<rparr>"

theorem startup_sweeps_or_serves_witness:
  "\<exists>out m. main_run example_startup sweep_command idle = (Inr (Swept out m), idle) \<and>
     sweep_backend database_reference 1 (PostgresBackend aged) = (Inr out, m)"
proof -
  have cfg: "Config_parse sweep_command = Inr sweep_config"
    "cf_sweep_metadata_older_than_days sweep_config = Some 1" "cf_database_url sweep_config \<noteq> ''memory://''"
    by code_simp+
  have "\<not> isl (fst (main_run example_startup sweep_command idle))" by code_simp
  then obtain mode q where run: "main_run example_startup sweep_command idle = (Inr mode, q)"
    by (metis isl_def obj_sumE prod.collapse)
  from startup_sweeps_or_serves [OF cfg(1) run] cfg(2,3) run show ?thesis by (auto simp: example_startup_def)
qed

text \<open>
  C6. The service over S3 and PostgreSQL, from an empty bucket and empty tables on and whatever
  sequence of requests it serves: every row of the blob table has a complete object in the
  bucket whose size and hash are those the digest of the row names, and every stored result is a valid
  result of its action that refers only to such blobs.
\<close>

theorem durable_service_invariant:
  assumes libs: "s3_service client objects foreign" "keys_documented (lb_protocol B)" "values_documented D V"
      "digests_documented (lb_protocol B)" "hashes_documented (lb_hash B)" "hex_documented (lb_protocol B)"
      "magic_documented (lb_protocol B)" "max_batch_items (lb_protocol B) = 10000"
    and st: "st = AppState_new (s3_blob_store (lb_protocol B) client self) (postgres_metadata_store D V) auth limit"
      "unat limit < 2 ^ 63"
    and start: "\<forall>k. objects (w_blobs w) k = None" "\<forall>k bs. \<not> foreign (w_blobs w) k bs"
      "pg_tables (w_meta w) = empty_tables" "pg_others (w_meta w) = []" "w_env w = []"
    and w': "w' = serve_all B st reqs w"
  shows "(\<forall>ns d. map_of (tb_blobs (pg_tables (w_meta w'))) (row_key ns d) \<noteq> None \<longrightarrow>
      (\<exists>bs. objects (w_blobs w') (s3_bucket self, S3Store_key (lb_protocol B) self d) = Some (bs, True) \<and> verified B d bs)) \<and>
    (\<forall>ns a r. v_results (postgres_view V (w_meta w')) (ns, a) = Some r \<longrightarrow>
      result_ok B (v_blobs (postgres_view V (w_meta w'))) (s3_content (lb_protocol B) objects self (w_blobs w')) ns a r)"
proof -
  let ?K = "s3_postgres_backend (lb_protocol B) objects foreign self D V"
  have "cache_server B st ?K" using libs st by (intro s3_postgres_server) (simp_all add: AppState_new_def)
  with libs st have "packing_server B st ?K" by (simp add: packing_server_def packing_server_axioms_def AppState_new_def)
  moreover have "world_ok B ?K w" using start by (rule empty_s3_postgres_ok)
  ultimately have "world_ok B ?K w'" unfolding w' using packing_server.serve_all_keeps by blast
  then have "sys_ok B ?K (w_blobs w', w_meta w')" by (simp add: world_ok_def stores_def)
  then have ok: "all_content (s3_content (lb_protocol B) objects self) (s3_foreign (lb_protocol B) objects foreign self)
      (verified B) (w_blobs w')"
    "\<forall>ns d. (ns, d) \<in> v_blobs (postgres_view V (w_meta w')) \<longrightarrow> s3_content (lb_protocol B) objects self (w_blobs w') d \<noteq> None"
    "\<forall>ns a r. v_results (postgres_view V (w_meta w')) (ns, a) = Some r \<longrightarrow>
      result_ok B (v_blobs (postgres_view V (w_meta w'))) (s3_content (lb_protocol B) objects self (w_blobs w')) ns a r"
    by (simp_all add: sys_ok_def s3_postgres_backend_def)
  have "\<exists>bs. objects (w_blobs w') (s3_bucket self, S3Store_key (lb_protocol B) self d) = Some (bs, True) \<and> verified B d bs"
    if "map_of (tb_blobs (pg_tables (w_meta w'))) (row_key ns d) \<noteq> None" for ns d
  proof -
    from that have "(ns, d) \<in> v_blobs (postgres_view V (w_meta w'))" by (simp add: postgres_view_def tables_view_def)
    with ok(2) obtain bs where bs: "s3_content (lb_protocol B) objects self (w_blobs w') d = Some bs" by blast
    with ok(1) have "verified B d bs" by (simp add: all_content_def)
    with bs show ?thesis by (simp add: s3_content_def object_content_Some)
  qed
  with ok(3) show ?thesis by blast
qed

definition durable_state :: "(bucket_sim, postgres) app_state" where
  "durable_state =
     AppState_new (s3_blob_store reference_protocol bucket_client example_s3)
       (postgres_metadata_store database_reference value_reference) open_authorizer 1024"

definition durable_world :: "(bucket_sim, postgres) world" where
  "durable_world =
     \<lparr>w_blobs = \<lparr>bu_objects = [], bu_others = [], bu_lost = []\<rparr>, w_meta = fresh_postgres [],
      w_auth = example_auth_state 0, w_metrics = Metrics_new, w_faults = [], w_ticks = [], w_env = []\<rparr>"

definition durably_uploaded :: "(bucket_sim, postgres) world" where
  "durably_uploaded = serve_all example_libraries durable_state [upload_of file_bytes] durable_world"

theorem durable_service_invariant_witness:
  "\<exists>bs. bucket_objects (w_blobs durably_uploaded) (''cache'', ''v1/blobs/'' @ digest_key reference_protocol (digest_of file_bytes))
       = Some (bs, True) \<and> verified example_libraries (digest_of file_bytes) bs"
proof -
  have "map_of (tb_blobs (pg_tables (w_meta durably_uploaded))) (row_key ''team'' (digest_of file_bytes)) \<noteq> None"
    by code_simp
  moreover have "lb_protocol example_libraries = reference_protocol" "lb_hash example_libraries = reference_hash_library"
    by (simp_all add: example_libraries_def)
  moreover have "max_batch_items reference_protocol = 10000" by (simp add: reference_protocol_def)
  ultimately show ?thesis
    using durable_service_invariant [where B = example_libraries and w = durable_world and w' = durably_uploaded and self = example_s3
        and reqs = "[upload_of file_bytes]" and st = durable_state and auth = open_authorizer and limit = 1024,
        OF bucket_service _ reference_values_documented]
    by (auto simp: reference_keys_documented reference_protocol_documented reference_hashes_documented durable_state_def
        durably_uploaded_def durable_world_def bucket_objects_def bucket_foreign_def fresh_postgres_def example_s3_def S3Store_key_def)
qed

end
