(* ===== verification/Metrics_Registry.thy ===== *)
theory Metrics_Registry
  imports Metrics Complex_Main
begin

text \<open>
  \<^verbatim>\<open>Metrics::new\<close> of \<^verbatim>\<open>src/metrics.rs\<close>: the registry the handles of theory \<^verbatim>\<open>Metrics\<close> are registered in.
  The registry and the text format belong to another crate; of a registration the model keeps
  its name, its description and the metric registered under it.
\<close>

text \<open>The boundaries of the buckets, in seconds.\<close>

definition duration_histogram :: "rat list" where
  "duration_histogram =
     [1 / 1000, 25 / 10000, 5 / 1000, 1 / 100, 25 / 1000, 5 / 100, 1 / 10, 25 / 100, 5 / 10, 1, 25 / 10, 5, 10, 30, 60,
      120, 300]"

datatype metric =
    BuildInfo string string
  | Counter handle
  | Gauge handle
  | Histogram handle "rat list"
  | CounterFamily handle
  | HistogramFamily handle "rat list"

definition histogram_family :: "handle \<Rightarrow> metric" where
  "histogram_family h = HistogramFamily h duration_histogram"

record registration =
  rg_name :: string
  rg_help :: string
  rg_metric :: metric

definition register :: "string \<Rightarrow> string \<Rightarrow> metric \<Rightarrow> registration" where
  "register name help m = \<lparr>rg_name = ''mbx_cache_'' @ name, rg_help = help, rg_metric = m\<rparr>"

definition Metrics_registry :: "string \<Rightarrow> string option \<Rightarrow> registration list" where
  "Metrics_registry version revision =
     [register ''build'' ''Build information for the running mbx-cache process''
        (BuildInfo version (case revision of None \<Rightarrow> ''unknown'' | Some r \<Rightarrow> r)),
      register ''blob_hits'' ''Blob reads served by single or packed transfers'' (Counter blob_hits),
      register ''blob_uploads'' ''Blob uploads accepted by the service'' (Counter blob_uploads),
      register ''blob_pack_uploads'' ''Framed multi-blob uploads accepted by the service'' (Counter blob_pack_uploads),
      register ''action_batches'' ''Batched action-result lookups answered by the service'' (Counter action_batches),
      register ''action_hits'' ''Action-result lookups that found a result'' (Counter action_hits),
      register ''action_misses'' ''Action-result lookups that did not find a result'' (Counter action_misses),
      register ''action_commits'' ''Action-result commit attempts'' (Counter action_commits),
      register ''pack_requests'' ''Accepted blob-pack response streams by terminal outcome'' (CounterFamily pack_requests),
      register ''pack_in_flight'' ''Blob-pack response streams currently in flight'' (Gauge pack_in_flight),
      register ''pack_blobs'' ''Blobs requested, served, or missing in served packs, or accepted in uploaded packs''
        (CounterFamily pack_blobs_family),
      register ''pack_bytes'' ''Declared blob bytes requested or payload bytes served in blob packs'' (CounterFamily pack_bytes),
      register ''pack_duration_seconds'' ''Blob-pack request duration through response-body completion''
        (histogram_family pack_duration),
      register ''pack_time_to_first_byte_seconds''
        ''Time from entering the blob-pack handler until its first response byte''
        (Histogram pack_time_to_first_byte duration_histogram),
      register ''pack_metadata_query_duration_seconds'' ''Namespace visibility query duration for blob packs''
        (histogram_family pack_metadata_query_duration),
      register ''pack_storage_gets'' ''Blob-store GET attempts made for blob packs'' (CounterFamily pack_storage_gets),
      register ''pack_storage_get_duration_seconds'' ''Time to receive blob-store GET response headers for blob packs''
        (histogram_family pack_storage_get_duration)]"

fun metric_handle :: "metric \<Rightarrow> handle option" where
  "metric_handle (BuildInfo _ _) = None"
| "metric_handle (Counter h) = Some h"
| "metric_handle (Gauge h) = Some h"
| "metric_handle (Histogram h _) = Some h"
| "metric_handle (CounterFamily h) = Some h"
| "metric_handle (HistogramFamily h _) = Some h"

text \<open>
  No two metrics are exported under one name; every handle the service reports to is exported,
  once; the buckets of a histogram are in order.
\<close>

lemma registry_names_distinct: "distinct (map rg_name (Metrics_registry version revision))"
  by (simp add: Metrics_registry_def register_def)

lemma registry_exports_handles:
  "length (filter (\<lambda>r. metric_handle (rg_metric r) = Some h) (Metrics_registry version revision)) = 1"
  by (cases h) (simp_all add: Metrics_registry_def register_def histogram_family_def)

lemma duration_histogram_sorted: "sorted_wrt (<) duration_histogram"
  by (simp add: duration_histogram_def)

end
