(* ===== verification/Spec2Isabelle.thy ===== *)
theory Spec2Isabelle
  imports Startup Oidc_Props Metrics_Registry
begin

text \<open>
  \<^bold>\<open>mbx-cache\<close>: a verification library for the remote build-cache server of this repository.

  \<^bold>\<open>The program.\<close> The server stores content-addressed blobs, immutable action results that refer to
  blobs, and versioned action manifests, each in a namespace. Clients upload and download blobs
  one by one or many in one framed pack, publish and look up action results, and read and
  replace manifests. Handlers (\<^verbatim>\<open>src/server.rs\<close>) authorize a request (\<^verbatim>\<open>src/auth.rs\<close>), check it
  (\<^verbatim>\<open>src/model.rs\<close>, \<^verbatim>\<open>src/pack.rs\<close>), call a blob store (\<^verbatim>\<open>src/storage/\<close>) and a metadata store
  (\<^verbatim>\<open>src/metadata/\<close>) through their traits, and report to a metrics registry (\<^verbatim>\<open>src/metrics.rs\<close>).
  \<^verbatim>\<open>src/main.rs\<close> reads the configuration (\<^verbatim>\<open>src/config.rs\<close>) and either sweeps old metadata or serves.

  \<^bold>\<open>How code is modelled.\<close> A result is a sum with the error on the left; code with effects is a
  \<open>prog\<close>, a function from a state to a result and a state, and \<open>bindp\<close> is the \<^verbatim>\<open>?\<close> operator.
  Sizes and counters are 64-bit words with the checked, saturating or wrapping operation the
  source uses. A trait object is a record of operations over a state (\<open>blob_store\<close>,
  \<open>metadata_store\<close>), its contract a locale (\<open>blob_store_laws\<close>, \<open>metadata_store_laws\<close>). The state of
  the server is the record \<open>world\<close>: the states of the two stores, of the authorizer and of the
  metrics, the faults of local files, the clock, and what other requests do to the stores
  between two store calls (\<open>w_env\<close>); a store call that fails may or may not have had its effect.
  Code outside the repository is a parameter: the protocol crate (\<open>protocol\<close>), hashing,
  serialisation, the token library, the network, the database (\<open>database\<close>, \<open>value_codec\<close>), the
  object-store clients (\<open>s3_client\<close>, \<open>object_store\<close>), the argument parser. What is relied on of it
  are the predicates named \<open>..._documented\<close> and the locales \<open>s3_service\<close> and \<open>object_service\<close>; each
  has a concrete instance, which the witnesses use.

  \<^bold>\<open>Theories and source files.\<close>
  \<^item> \<^verbatim>\<open>Prelude\<close>, \<^verbatim>\<open>Protocol\<close>, \<^verbatim>\<open>Json\<close>: results, programs, strings and words; the types of the protocol crate;
    JSON values.
  \<^item> \<^verbatim>\<open>Pack\<close>, \<^verbatim>\<open>Pack_Language\<close> (\<^verbatim>\<open>src/pack.rs\<close>): the incremental reader of pack uploads; that it accepts
    exactly the documented format within the declared limits, independently of chunk boundaries.
  \<^item> \<^verbatim>\<open>Api\<close>, \<^verbatim>\<open>Server\<close>, \<^verbatim>\<open>Actions\<close>, \<^verbatim>\<open>Pack_Serving\<close>, \<^verbatim>\<open>Router\<close> (\<^verbatim>\<open>src/server.rs\<close>): errors and request checks; blob and
    pack uploads and the missing-blob query; action results with the walk over output trees, and
    manifests; pack downloads with their concurrent storage reads; routes, limits, capabilities
    and error answers, and \<open>serve\<close>, which runs the handler of a request.
  \<^item> \<^verbatim>\<open>Auth\<close>, \<^verbatim>\<open>Oidc\<close>, \<^verbatim>\<open>Oidc_Props\<close> (\<^verbatim>\<open>src/auth.rs\<close>): namespaces and patterns, static tokens, claim rules;
    providers, key caches and token verification; who is let in, and how often keys are fetched.
  \<^item> \<^verbatim>\<open>Model\<close> (\<^verbatim>\<open>src/model.rs\<close>): action descriptors and client metadata with their validation.
  \<^item> \<^verbatim>\<open>Metrics\<close>, \<^verbatim>\<open>Metrics_Registry\<close> (\<^verbatim>\<open>src/metrics.rs\<close>): the calls on the metric handles and the guard of a
    pack stream, with its accounting; the registered metrics.
  \<^item> \<^verbatim>\<open>Storage\<close>, \<^verbatim>\<open>Filesystem\<close>, \<^verbatim>\<open>Object_Stores\<close>, \<^verbatim>\<open>S3\<close>, \<^verbatim>\<open>Azure\<close> (\<^verbatim>\<open>src/storage/\<close>): the blob-store contract and its
    three implementations. The contract is owed to clients that put bytes which fit their digest, as
    the server does; that an object reported to exist can be read is owed where the other clients do
    the same. An Azure object may be pending, and then reads as an empty one.
  \<^item> \<^verbatim>\<open>Metadata\<close>, \<^verbatim>\<open>Memory\<close>, \<^verbatim>\<open>Postgres\<close> (\<^verbatim>\<open>src/metadata/\<close>): the metadata contract, through an abstract view of
    blobs, results and manifests, and its two implementations; histories of concurrent calls.
  \<^item> \<^verbatim>\<open>Config\<close>, \<^verbatim>\<open>Startup\<close> (\<^verbatim>\<open>src/config.rs\<close>, \<^verbatim>\<open>src/main.rs\<close>, \<^verbatim>\<open>from_config\<close>, \<^verbatim>\<open>from_url\<close>): configuration, choice of the back ends
    and start of the process; the server over S3 and PostgreSQL.
  \<^item> \<^verbatim>\<open>Server_Invariant\<close>, \<^verbatim>\<open>Server_Guarantee\<close>, \<^verbatim>\<open>Server_Packs\<close>, \<^verbatim>\<open>Server_Trees\<close>, \<^verbatim>\<open>Server_Results\<close>, \<^verbatim>\<open>Server_Serving\<close>,
    \<^verbatim>\<open>Pack_Accounts\<close>, \<^verbatim>\<open>Server_Errors\<close>, \<^verbatim>\<open>Service\<close>: what the handlers guarantee over any pair of back ends that
    keeps the contracts. \<open>world_ok\<close> is the invariant: stored bytes have the size and hash of their
    digest, visible blobs are stored, results are closed over visible blobs, manifests carry their
    tag. \<open>triple\<close> is the judgement that a handler keeps it under interference, with an
    assertion before and after; the locale \<open>cache_server\<close> collects what handlers rely on.
  \<^item> \<^verbatim>\<open>Service_Example\<close>: one small instance, on which the witnesses evaluate requests.

  \<^bold>\<open>What is shown.\<close> This theory holds the properties of the service as a whole; those of one component
  stand at the end of its theory. They say that no sequence of requests breaks the invariant,
  over any back ends that keep the contracts and for S3 with PostgreSQL in particular; that reads deliver what was
  verified, uploads stay readable, results are closed and final; that packs are read and
  written exactly as announced and accounted for once; that requests without authorization are refused before anything is
  touched, and errors tell nothing; that the back ends refine their contracts under
  faults and concurrent clients; and that sweeping leaves no result that refers to a blob without a row.

  \<^bold>\<open>Bounds.\<close> No definition has fuel. The walk over an output tree and the loop of pack reads are
  functions with termination proofs: the first by the limit of 100000 directories in the code,
  the second by the reads that remain. The poll of an Azure copy ends after the 120 attempts of the code.

  \<^bold>\<open>Not modelled.\<close> HTTP itself, decompression, compression, tracing, the layers of the framework, the
  text format of the metrics page and of JSON (parameters); TLS and sockets; the shutdown signal;
  local temporary files beyond their faults. Expiry of objects by a lifecycle rule of
  the bucket is outside the store contract: the theorems are about a bucket that keeps its objects.
  The contract of the PostgreSQL store is proved for a client whose calls do not interleave with
  others', and for the commit of results also among concurrent statements; a sweep is serialised with other
  statements, although PostgreSQL's default isolation is weaker. The invariant of the service is not composed with
  the Azure store, whose contract needs that an upload is shorter than 2 to the 64 bytes. Tests, charts, migrations (beyond their keys and
  \<^verbatim>\<open>CHECK\<close> constraints) and deployment files are left out.
\<close>

section \<open>The service as a whole\<close>

text \<open>
  C1. Nothing is lost and nothing unsound becomes visible: whatever sequence of requests the
  service handles, successful or not, for every pair of back ends that keeps the laws of the
  two interfaces and whatever other requests do between the store calls, stored content still
  matches its digest, visible blobs are stored, committed results are closed over visible blobs,
  and every blob, content and action result that was there is still there unchanged.
\<close>

theorem service_invariant:
  assumes "packing_server B st K" and "world_ok B K w" and w': "w' = serve_all B st reqs w"
  shows "world_ok B K w' \<and> w_held K w \<subseteq> w_held K w' \<and>
    (\<forall>d bs. w_content K w d = Some bs \<longrightarrow> w_content K w' d = Some bs) \<and>
    (\<forall>k r. v_results (bk_view K (w_meta w)) k = Some r \<longrightarrow> v_results (bk_view K (w_meta w')) k = Some r)"
proof -
  from packing_server.serve_all_keeps [OF assms(1,2)]
  have ok: "world_ok B K w'" and grows: "w_grows K w w'" by (simp_all add: w')
  show ?thesis
    using ok w_grows_held [OF grows] w_grows_content [OF grows] lastingD [OF lasting_results _ grows] by blast
qed

theorem service_invariant_witness:
  "world_ok example_libraries example_backend
     (serve_all example_libraries example_state [upload_of file_bytes, upload_of [9]] empty_world)"
  using service_invariant [OF ex.packing_server_axioms empty_world_ok refl] by blast

section \<open>Blobs\<close>

text \<open>
  C4. What a client is sent as a blob is the content its digest names: when a read succeeds, the
  blob is visible in the namespace the request was authorized for, and the body delivers (up to
  a read error part way) exactly stored bytes whose size and hash are those of the digest.
\<close>

theorem get_blob_verified:
  assumes "cache_server B st K" and "world_ok B K w"
    and "get_blob B st headers (alg, hash, n) w = (Inr resp, w')"
  shows "serves_verified B K w' headers \<lparr>dg_algorithm = alg, dg_hash = hash, dg_size = n\<rparr> resp"
  using cache_server.triple_get_blob [OF assms(1)] assms(2,3) unfolding triple_def by blast

theorem get_blob_verified_witness:
  "\<exists>resp w'. serves_verified example_libraries example_backend w' team_headers (digest_of file_bytes) resp"
proof -
  have "\<not> isl (fst (get_blob example_libraries example_state team_headers
      (''blake3'', reference_hash file_bytes, 2) file_world))"
    by code_simp
  from get_blob_verified [OF ex.cache_server_axioms example_worlds_ok(1) succeeds [OF this]]
  show ?thesis by (auto simp: digest_of_def file_bytes_def)
qed

text \<open>
  C3. An uploaded blob stays available: once an upload has been accepted, and whatever requests
  follow, a read of that digest in that namespace never answers that the blob does not exist; if
  it succeeds it delivers content with the uploaded digest's size and hash.
\<close>

theorem uploaded_blob_found:
  assumes "packing_server B st K" and "world_ok B K w"
    and put: "put_blob B st headers (alg, hash, n) body w = (Inr status, w1)"
    and "w2 = serve_all B st reqs w1"
    and "headers' ''mbx-cache-namespace'' = headers ''mbx-cache-namespace''"
    and get: "get_blob B st headers' (alg, hash, n) w2 = (x, w3)"
  shows "case x of
      Inl e \<Rightarrow> ae_status e \<noteq> NOT_FOUND
    | Inr resp \<Rightarrow> serves_verified B K w3 headers' \<lparr>dg_algorithm = alg, dg_hash = hash, dg_size = n\<rparr> resp"
proof -
  have server: "cache_server B st K" using assms(1) by (simp add: packing_server_def)
  let ?d = "\<lparr>dg_algorithm = alg, dg_hash = hash, dg_size = n\<rparr>"
  note stored = cache_server.triple_put_blob [OF server, unfolded triple_def, rule_format, OF assms(2) _ put]
  obtain ns where ns: "headers ''mbx-cache-namespace'' = Some ns" "(ns, ?d) \<in> w_held K w1" using stored by auto
  note later = packing_server.serve_all_keeps [OF assms(1), of w1 reqs]
  from later stored ns(2) have w2: "world_ok B K w2" "(ns, ?d) \<in> w_held K w2"
    unfolding assms(4) by (auto intro: w_grows_held)
  note found = cache_server.etriple_get_blob [OF server, of headers' ns alg hash n, unfolded etriple_def triple_def]
    and served = cache_server.triple_get_blob [OF server, of headers' alg hash n, unfolded triple_def]
  show ?thesis
    using found served get w2 ns(1) assms(5) by (cases x) (auto simp: present_def)
qed

theorem uploaded_blob_found_witness:
  "case fst (get_blob example_libraries example_state team_headers (''blake3'', reference_hash file_bytes, 2)
      (serve_all example_libraries example_state [upload_of [9], upload_of file_bytes]
        (snd (put_blob example_libraries example_state team_headers (''blake3'', reference_hash file_bytes, 2)
          [Inr [65], Inr [66]] empty_world)))) of
     Inl e \<Rightarrow> ae_status e \<noteq> NOT_FOUND
   | Inr resp \<Rightarrow> \<exists>w. serves_verified example_libraries example_backend w team_headers (digest_of file_bytes) resp"
proof -
  have "\<not> isl (fst (put_blob example_libraries example_state team_headers (''blake3'', reference_hash file_bytes, 2)
      [Inr [65], Inr [66]] empty_world))"
    by code_simp
  from uploaded_blob_found [where headers' = team_headers and reqs = "[upload_of [9], upload_of file_bytes]",
      OF ex.packing_server_axioms empty_world_ok succeeds [OF this] refl refl surjective_pairing]
  show ?thesis by (auto simp: digest_of_def file_bytes_def split: sum.splits)
qed

text \<open>
  C5. Every blob of an accepted pack upload becomes available: the body was a well-formed pack,
  and the blob of every frame is visible in the authorized namespace with content of its size
  and hash.
\<close>

theorem put_blob_pack_stores:
  assumes "packing_server B st K" and "world_ok B K w"
    and put: "put_blob_pack B st headers body w = (Inr receipt, w')"
  shows "\<exists>ns cs fs. headers ''mbx-cache-namespace'' = Some ns \<and> body = map Inr cs \<and>
    concat cs = pack_stream (lb_protocol B) fs \<and>
    (\<forall>f\<in>set fs. let d = frame_digest (lb_protocol B) f in
       (ns, d) \<in> w_held K w' \<and> (\<exists>bs. w_content K w' d = Some bs \<and> verified B d bs))"
proof -
  have server: "cache_server B st K" and doc: "hex_documented (lb_protocol B)" "magic_documented (lb_protocol B)"
    "max_batch_items (lb_protocol B) = 10000" "unat (st_max_blob_bytes st) < 2 ^ 63"
    using assms(1) by (simp_all add: packing_server_def packing_server_axioms_def)
  note stored = cache_server.triple_put_blob_pack [OF server doc, unfolded triple_def, rule_format, OF assms(2) _ put]
  from stored have "world_ok B K w'" by simp
  then have content: "\<exists>bs. w_content K w' d = Some bs \<and> verified B d bs" if "(ns, d) \<in> w_held K w'" for ns d
    using that by (metis world_ok_held)
  show ?thesis
    using stored content unfolding all_held_def Let_def by (metis (no_types, lifting) TrueI image_eqI list.set_map)
qed

theorem put_blob_pack_stores_witness:
  "\<exists>w' ns cs fs. packed_file = map Inr cs \<and> concat cs = pack_stream reference_protocol fs \<and> fs \<noteq> [] \<and>
    (\<forall>f\<in>set fs. (ns, frame_digest reference_protocol f) \<in> w_held example_backend w')"
proof -
  have "\<not> isl (fst (put_blob_pack example_libraries example_state team_headers packed_file empty_world))"
    by code_simp
  from put_blob_pack_stores [OF ex.packing_server_axioms empty_world_ok succeeds [OF this]]
  obtain ns cs fs where p: "packed_file = map Inr cs" "concat cs = pack_stream reference_protocol fs"
    "\<forall>f\<in>set fs. (ns, frame_digest reference_protocol f) \<in> w_held example_backend
       (snd (put_blob_pack example_libraries example_state team_headers packed_file empty_world))"
    unfolding Let_def by (auto simp: example_libraries_def)
  have "map projr packed_file = cs" by (simp add: p(1) comp_def)
  moreover have "length (concat (map projr packed_file)) \<noteq> length (pack_stream reference_protocol [])" by code_simp
  ultimately have "fs \<noteq> []" using p(2) by auto
  with p show ?thesis by blast
qed

text \<open>
  C15. A digest is reported missing exactly when it is not visible in the authorized namespace.
\<close>

theorem missing_blobs_exact:
  assumes "cache_server B st K" and "world_ok B K w"
    and "missing_blobs B st headers request w = (Inr resp, w')"
  shows "\<exists>ns. headers ''mbx-cache-namespace'' = Some ns \<and>
    mi_missing resp = filter (\<lambda>d. (ns, d) \<notin> w_held K w') (mq_digests request)"
  using cache_server.triple_missing_blobs [OF assms(1)] assms(2,3) unfolding triple_def by blast

theorem missing_blobs_exact_witness:
  "\<exists>ns w'. (mi_missing \<circ> projr \<circ> fst) (missing_blobs example_libraries example_state team_headers
      \<lparr>mq_digests = [digest_of file_bytes, digest_of [9]]\<rparr> file_world) =
    filter (\<lambda>d. (ns, d) \<notin> w_held example_backend w') [digest_of file_bytes, digest_of [9]]"
proof -
  have "\<not> isl (fst (missing_blobs example_libraries example_state team_headers
      \<lparr>mq_digests = [digest_of file_bytes, digest_of [9]]\<rparr> file_world))"
    by code_simp
  from missing_blobs_exact [OF ex.cache_server_axioms example_worlds_ok(1) succeeds [OF this]]
  show ?thesis by (metis comp_apply missing_request.select_convs(1))
qed

section \<open>Action results\<close>

text \<open>
  C2. Only closed results are published: when a result is accepted, its descriptor is a canonical
  descriptor of one of the four kinds in the shape that kind demands, its metadata and the
  blobs the metadata names are visible, and from the output root every directory reachable is a
  visible, canonical directory object all of whose files are visible, without cycles. The
  result is then the stored one, and has been for as long as any was.
\<close>

theorem put_action_result_closed:
  assumes "cache_server B st K" and "world_ok B K w"
    and put: "put_action_result B st headers (alg, hash, n) res w = (Inr status, w')"
  defines "a \<equiv> \<lparr>dg_algorithm = alg, dg_hash = hash, dg_size = n\<rparr>"
  shows "\<exists>ns. headers ''mbx-cache-namespace'' = Some ns \<and>
    v_results (bk_view K (w_meta w')) (ns, a) = Some res \<and>
    result_ok B (w_held K w') (w_content K w') ns a res \<and>
    (\<forall>old. v_results (bk_view K (w_meta w)) (ns, a) = Some old \<longrightarrow> old = res) \<and>
    (\<forall>d e. ar_output_root res = Some d \<longrightarrow> (d, e) \<in> (tree_edges B (w_content K w'))\<^sup>* \<longrightarrow>
       node_ok B (w_held K w') (w_content K w') ns e \<and> (e, e) \<notin> (tree_edges B (w_content K w'))\<^sup>+)"
proof -
  note committed = cache_server.triple_put_action_result [OF assms(1), unfolded triple_def, rule_format, OF assms(2) _ put]
  from committed have w': "world_ok B K w'" "w_grows K w w'" by simp_all
  obtain ns where ns: "headers ''mbx-cache-namespace'' = Some ns" "v_results (bk_view K (w_meta w')) (ns, a) = Some res"
    using committed by (auto simp: a_def)
  have ok: "result_ok B (w_held K w') (w_content K w') ns a res" by (rule world_ok_result [OF w'(1) ns(2)])
  moreover have "old = res" if "v_results (bk_view K (w_meta w)) (ns, a) = Some old" for old
    using lastingD [OF lasting_results that w'(2)] ns(2) by simp
  moreover have "node_ok B (w_held K w') (w_content K w') ns e \<and> (e, e) \<notin> (tree_edges B (w_content K w'))\<^sup>+"
    if "ar_output_root res = Some d" "(d, e) \<in> (tree_edges B (w_content K w'))\<^sup>*" for d e
    using tree_closed_reach [OF _ that(2)] ok that(1) unfolding result_ok_def by blast
  ultimately show ?thesis using ns by blast
qed

theorem put_action_result_closed_witness:
  "\<exists>ns w'. result_ok example_libraries (w_held example_backend w') (w_content example_backend w') ns
     (digest_of task_bytes) example_result"
proof -
  from put_action_result_closed [OF ex.cache_server_axioms example_worlds_ok(2) succeeds [OF result_accepted]]
  show ?thesis by (auto simp: digest_of_def task_bytes_def)
qed

text \<open>
  C14. Results are immutable for the clients: after an accepted write of an action result, and
  whatever requests follow, a read of that action in that namespace never answers that there is
  no result, and if it succeeds it returns the result that was written; and no later write of a
  different result is accepted.
\<close>

theorem published_result_final:
  assumes "packing_server B st K" and "world_ok B K w"
    and put: "put_action_result B st headers (alg, hash, n) res w = (Inr status, w1)"
    and "w2 = serve_all B st reqs w1"
    and "headers' ''mbx-cache-namespace'' = headers ''mbx-cache-namespace''"
    and get: "get_action_result B st headers' (alg, hash, n) w2 = (x, w3)"
    and again: "put_action_result B st headers' (alg, hash, n) res' w2 = (y, w4)"
  shows "(case x of Inl e \<Rightarrow> ae_status e \<noteq> NOT_FOUND | Inr found \<Rightarrow> found = res) \<and> (\<not> isl y \<longrightarrow> res' = res)"
proof -
  have server: "cache_server B st K" using assms(1) by (simp add: packing_server_def)
  let ?stored = "\<lambda>ns w. v_results (bk_view K (w_meta w)) (ns, \<lparr>dg_algorithm = alg, dg_hash = hash, dg_size = n\<rparr>)"
  note written = cache_server.triple_put_action_result [OF server, unfolded triple_def, rule_format]
  obtain ns where ns: "headers ''mbx-cache-namespace'' = Some ns" "?stored ns w1 = Some res" "world_ok B K w1"
    using written [OF assms(2) TrueI put] by auto
  from packing_server.serve_all_keeps [OF assms(1) ns(3), of reqs]
  have w2: "world_ok B K w2" "?stored ns w2 = Some res"
    unfolding assms(4) using lastingD [OF lasting_results ns(2)] by blast+
  have "case x of Inl e \<Rightarrow> ae_status e \<noteq> NOT_FOUND | Inr found \<Rightarrow> found = res"
    using cache_server.etriple_get_action_result [OF server, of headers' ns, unfolded etriple_def triple_def]
      get w2 ns(1) assms(5) by (cases x) (auto simp: present_def)
  moreover have "res' = res" if "y = Inr s" for s
    using written [OF w2(1) TrueI again] lastingD [OF lasting_results w2(2)] that ns(1) assms(5) by auto
  ultimately show ?thesis by (cases y) auto
qed

theorem published_result_final_witness:
  "case fst (get_action_result example_libraries example_state team_headers (''blake3'', reference_hash task_bytes, 1)
      (serve_all example_libraries example_state [upload_of [9]]
        (snd (put_action_result example_libraries example_state team_headers
          (''blake3'', reference_hash task_bytes, 1) example_result stocked_world)))) of
     Inl e \<Rightarrow> ae_status e \<noteq> NOT_FOUND | Inr found \<Rightarrow> found = example_result"
proof -
  from published_result_final [where headers' = team_headers and reqs = "[upload_of [9]]" and res' = example_result,
      OF ex.packing_server_axioms example_worlds_ok(2) succeeds [OF result_accepted] refl refl surjective_pairing surjective_pairing]
  show ?thesis by blast
qed

text \<open>
  C16. A batch lookup returns exactly the results the authorized namespace holds for the requested
  actions, in the order in which the actions were first named and one for each: every result that
  was published when the request came in is among them, and each of them is sound.
\<close>

theorem batch_results_exact:
  assumes "cache_server B st K" and "world_ok B K w"
    and run: "batch_action_results B st headers request w = (Inr (media_type, results), w')"
  shows "\<exists>ns. headers ''mbx-cache-namespace'' = Some ns \<and> media_type = lb_action_batch_media_type B \<and>
    results = List.map_filter (\<lambda>a. v_results (bk_view K (w_meta w')) (ns, a)) (rev (remdups (rev (mq_digests request)))) \<and>
    distinct (map ar_action results) \<and>
    (\<forall>r\<in>set results. ar_action r \<in> set (mq_digests request) \<and>
       result_ok B (w_held K w') (w_content K w') ns (ar_action r) r) \<and>
    (\<forall>a\<in>set (mq_digests request). \<forall>r. v_results (bk_view K (w_meta w)) (ns, a) = Some r \<longrightarrow> r \<in> set results)"
proof -
  note batch = cache_server.triple_batch_action_results [OF assms(1), unfolded triple_def, rule_format, OF assms(2) TrueI run]
  from batch have w': "world_ok B K w'" "w_grows K w w'" by simp_all
  obtain ns where ns: "headers ''mbx-cache-namespace'' = Some ns" "media_type = lb_action_batch_media_type B"
    and results: "results = List.map_filter (\<lambda>a. v_results (bk_view K (w_meta w')) (ns, a)) (rev (remdups (rev (mq_digests request))))"
    using batch by auto
  have "r \<in> set results" if "a \<in> set (mq_digests request)" "v_results (bk_view K (w_meta w)) (ns, a) = Some r" for a r
    using that lastingD [OF lasting_results that(2) w'(2)] unfolding results set_map_filter by fastforce
  with ns results batch_sound [OF w'(1) _ results] show ?thesis by auto
qed

theorem batch_results_exact_witness:
  "\<exists>w'. batch_action_results example_libraries example_state team_headers
      \<lparr>mq_digests = [digest_of [9], digest_of task_bytes, digest_of task_bytes]\<rparr> result_world =
      (Inr (''batch'', [example_result]), w') \<and>
    result_ok example_libraries (w_held example_backend w') (w_content example_backend w') ''team''
      (digest_of task_bytes) example_result"
proof -
  let ?run = "batch_action_results example_libraries example_state team_headers
      \<lparr>mq_digests = [digest_of [9], digest_of task_bytes, digest_of task_bytes]\<rparr> result_world"
  have "fst ?run = Inr (''batch'', [example_result])" by code_simp
  then have run: "?run = (Inr (''batch'', [example_result]), snd ?run)" by (metis prod.collapse)
  from batch_results_exact [OF ex.cache_server_axioms result_world_ok run] run
  show ?thesis by (auto simp: team_headers_def example_result_def)
qed

section \<open>Action manifests\<close>

text \<open>
  C17. The tag a client is given names what it was given: an accepted write of a manifest is stored
  under the tag it answers with, and the tag of a manifest that is read is the quoted BLAKE3
  hash of exactly the body that is sent.
\<close>

theorem manifest_etags:
  assumes "cache_server B st K" and "world_ok B K w"
    and "put_action_manifest B st headers (alg, hash, n) body w = (Inr written, w1)" and "world_ok B K v"
    and "get_action_manifest B st headers' parts v = (Inr resp, w2)"
  shows "(\<exists>ns etag m bs. headers ''mbx-cache-namespace'' = Some ns \<and> mp_etag written = quoted_etag etag \<and>
      v_manifests (bk_view K (w_meta w1)) (ns, \<lparr>dg_algorithm = alg, dg_hash = hash, dg_size = n\<rparr>) = Some (etag, m) \<and>
      sd_canonical_json (lb_serde B) m = Inr bs \<and> etag = blake3_hash_hex (lb_hash B) bs) \<and>
    mp_status resp = OK \<and> mp_etag resp = quoted_etag (blake3_hash_hex (lb_hash B) (mp_body resp))"
proof -
  from cache_server.triple_put_action_manifest [OF assms(1), unfolded triple_def, rule_format, OF assms(2) TrueI assms(3)]
  obtain ns etag m where w1: "world_ok B K w1" and m: "headers ''mbx-cache-namespace'' = Some ns" "mp_etag written = quoted_etag etag"
    "v_manifests (bk_view K (w_meta w1)) (ns, \<lparr>dg_algorithm = alg, dg_hash = hash, dg_size = n\<rparr>) = Some (etag, m)"
    by auto
  from world_ok_manifest [OF w1 m(3)] m
    cache_server.triple_get_action_manifest [OF assms(1), unfolded triple_def, rule_format, OF assms(4) TrueI assms(5)]
  show ?thesis unfolding manifest_ok_def by blast
qed

theorem manifest_etags_witness:
  "\<exists>resp. fst manifest_read = Inr resp \<and> mp_etag resp = quoted_etag (reference_hash (mp_body resp))"
  using manifest_etags [OF ex.cache_server_axioms empty_world_ok manifest_runs(1) [unfolded manifest_written_def]
      manifest_world_ok manifest_runs(2) [unfolded manifest_read_def]]
    arg_cong [OF manifest_runs(2), of fst]
  unfolding manifest_read_def [symmetric] example_hash fst_conv by blast

section \<open>Packs\<close>

text \<open>
  C12. A pack carries the requested blobs the namespace has, and its announcement is exact: the
  headers of the answer give the number of its blobs, the sum of their sizes and the length of
  the whole response, the payload is within the configured limit, and every requested blob that
  was visible when the request came in is among its entries, once.
\<close>

theorem pack_announcement_exact:
  assumes "cache_server B st K" and "magic_documented (lb_protocol B)" and "world_ok B K w"
    and run: "pack_blobs B st headers request w = (Inr resp, w')"
  shows "\<exists>ns. headers ''mbx-cache-namespace'' = Some ns \<and>
    (let ds = map snd (pk_entries resp) in
       distinct ds \<and> set ds \<subseteq> set (mq_digests request) \<and> (\<forall>d\<in>set ds. (ns, d) \<in> w_held K w') \<and>
       (\<forall>d\<in>set (mq_digests request). (ns, d) \<in> w_held K w \<longrightarrow> d \<in> set ds) \<and>
       pk_blobs resp = of_nat (length ds) \<and> unat (pk_bytes resp) = (\<Sum>d\<leftarrow>ds. unat (dg_size d)) \<and>
       pk_bytes resp \<le> st_max_blob_bytes st \<and>
       unat (pk_content_length resp) =
         length (pack_magic (lb_protocol B)) + (\<Sum>d\<leftarrow>ds. HEADER_BYTES + unat (dg_size d)))"
proof -
  note answer = cache_server.triple_pack_blobs [OF assms(1,2), where H = "w_held K w", unfolded triple_def, rule_format,
      OF assms(3) _ run]
  show ?thesis
    using answer unfolding announces_def Let_def by (auto simp: comp_def)
qed

theorem pack_announcement_exact_witness:
  "\<exists>resp. fst pack_of_file = Inr resp \<and> distinct (map snd (pk_entries resp)) \<and>
     unat (pk_content_length resp) =
       length (pack_magic reference_protocol) + (\<Sum>d\<leftarrow>map snd (pk_entries resp). HEADER_BYTES + unat (dg_size d))"
  using pack_announcement_exact [OF ex.cache_server_axioms ex.magic example_worlds_ok(1)
      pack_of_file_facts(1) [unfolded pack_of_file_def]]
    arg_cong [OF pack_of_file_facts(1), of fst]
  unfolding pack_of_file_def [symmetric] fst_conv example_protocol Let_def by metis

text \<open>
  C10. What the client receives is a prefix of the announced pack, and all of it if the stream
  ends as it should, however the storage reads complete, wherever the storage fails and
  wherever the client stops: the frames are those of the announced blobs in order, their
  payloads the stored contents, their number of bytes the announced length.
\<close>

theorem pack_stream_faithful:
  assumes "packing_server B st K" and "world_ok B K w" and run: "pack_blobs B st headers request w = (Inr resp, w1)"
    and small: "\<forall>d\<in>snd ` set (pk_entries resp). \<forall>bs. w_content K w1 d = Some bs \<longrightarrow> length bs < 2 ^ 64"
    and stream: "stream_pack B st resp schedule demand w1 = (x, sent, w2)"
  shows "\<exists>fs. map (frame_digest (lb_protocol B)) fs = map snd (pk_entries resp) \<and>
    (\<forall>f\<in>set fs. w_content K w1 (frame_digest (lb_protocol B) f) = Some (frame_payload f)) \<and>
    length (pack_stream (lb_protocol B) fs) = unat (pk_content_length resp) \<and>
    prefix (concat sent) (pack_stream (lb_protocol B) fs) \<and>
    (x = Inr () \<longrightarrow> concat sent = pack_stream (lb_protocol B) fs)"
proof -
  have server: "cache_server B st K" "hex_documented (lb_protocol B)" "magic_documented (lb_protocol B)"
    using assms(1) by (simp_all add: packing_server_def packing_server_axioms_def)
  from cache_server.triple_pack_blobs [OF server(1,3), where H = "{}", unfolded triple_def, rule_format, OF assms(2) _ run]
  obtain ns where "world_ok B K w1" "announces B K ns resp w1" by auto
  from cache_server.stream_pack_sound [OF server(1,2) this _ stream] small show ?thesis
    unfolding pack_of_def by blast
qed

theorem pack_stream_faithful_witness:
  "\<exists>fs. concat (fst (snd stream_of_file)) = pack_stream reference_protocol fs \<and>
     map (frame_digest reference_protocol) fs = [digest_of file_bytes]"
proof -
  have small: "\<forall>d\<in>snd ` set (pk_entries (projr (fst pack_of_file))). \<forall>bs.
      w_content example_backend (snd pack_of_file) d = Some bs \<longrightarrow> length bs < 2 ^ 64"
    unfolding list.set_map [symmetric] pack_of_file_facts(2) using pack_of_file_facts(3) by (simp add: file_bytes_def)
  have stream: "stream_pack example_libraries example_state (projr (fst pack_of_file)) [[0]] None (snd pack_of_file) =
      (Inr (), fst (snd stream_of_file), snd (snd stream_of_file))"
    using pack_of_file_facts(4) by simp
  from pack_stream_faithful [OF ex.packing_server_axioms example_worlds_ok(1) pack_of_file_facts(1) [unfolded pack_of_file_def]
      small [unfolded pack_of_file_def] stream [unfolded pack_of_file_def]]
  show ?thesis unfolding pack_of_file_def [symmetric] pack_of_file_facts(2) example_protocol by metis
qed

text \<open>
  C11. What the service streams, the service accepts: a pack that was streamed to its end is read
  without error by the reader of pack uploads, set up with the numbers the response announced,
  and the reader ends having counted exactly these numbers.
\<close>

theorem served_pack_readable:
  assumes "packing_server B st K" and "world_ok B K w" and run: "pack_blobs B st headers request w = (Inr resp, w1)"
    and small: "\<forall>d\<in>snd ` set (pk_entries resp). \<forall>bs. w_content K w1 d = Some bs \<longrightarrow> length bs < 2 ^ 64"
    and stream: "stream_pack B st resp schedule demand w1 = (Inr (), sent, w2)"
  shows "\<exists>r ts. reads_pack (lb_protocol B) (st_max_blob_bytes st) (pk_blobs resp) (pk_bytes resp) sent r ts \<and>
    pr_blobs r = pk_blobs resp \<and> pr_payload_bytes r = pk_bytes resp"
proof -
  have server: "cache_server B st K" "hex_documented (lb_protocol B)" "magic_documented (lb_protocol B)"
    "max_batch_items (lb_protocol B) = 10000" "unat (st_max_blob_bytes st) < 2 ^ 63"
    using assms(1) by (simp_all add: packing_server_def packing_server_axioms_def)
  from cache_server.triple_pack_blobs [OF server(1,3), where H = "{}", unfolded triple_def, rule_format, OF assms(2) _ run]
  obtain ns where an: "world_ok B K w1" "announces B K ns resp w1" and blobs: "pk_blobs resp = of_nat (length (pk_entries resp))"
    and bytes: "pk_bytes resp \<le> st_max_blob_bytes st" and sub: "set (map snd (pk_entries resp)) \<subseteq> set (mq_digests request)"
    by auto
  have "length (pk_entries resp) = card (set (map snd (pk_entries resp)))"
    using an(2) unfolding announces_def by (metis distinct_card length_map)
  also have "\<dots> \<le> length (mq_digests request)"
    using card_mono [OF _ sub] card_length [of "mq_digests request"] by fastforce
  finally have few: "length (pk_entries resp) \<le> 10000" using pack_blobs_batch [OF run] server(4) by simp
  from cache_server.stream_pack_sound [OF server(1,2) an _ stream] small
  obtain fs where fs: "pack_of B K resp w1 fs" "concat sent = pack_stream (lb_protocol B) fs" by blast
  have limits: "within_limits (st_max_blob_bytes st) (pk_blobs resp) (pk_bytes resp) fs"
    by (rule pack_of_within_limits [OF fs(1) blobs _ bytes]) (use few in simp)
  have len: "length fs = length (pk_entries resp)" using fs(1) unfolding pack_of_def by (metis length_map)
  have "unat (st_max_blob_bytes st) + unat (pk_bytes resp) < 2 ^ 64"
    using server(5) bytes by (simp add: word_le_nat_alt)
  moreover have "unat (pk_blobs resp) + 1 < 2 ^ 64" using blobs few by (simp add: unat_of_nat)
  ultimately show ?thesis
    using reads_pack_iff [OF server(3)] fs limits len blobs unfolding pack_of_def
    by (fastforce intro!: exI)
qed

theorem served_pack_readable_witness:
  "\<exists>r ts. reads_pack reference_protocol 1024 (pk_blobs (projr (fst pack_of_file))) (pk_bytes (projr (fst pack_of_file)))
     (fst (snd stream_of_file)) r ts"
proof -
  have small: "\<forall>d\<in>snd ` set (pk_entries (projr (fst pack_of_file))). \<forall>bs.
      w_content example_backend (snd pack_of_file) d = Some bs \<longrightarrow> length bs < 2 ^ 64"
    unfolding list.set_map [symmetric] pack_of_file_facts(2) using pack_of_file_facts(3) by (simp add: file_bytes_def)
  have stream: "stream_pack example_libraries example_state (projr (fst pack_of_file)) [[0]] None (snd pack_of_file) =
      (Inr (), fst (snd stream_of_file), snd (snd stream_of_file))"
    using pack_of_file_facts(4) by simp
  have "st_max_blob_bytes example_state = 1024" by (simp add: example_state_def AppState_new_def)
  with served_pack_readable [OF ex.packing_server_axioms example_worlds_ok(1) pack_of_file_facts(1) [unfolded pack_of_file_def]
      small [unfolded pack_of_file_def] stream [unfolded pack_of_file_def]]
  show ?thesis unfolding pack_of_file_def [symmetric] example_protocol by metis
qed

text \<open>
  C13. Every pack stream is counted once: answering a pack request raises the gauge of streams in
  flight by one, and whatever becomes of the stream (completed, failed in storage, abandoned by
  the client at any point) its end lowers the gauge by one and adds one to the counter of that
  outcome and of no other. A refused request leaves the gauge as it was.
\<close>

theorem pack_request_accounted:
  assumes "pack_blobs B st headers request w = (x, w1)"
  shows "case x of
      Inl _ \<Rightarrow> gauge_value pack_in_flight (w_metrics w1) = gauge_value pack_in_flight (w_metrics w)
    | Inr resp \<Rightarrow>
        gauge_value pack_in_flight (w_metrics w1) = gauge_value pack_in_flight (w_metrics w) + 1 \<and>
        (\<forall>schedule demand y sent w2. stream_pack B st resp schedule demand w1 = (y, sent, w2) \<longrightarrow>
           gauge_value pack_in_flight (w_metrics w2) = gauge_value pack_in_flight (w_metrics w) \<and>
           (\<forall>l. counter_total pack_requests l (w_metrics w2) =
              counter_total pack_requests l (w_metrics w) + (if l = end_label y then 1 else 0)))"
proof (cases x)
  case (Inr resp)
  with answers_pack_blobs [unfolded answers_def, rule_format, OF assms]
  have resp: "\<not> pg_finished (pk_guard resp)" "begun (w_metrics w) (w_metrics w1)" by simp_all
  show ?thesis
    using resp(2) stream_pack_accounts [OF _ resp(1)] unfolding Inr begun_def tallied_def by fastforce
qed (use answers_pack_blobs [unfolded answers_def, rule_format, OF assms] in simp)

theorem pack_request_accounted_witness:
  "gauge_value pack_in_flight (w_metrics (snd pack_of_file)) = gauge_value pack_in_flight (w_metrics file_world) + 1"
proof -
  have "pack_of_file = (Inr (projr (fst pack_of_file)), snd pack_of_file)" by (rule pack_of_file_facts(1))
  from pack_request_accounted [OF this [unfolded pack_of_file_def]] show ?thesis
    unfolding pack_of_file_def [symmetric] by simp
qed

section \<open>What the service promises\<close>

text \<open>
  C20. The advertised capabilities are those of the validators. An action descriptor is accepted as
  one of a kind exactly when it names that kind and the action schema advertised for it, and its values
  are those of the kind; client metadata is accepted for a kind exactly when the object names that
  kind and the metadata schema advertised for it, and its values and the blobs it names are in order.
  Every kind is advertised, once, and nothing else is.
\<close>

theorem capabilities_exact:
  "(descriptor_kind B v = Inr kind \<longleftrightarrow>
     (\<exists>cap. map_of (ca_action_kinds (capabilities B st)) (expected_kind kind) = Some cap \<and>
        json_get v ''kind'' = Some (JString (expected_kind kind)) \<and>
        json_get v ''version'' = Some (JNumber (PosInt (ak_action_schema cap))) \<and> descriptor_payload B kind v)) \<and>
   (validate_client_metadata B st ns d kind w = (Inr (), w') \<longleftrightarrow>
     (\<exists>cap m u. map_of (ca_action_kinds (capabilities B st)) (expected_kind kind) = Some cap \<and>
        read_canonical_object B st ns d ''client metadata'' w = (Inr m, u) \<and>
        json_get m ''kind'' = Some (JString (expected_kind kind)) \<and>
        json_get m ''version'' = Some (JNumber (PosInt (ak_metadata_schema cap))) \<and>
        metadata_payload B st ns kind m u w')) \<and>
   distinct (map fst (ca_action_kinds (capabilities B st))) \<and>
   fst ` set (ca_action_kinds (capabilities B st)) = range expected_kind"
proof -
  obtain cap where cap: "map_of (ca_action_kinds (capabilities B st)) (expected_kind kind) = Some cap"
    "ak_action_schema cap = action_schema kind" "ak_metadata_schema cap = 1"
    using capability_schema by blast
  have "distinct (map fst (ca_action_kinds (capabilities B st)))" by (simp add: capabilities_def)
  moreover have "fst ` set (ca_action_kinds (capabilities B st)) = range expected_kind"
    unfolding expected_kind_range by (auto simp: capabilities_def)
  ultimately show ?thesis
    unfolding descriptor_kind_iff validate_client_metadata_iff using cap by auto
qed

theorem capabilities_exact_witness:
  "descriptor_kind example_libraries example_task_json = Inr KindTask \<and>
   descriptor_kind example_libraries (JObject [(''kind'', JString ''cc''), (''version'', JNumber (PosInt 2))]) \<noteq> Inr KindCc"
proof
  have kinds: "map_of (ca_action_kinds (capabilities example_libraries example_state)) (expected_kind KindTask) =
      Some \<lparr>ak_action_schema = 1, ak_metadata_schema = 1\<rparr>"
    "map_of (ca_action_kinds (capabilities example_libraries example_state)) (expected_kind KindCc) =
      Some \<lparr>ak_action_schema = 1, ak_metadata_schema = 1\<rparr>"
    by (simp_all add: capabilities_def)
  note exact = capabilities_exact [of example_libraries _ _ example_state, THEN conjunct1]
  have "descriptor_payload example_libraries KindTask example_task_json" by code_simp
  with kinds(1) show "descriptor_kind example_libraries example_task_json = Inr KindTask"
    unfolding exact by (simp add: example_task_json_def json_get_def)
  show "descriptor_kind example_libraries (JObject [(''kind'', JString ''cc''), (''version'', JNumber (PosInt 2))]) \<noteq> Inr KindCc"
    unfolding exact kinds(2) by (simp add: json_get_def)
qed

text \<open>
  C21. The transport limit admits every pack within the advertised limits: a pack of at most the
  advertised number of blobs and payload bytes is no longer than the limit on the request body
  of the upload route, so that it is not refused before the handler sees it.
\<close>

theorem pack_limit_admits:
  assumes "max_batch_items (lb_protocol B) < 2 ^ 50" and "length (pack_magic (lb_protocol B)) < 2 ^ 10"
    and "unat (st_max_blob_bytes st) < 2 ^ 63"
    and "within_limits mb (of_nat (max_batch_items (lb_protocol B))) (cl_max_pack_bytes (ca_limits (capabilities B st))) fs"
    and "route \<in> set (router B st)" and "(POST, Ep_put_blob_pack) \<in> set (rt_methods route)"
  shows "\<exists>limit. rt_limit route = Some limit \<and> length (pack_stream (lb_protocol B) fs) \<le> limit"
proof -
  have "cl_max_pack_bytes (ca_limits (capabilities B st)) = st_max_blob_bytes st" by (simp add: capabilities_def)
  then have "length (pack_stream (lb_protocol B) fs) \<le>
      unat (st_max_blob_bytes st) + length (pack_magic (lb_protocol B)) + HEADER_BYTES * max_batch_items (lb_protocol B)"
    using pack_stream_length [OF assms(4)] assms(1) by simp
  also have "\<dots> = pack_limit B st"
    using assms(1-3) by (simp add: pack_limit_def body_limit_def saturating_add_def saturating_mul_def usize_max_def HEADER_BYTES_def)
  finally show ?thesis using assms(5,6) by (auto simp: router_def)
qed

theorem pack_limit_admits_witness:
  "length (pack_stream reference_protocol [(Blake3, replicate 32 7, [65, 66])]) \<le> pack_limit example_libraries example_state"
proof -
  have "within_limits 8 (of_nat (max_batch_items (lb_protocol example_libraries)))
      (cl_max_pack_bytes (ca_limits (capabilities example_libraries example_state))) [(Blake3, replicate 32 7, [65, 66])]"
    by code_simp
  from pack_limit_admits [OF _ _ _ this, of "\<lparr>rt_path = ''/v1/blobs:pack-upload'', rt_methods = [(POST, Ep_put_blob_pack)],
       rt_limit = Some (pack_limit example_libraries example_state)\<rparr>"]
  show ?thesis
    by (simp add: router_def reference_protocol_def as_bytes_def example_state_def AppState_new_def)
qed

text \<open>
  C19. Errors disclose nothing of the inside: whatever request fails, an internal error is answered
  with one fixed text, and the protocol header is attached to the demand for an upgrade and to
  nothing else.
\<close>

theorem errors_discreet:
  assumes "serve B st headers req w = (Inl e, w')"
  shows "(er_status (into_response e) = INTERNAL_SERVER_ERROR \<longrightarrow>
      er_body (into_response e) = JObject [(''error'', JString ''internal server error'')]) \<and>
    (er_protocol_header (into_response e) = Some ''1'' \<longleftrightarrow> er_status (into_response e) = UPGRADE_REQUIRED)"
  using failsD [OF fails_serve assms] by (auto simp: discreet_def into_response_def)

theorem errors_discreet_witness:
  "er_protocol_header (into_response (projl (fst (serve example_libraries example_state Map.empty
     (Missing_blobs \<lparr>mq_digests = []\<rparr>) empty_world)))) = Some ''1''"
proof -
  let ?run = "serve example_libraries example_state Map.empty (Missing_blobs \<lparr>mq_digests = []\<rparr>) empty_world"
  have run: "?run = (Inl upgrade_required, empty_world)"
    by (simp add: missing_blobs_def authorized_def authorize_def bindp_def throw_def zoom_def)
  from errors_discreet [OF this] show ?thesis
    unfolding run by (simp add: into_response_def upgrade_required_def)
qed

text \<open>
  C18. No access without authorization: when the headers of a request do not authorize the access
  it needs, in whatever state the key caches are, every request but the probes is refused with one
  of the statuses of authorization, and neither store has been touched.
\<close>

theorem unauthorized_refused:
  assumes "required_access req = Some access"
    and "\<forall>s. isl (fst (authorize (lb_jwt B) (lb_network B) (st_auth st) headers access s))"
  shows "\<exists>e w'. serve B st headers req w = (Inl e, w') \<and>
    ae_status e \<in> {UPGRADE_REQUIRED, BAD_REQUEST, UNAUTHORIZED, FORBIDDEN} \<and> stores w' = stores w"
proof -
  obtain x w' where run: "serve B st headers req w = (x, w')" by (rule prod.exhaust)
  from turned_away_serve [OF assms(1)] assms(2) run show ?thesis
    unfolding turned_away_def by (fastforce simp: refused_access_def stores_def)
qed

theorem unauthorized_refused_witness:
  "\<exists>e w'. serve example_libraries example_state Map.empty (snd (upload_of file_bytes)) empty_world = (Inl e, w') \<and>
     stores w' = stores empty_world"
proof -
  have "required_access (snd (upload_of file_bytes)) = Some Write" by (simp add: upload_of_def)
  from unauthorized_refused [OF this, of example_libraries example_state Map.empty empty_world] show ?thesis
    by (auto simp: authorize_def throw_def)
qed

end
